(* ===== verification/Prelude.thy ===== *)
theory Prelude
  imports Main "HOL-Library.Word"
begin

text \<open>
  What every component theory shares: the names of the Go types, Go's wrap-around and time
  arithmetic, the collections of rewrite rules, and two contracts that several components
  implement.

  \<^item> \<open>invariant_system\<close>: a machine whose every step keeps an invariant; its runs keep it too.
  \<^item> \<open>throttle\<close>: an operation that acts only when enough time has passed since it last acted
    and stamps the time when it does; its actions are then spaced.  The PLI recovery, the FEC
    toggle, the QoS events and the bitrate ladder are throttles.
\<close>

unbundle bit_operations_syntax

type_synonym byte = "8 word"
type_synonym bytes = "byte list"
type_synonym u16 = "16 word"
type_synonym u32 = "32 word"
type_synonym u64 = "64 word"

text \<open>
  The collections: \<open>codec\<close> for encoders and decoders of bytes, \<open>go_defs\<close> for the small
  definitions every proof about a component unfolds.
\<close>

named_theorems codec
named_theorems go_defs

section \<open>Integers of Go\<close>

text \<open>
  Values of Go's \<open>int\<close>, \<open>int64\<close> and \<open>int32\<close> are integers; \<open>wrap64\<close> and \<open>wrap32\<close> are the
  two's-complement wrap-around of an arithmetic result or a conversion.
\<close>

definition wrap64 :: "int \<Rightarrow> int" where
  "wrap64 x = signed_take_bit 63 x"

definition wrap32 :: "int \<Rightarrow> int" where
  "wrap32 x = signed_take_bit 31 x"

lemma wrap64_id [simp]: "- (2 ^ 63) \<le> x \<Longrightarrow> x < 2 ^ 63 \<Longrightarrow> wrap64 x = x"
  by (simp add: wrap64_def signed_take_bit_int_eq_self)

lemma wrap32_id [simp]: "- (2 ^ 31) \<le> x \<Longrightarrow> x < 2 ^ 31 \<Longrightarrow> wrap32 x = x"
  by (simp add: wrap32_def signed_take_bit_int_eq_self)

lemma wrap64_range: "- (2 ^ 63) \<le> wrap64 x" "wrap64 x < 2 ^ 63"
  using signed_take_bit_int_greater_eq_minus_exp [of 63 x] signed_take_bit_int_less_exp [of 63 x]
  by (simp_all add: wrap64_def)

lemma wrap32_range: "- (2 ^ 31) \<le> wrap32 x" "wrap32 x < 2 ^ 31"
  using signed_take_bit_int_greater_eq_minus_exp [of 31 x] signed_take_bit_int_less_exp [of 31 x]
  by (simp_all add: wrap32_def)

lemma wrap32_idem [simp]: "wrap32 (wrap32 x) = wrap32 x"
  by (simp add: wrap32_def)

text \<open>Go's integer division truncates towards zero.\<close>

definition go_div :: "int \<Rightarrow> int \<Rightarrow> int" where
  "go_div a b = sgn a * sgn b * (\<bar>a\<bar> div \<bar>b\<bar>)"

lemma go_div_nonneg [simp]: "0 \<le> a \<Longrightarrow> 0 < b \<Longrightarrow> go_div a b = a div b"
  by (cases "a = 0") (simp_all add: go_div_def)

section \<open>Time\<close>

text \<open>
  A \<open>time.Time\<close> is the number of nanoseconds since Go's zero time, so \<open>IsZero\<close> is \<open>t = 0\<close>;
  a \<open>time.Duration\<close> is a number of nanoseconds.  \<open>Time.Sub\<close> saturates at the limits of
  \<open>int64\<close>, which it does for the distance of today from the zero time.
\<close>

type_synonym time = int
type_synonym duration = int

abbreviation millisecond :: duration where "millisecond \<equiv> 1000000"
abbreviation second :: duration where "second \<equiv> 1000000000"

definition time_sub :: "time \<Rightarrow> time \<Rightarrow> duration" where
  "time_sub t u = max (- (2 ^ 63)) (min (2 ^ 63 - 1) (t - u))"

lemma time_sub_ge: "gap \<le> time_sub t u \<Longrightarrow> - (2 ^ 63) < gap \<Longrightarrow> gap \<le> t - u"
  by (simp add: time_sub_def)

lemma time_sub_ge_iff:
  "- (2 ^ 63) < gap \<Longrightarrow> gap < 2 ^ 63 \<Longrightarrow> gap \<le> time_sub t u \<longleftrightarrow> gap \<le> t - u"
  by (auto simp: time_sub_def)

lemma time_sub_less_iff:
  "- (2 ^ 63) < gap \<Longrightarrow> gap < 2 ^ 63 \<Longrightarrow> time_sub t u < gap \<longleftrightarrow> t - u < gap"
  by (auto simp: time_sub_def)

section \<open>Slices\<close>

text \<open>
  The slice expression \<open>xs[i:j]\<close>: \<open>None\<close> is the run-time panic.  (Go bounds \<open>j\<close> by the
  capacity; the sources only slice up to the length or panic by \<open>i > j\<close>.)
\<close>

definition go_slice :: "nat \<Rightarrow> nat \<Rightarrow> 'a list \<Rightarrow> 'a list option" where
  "go_slice i j xs = (if i \<le> j \<and> j \<le> length xs then Some (take (j - i) (drop i xs)) else None)"

lemma go_slice_append: "length xs = i \<Longrightarrow> length ys = j - i \<Longrightarrow> i \<le> j \<Longrightarrow>
    go_slice i j (xs @ ys @ zs) = Some ys"
  by (simp add: go_slice_def)

lemma go_slice_length: "go_slice i j xs = Some ys \<Longrightarrow> length ys = j - i"
  by (auto simp: go_slice_def split: if_splits)

section \<open>Machines that keep an invariant\<close>

text \<open>
  \<open>start\<close> says where a run begins, \<open>step e s\<close> is the state after the event \<open>e\<close>.  A run is the
  \<open>fold\<close> of the step over its events.
\<close>

locale invariant_system =
  fixes start :: "'s \<Rightarrow> bool"
    and step :: "'e \<Rightarrow> 's \<Rightarrow> 's"
    and inv :: "'s \<Rightarrow> bool"
  assumes inv_start: "start s \<Longrightarrow> inv s"
    and inv_step: "inv s \<Longrightarrow> inv (step e s)"
begin

lemma fold_inv: "inv s \<Longrightarrow> inv (fold step es s)"
  by (induction es arbitrary: s) (auto intro: inv_step)

lemma run_inv: "start s \<Longrightarrow> inv (fold step es s)"
  by (rule fold_inv) (rule inv_start)

lemma run_inv_prefix: "start s \<Longrightarrow> inv (fold step (take n es) s)"
  by (rule run_inv)

end

section \<open>Throttled operations\<close>

text \<open>
  \<open>firings\<close> lists the times at which a run of a machine acts; \<open>spaced gap\<close> says that each is
  at least \<open>gap\<close> after the one before it.
\<close>

fun firings :: "('e \<Rightarrow> 's \<Rightarrow> bool) \<Rightarrow> ('e \<Rightarrow> 's \<Rightarrow> 's) \<Rightarrow> ('e \<Rightarrow> time) \<Rightarrow> 's \<Rightarrow> 'e list \<Rightarrow> time list" where
  "firings fire step clock s [] = []"
| "firings fire step clock s (e # es) =
     (if fire e s then [clock e] else []) @ firings fire step clock (step e s) es"

fun spaced :: "duration \<Rightarrow> time list \<Rightarrow> bool" where
  "spaced gap (t # u # ts) = (gap \<le> u - t \<and> spaced gap (u # ts))"
| "spaced gap ts = True"

lemma spaced_tl: "spaced gap (t # ts) \<Longrightarrow> spaced gap ts"
  by (cases ts) auto

lemma spaced_nth:
  "spaced gap ts \<Longrightarrow> Suc i < length ts \<Longrightarrow> gap \<le> ts ! Suc i - ts ! i"
proof (induction ts arbitrary: i rule: spaced.induct)
  case (1 gap t u ts)
  then show ?case by (cases i) auto
qed auto

locale throttle =
  fixes fire :: "'e \<Rightarrow> 's \<Rightarrow> bool"
    and step :: "'e \<Rightarrow> 's \<Rightarrow> 's"
    and stamp :: "'s \<Rightarrow> time"
    and clock :: "'e \<Rightarrow> time"
    and gap :: duration
  assumes fire_gap: "fire e s \<Longrightarrow> gap \<le> clock e - stamp s"
    and fire_stamp: "fire e s \<Longrightarrow> stamp (step e s) = clock e"
    and idle_stamp: "\<not> fire e s \<Longrightarrow> stamp (step e s) = stamp s"
begin

lemma stamp_spaced: "spaced gap (stamp s # firings fire step clock s es)"
proof (induction es arbitrary: s)
  case Nil
  then show ?case by simp
next
  case (Cons e es)
  from Cons.IH [of "step e s"] show ?case
    by (cases "fire e s") (simp_all add: fire_gap fire_stamp idle_stamp)
qed

lemma firings_spaced: "spaced gap (firings fire step clock s es)"
  by (rule spaced_tl) (rule stamp_spaced)

lemma stamp_last:
  "stamp (fold step es s) = last (stamp s # firings fire step clock s es)"
  by (induction es arbitrary: s) (auto simp: fire_stamp idle_stamp)

end

section \<open>Lists and maps\<close>

lemma take_drop_split: "i \<le> j \<Longrightarrow> take j xs = take i xs @ take (j - i) (drop i xs)"
  by (metis le_add_diff_inverse take_add)

lemma map_of_upd_dom [simp]: "dom (m(k := None)) = dom m - {k}"
  by auto

lemma length_eq_Suc: "length xs = Suc n \<longleftrightarrow> (\<exists>y ys. xs = y # ys \<and> length ys = n)"
  by (cases xs) auto

lemma finite_Max_ge_fresh: "finite S \<Longrightarrow> Suc (Max (insert 0 S)) \<notin> S"
  by (metis Max.coboundedI Suc_n_not_le_n finite.insertI insertI2)

end
