(* ===== verification/GoBytes.thy ===== *)
theory GoBytes
  imports Prelude
begin

text \<open>
  The part of Go's \<open>encoding/binary\<close> and \<open>fmt\<close> that the gateway uses: big-endian integers in
  byte slices and lower-case hexadecimal.  The three widths are interpretations of one contract,
  \<open>byte_codec\<close>, from which come injectivity and the self-delimiting concatenation of fields.
\<close>

section \<open>The contract of a fixed-width codec\<close>

text \<open>
  \<open>put\<close> writes exactly \<open>width\<close> bytes; \<open>get\<close> reads the first \<open>width\<close> bytes of a slice and panics
  (\<open>None\<close>) on a shorter one; the two are inverse.
\<close>

locale byte_codec =
  fixes put :: "'a \<Rightarrow> bytes"
    and get :: "bytes \<Rightarrow> 'a option"
    and width :: nat
  assumes put_length [simp]: "length (put x) = width"
    and get_put: "get (put x) = Some x"
    and get_prefix: "width \<le> length bs \<Longrightarrow> get (bs @ r) = get bs"
    and get_total: "width \<le> length bs \<Longrightarrow> \<exists>x. get bs = Some x \<and> take width bs = put x"
    and get_short: "length bs < width \<Longrightarrow> get bs = None"
begin

lemma get_put_append: "get (put x @ r) = Some x"
  using get_prefix [of "put x" r] by (simp add: get_put)

lemma put_inject: "put x = put y \<longleftrightarrow> x = y"
  using get_put option.inject by metis

lemma put_append_inject: "put x @ r = put y @ s \<longleftrightarrow> x = y \<and> r = s"
  by (auto simp: put_inject append_eq_append_conv)

lemma get_None_iff: "get bs = None \<longleftrightarrow> length bs < width"
  using get_short get_total [of bs] by (cases "length bs < width") auto

lemma get_Some_put: "get bs = Some x \<Longrightarrow> bs = put x @ drop width bs"
  using get_total [of bs] get_None_iff [of bs]
  by (metis append_take_drop_id leI option.distinct(1) option.inject)

end

section \<open>Big-endian integers\<close>

definition put_u16 :: "u16 \<Rightarrow> bytes" where
  "put_u16 w = [ucast (drop_bit 8 w), ucast w]"

definition put_u32 :: "u32 \<Rightarrow> bytes" where
  "put_u32 w = [ucast (drop_bit 24 w), ucast (drop_bit 16 w), ucast (drop_bit 8 w), ucast w]"

definition put_u64 :: "u64 \<Rightarrow> bytes" where
  "put_u64 w =
     [ucast (drop_bit 56 w), ucast (drop_bit 48 w), ucast (drop_bit 40 w), ucast (drop_bit 32 w),
      ucast (drop_bit 24 w), ucast (drop_bit 16 w), ucast (drop_bit 8 w), ucast w]"

fun get_u16 :: "bytes \<Rightarrow> u16 option" where
  "get_u16 (a # b # _) = Some (push_bit 8 (ucast a) OR ucast b)"
| "get_u16 _ = None"

fun get_u32 :: "bytes \<Rightarrow> u32 option" where
  "get_u32 (a # b # c # d # _) =
     Some (push_bit 24 (ucast a) OR push_bit 16 (ucast b) OR push_bit 8 (ucast c) OR ucast d)"
| "get_u32 _ = None"

fun get_u64 :: "bytes \<Rightarrow> u64 option" where
  "get_u64 (a # b # c # d # e # f # g # h # _) =
     Some (push_bit 56 (ucast a) OR push_bit 48 (ucast b) OR push_bit 40 (ucast c)
        OR push_bit 32 (ucast d) OR push_bit 24 (ucast e) OR push_bit 16 (ucast f)
        OR push_bit 8 (ucast g) OR ucast h)"
| "get_u64 _ = None"

lemma bytes2_cases:
  "2 \<le> length (bs :: bytes) \<Longrightarrow> \<exists>a b r. bs = a # b # r"
  by (cases bs rule: get_u16.cases) auto

lemma bytes4_cases:
  "4 \<le> length (bs :: bytes) \<Longrightarrow> \<exists>a b c d r. bs = a # b # c # d # r"
  by (cases bs rule: get_u32.cases) auto

lemma bytes8_cases:
  "8 \<le> length (bs :: bytes) \<Longrightarrow> \<exists>a b c d e f g h r. bs = a # b # c # d # e # f # g # h # r"
  by (cases bs rule: get_u64.cases) auto

lemma get_u16_Some_iff: "get_u16 bs = None \<longleftrightarrow> length bs < 2"
  by (cases bs rule: get_u16.cases) auto

lemma get_u32_Some_iff: "get_u32 bs = None \<longleftrightarrow> length bs < 4"
  by (cases bs rule: get_u32.cases) auto

lemma get_u64_Some_iff: "get_u64 bs = None \<longleftrightarrow> length bs < 8"
  by (cases bs rule: get_u64.cases) auto

text \<open>The bytes of a word, and the word of its bytes.\<close>

lemma bit_byte_at:
  "bit (push_bit k (ucast (ucast (drop_bit k w) :: byte)) :: 'a::len word) n
     \<longleftrightarrow> k \<le> n \<and> n < k + 8 \<and> bit (w :: 'a word) n"
  by (auto simp: bit_simps dest: bit_imp_le_length)

lemma bit_byte_0:
  "bit (ucast (ucast w :: byte) :: 'a::len word) n \<longleftrightarrow> n < 8 \<and> bit (w :: 'a word) n"
  by (auto simp: bit_simps dest: bit_imp_le_length)

lemma split_u16: "push_bit 8 (ucast (ucast (drop_bit 8 w) :: byte)) OR ucast (ucast w :: byte) = (w :: u16)"
  (is "?l = _")
proof (rule bit_word_eqI)
  fix n assume "n < LENGTH(16)"
  then have "8 \<le> n \<and> n < 8 + 8 \<or> n < 8" by auto
  then show "bit ?l n = bit w n"
    unfolding bit_or_iff bit_byte_at bit_byte_0 by blast
qed

lemma split_u32:
  "push_bit 24 (ucast (ucast (drop_bit 24 w) :: byte)) OR push_bit 16 (ucast (ucast (drop_bit 16 w) :: byte))
   OR push_bit 8 (ucast (ucast (drop_bit 8 w) :: byte)) OR ucast (ucast w :: byte) = (w :: u32)"
  (is "?l = _")
proof (rule bit_word_eqI)
  fix n assume "n < LENGTH(32)"
  then have "24 \<le> n \<and> n < 24 + 8 \<or> 16 \<le> n \<and> n < 16 + 8 \<or> 8 \<le> n \<and> n < 8 + 8 \<or> n < 8"
    by (simp, arith)
  then show "bit ?l n = bit w n"
    unfolding bit_or_iff bit_byte_at bit_byte_0 by blast
qed

lemma split_u64:
  "push_bit 56 (ucast (ucast (drop_bit 56 w) :: byte)) OR push_bit 48 (ucast (ucast (drop_bit 48 w) :: byte))
   OR push_bit 40 (ucast (ucast (drop_bit 40 w) :: byte)) OR push_bit 32 (ucast (ucast (drop_bit 32 w) :: byte))
   OR push_bit 24 (ucast (ucast (drop_bit 24 w) :: byte)) OR push_bit 16 (ucast (ucast (drop_bit 16 w) :: byte))
   OR push_bit 8 (ucast (ucast (drop_bit 8 w) :: byte)) OR ucast (ucast w :: byte) = (w :: u64)"
  (is "?l = _")
proof (rule bit_word_eqI)
  fix n assume "n < LENGTH(64)"
  then have "56 \<le> n \<and> n < 56 + 8 \<or> 48 \<le> n \<and> n < 48 + 8 \<or> 40 \<le> n \<and> n < 40 + 8
    \<or> 32 \<le> n \<and> n < 32 + 8 \<or> 24 \<le> n \<and> n < 24 + 8 \<or> 16 \<le> n \<and> n < 16 + 8
    \<or> 8 \<le> n \<and> n < 8 + 8 \<or> n < 8"
    by (simp, arith)
  then show "bit ?l n = bit w n"
    unfolding bit_or_iff bit_byte_at bit_byte_0 by blast
qed

text \<open>A byte of a word built from bytes is one of them.\<close>

lemma join_u16:
  "put_u16 (push_bit 8 (ucast a) OR ucast b) = [a, b]"
  unfolding put_u16_def
  by (simp only: list.inject simp_thms, intro conjI; rule bit_word_eqI) (auto simp: bit_simps dest: bit_imp_le_length)

lemma join_u32:
  "put_u32 (push_bit 24 (ucast a) OR push_bit 16 (ucast b) OR push_bit 8 (ucast c) OR ucast d)
   = [a, b, c, d]"
  unfolding put_u32_def
  by (simp only: list.inject simp_thms, intro conjI; rule bit_word_eqI) (auto simp: bit_simps dest: bit_imp_le_length)

lemma join_u64:
  "put_u64 (push_bit 56 (ucast a) OR push_bit 48 (ucast b) OR push_bit 40 (ucast c)
     OR push_bit 32 (ucast d) OR push_bit 24 (ucast e) OR push_bit 16 (ucast f)
     OR push_bit 8 (ucast g) OR ucast h) = [a, b, c, d, e, f, g, h]"
  unfolding put_u64_def
  by (simp only: list.inject simp_thms, intro conjI; rule bit_word_eqI) (auto simp: bit_simps dest: bit_imp_le_length)

interpretation u16: byte_codec put_u16 get_u16 2
proof
  fix bs :: bytes assume "2 \<le> length bs"
  then obtain a b r where bs: "bs = a # b # r" using bytes2_cases by blast
  show "get_u16 (bs @ r') = get_u16 bs" for r' by (simp add: bs)
  show "\<exists>x. get_u16 bs = Some x \<and> take 2 bs = put_u16 x" by (simp add: bs join_u16)
qed (simp_all add: put_u16_def split_u16 get_u16_Some_iff)

interpretation u32: byte_codec put_u32 get_u32 4
proof
  fix bs :: bytes assume "4 \<le> length bs"
  then obtain a b c d r where bs: "bs = a # b # c # d # r" using bytes4_cases by blast
  show "get_u32 (bs @ r') = get_u32 bs" for r' by (simp add: bs)
  show "\<exists>x. get_u32 bs = Some x \<and> take 4 bs = put_u32 x" by (simp add: bs join_u32)
qed (simp_all add: put_u32_def split_u32 get_u32_Some_iff)

interpretation u64: byte_codec put_u64 get_u64 8
proof
  fix bs :: bytes assume "8 \<le> length bs"
  then obtain a b c d e f g h r where bs: "bs = a # b # c # d # e # f # g # h # r"
    using bytes8_cases by blast
  show "get_u64 (bs @ r') = get_u64 bs" for r' by (simp add: bs)
  show "\<exists>x. get_u64 bs = Some x \<and> take 8 bs = put_u64 x" by (simp add: bs join_u64)
qed (simp_all add: put_u64_def split_u64 get_u64_Some_iff)

lemmas be_roundtrip [codec] =
  u16.get_put_append u32.get_put_append u64.get_put_append u16.get_put u32.get_put u64.get_put

lemmas be_length [simp] = u16.put_length u32.put_length u64.put_length

section \<open>Bytes of a string, hexadecimal\<close>

text \<open>A Go string is its bytes: \<open>[]byte(s)\<close> and \<open>string(b)\<close> are inverse.\<close>

definition bytes_of :: "string \<Rightarrow> bytes" where
  "bytes_of s = map (\<lambda>c. of_nat (of_char c)) s"

definition string_of :: "bytes \<Rightarrow> string" where
  "string_of bs = map (\<lambda>b. char_of (unat b)) bs"

lemma unat_of_char_byte [simp]: "unat (of_nat (of_char c) :: byte) = of_char c"
  by (simp add: unat_of_nat take_bit_eq_mod)

lemma string_of_bytes_of [simp]: "string_of (bytes_of s) = s"
  by (simp add: string_of_def bytes_of_def comp_def)

lemma byte_char_byte [simp]: "of_nat (of_char (char_of (unat b) :: char)) = (b :: byte)"
proof -
  have "unat b < 256" using unsigned_less [of b] by simp
  then show ?thesis by simp
qed

lemma bytes_of_string_of [simp]: "bytes_of (string_of bs) = bs"
  by (simp add: string_of_def bytes_of_def comp_def del: of_char_of)

lemma length_bytes_of [simp]: "length (bytes_of s) = length s"
  by (simp add: bytes_of_def)

text \<open>The digit of a half byte, and \<open>%02x\<close> and \<open>%x\<close> of bytes.\<close>

definition hex_digit :: "nat \<Rightarrow> char" where
  "hex_digit n = (''0123456789abcdef'' ! n)"

definition hex2 :: "byte \<Rightarrow> string" where
  "hex2 b = [hex_digit (unat b div 16), hex_digit (unat b mod 16)]"

definition hex_bytes :: "bytes \<Rightarrow> string" where
  "hex_bytes bs = concat (map hex2 bs)"

text \<open>
  The value of a hexadecimal digit, either case, as \<open>strconv.ParseUint(_, 16, _)\<close> reads it.
\<close>

definition hex_val :: "char \<Rightarrow> nat option" where
  "hex_val c =
     (let n = of_char c :: nat in
      if 48 \<le> n \<and> n \<le> 57 then Some (n - 48)
      else if 97 \<le> n \<and> n \<le> 102 then Some (n - 87)
      else if 65 \<le> n \<and> n \<le> 70 then Some (n - 55)
      else None)"

fun hex_num :: "nat \<Rightarrow> string \<Rightarrow> nat option" where
  "hex_num acc [] = Some acc"
| "hex_num acc (c # cs) = (case hex_val c of None \<Rightarrow> None | Some d \<Rightarrow> hex_num (16 * acc + d) cs)"

lemma length_hex2 [simp]: "length (hex2 b) = 2"
  by (simp add: hex2_def)

lemma length_hex_bytes [simp]: "length (hex_bytes bs) = 2 * length bs"
  by (induction bs) (simp_all add: hex_bytes_def)

lemma hex_val_digit: "n < 16 \<Longrightarrow> hex_val (hex_digit n) = Some n"
proof -
  assume "n < 16"
  then have "n \<in> {0, 1, 2, 3, 4, 5, 6, 7, 8, 9, 10, 11, 12, 13, 14, 15}" by (simp, arith)
  then show ?thesis
    by (elim insertE) (simp_all add: hex_digit_def hex_val_def)
qed

lemma hex_num_hex2: "hex_num 0 (hex2 b) = Some (unat b)"
proof -
  have "unat b < 256" using unsigned_less [of b] by simp
  then have "unat b div 16 < 16" by simp
  then show ?thesis by (simp add: hex2_def hex_val_digit)
qed

lemma hex2_inject: "hex2 a = hex2 b \<longleftrightarrow> a = b"
proof
  assume "hex2 a = hex2 b"
  with hex_num_hex2 [of a] hex_num_hex2 [of b] show "a = b" by (simp add: word_unat_eq_iff)
qed simp

lemma hex_bytes_inject: "hex_bytes as = hex_bytes bs \<longleftrightarrow> as = bs"
proof
  assume "hex_bytes as = hex_bytes bs"
  then show "as = bs"
  proof (induction as arbitrary: bs)
    case Nil
    then show ?case by (cases bs) (auto simp: hex_bytes_def hex2_def)
  next
    case (Cons a as)
    then obtain b bs' where bs: "bs = b # bs'"
      by (cases bs) (auto simp: hex_bytes_def hex2_def)
    with Cons.prems have "hex2 a @ hex_bytes as = hex2 b @ hex_bytes bs'"
      by (simp add: hex_bytes_def)
    then have "hex2 a = hex2 b" "hex_bytes as = hex_bytes bs'"
      by (simp_all add: append_eq_append_conv)
    with bs Cons.IH show ?case by (simp add: hex2_inject)
  qed
qed simp

end
