(* ===== verification/Red.thy ===== *)
theory Red
  imports GoBytes GoStrings
begin

text \<open>
  The RED (RFC 2198) sender of \<open>agent/internal/webrtc/peer.go\<close>: an interceptor that wraps each
  outgoing H.264 packet together with a copy of the one before it.

  A writer further down the chain is outside: \<open>red_write\<close> returns the header and payload it passes
  on.  The other fields of an RTP header are copied and are not modelled.
\<close>

record rtp_header =
  rh_PayloadType :: byte
  rh_Timestamp :: u32

record red =
  rd_enabled :: bool
  rd_ready :: bool
  rd_prevPay :: "bytes option"
  rd_prevTS :: u32
  rd_primaryPT :: byte
  rd_redPT :: byte

definition newREDSenderInterceptor :: "byte \<Rightarrow> byte \<Rightarrow> red" where
  "newREDSenderInterceptor primaryPT redPT = \<lparr>
     rd_enabled = False, rd_ready = False, rd_prevPay = None, rd_prevTS = 0,
     rd_primaryPT = primaryPT, rd_redPT = redPT\<rparr>"

definition SetEnabled :: "bool \<Rightarrow> red \<Rightarrow> red" where
  "SetEnabled v r =
     (let r1 = r\<lparr>rd_enabled := v\<rparr> in if \<not> v then r1\<lparr>rd_prevPay := None\<rparr> else r1)"

definition SetPayloadTypes :: "byte \<Rightarrow> byte \<Rightarrow> red \<Rightarrow> red" where
  "SetPayloadTypes primaryPT redPT r =
     r\<lparr>rd_primaryPT := primaryPT, rd_redPT := redPT,
       rd_ready := (primaryPT \<noteq> 0 \<and> redPT \<noteq> 0)\<rparr>"

definition lower_char :: "char \<Rightarrow> char" where
  "lower_char c = (let n = of_char c :: nat in if 65 \<le> n \<and> n \<le> 90 then char_of (n + 32) else c)"

text \<open>Whether the stream is intercepted at all; audio passes unchanged.\<close>

definition red_binds :: "string \<Rightarrow> bool" where
  "red_binds mimeType = Contains (map lower_char mimeType) ''h264''"

definition buildREDPayload :: "byte \<Rightarrow> bytes \<Rightarrow> u32 \<Rightarrow> u32 \<Rightarrow> bytes \<Rightarrow> bytes" where
  "buildREDPayload primaryPT prevPay prevTS currTS primaryPay =
     (if prevPay = [] then (primaryPT AND 0x7F) # primaryPay
      else
        let diff = currTS - prevTS;
            tsOffset = (if diff > 0x3FFF then 0x3FFF else diff);
            len16 = of_nat (length prevPay) :: u16;
            prevLen = (if len16 > 0x3FF then 0x3FF else len16);
            b0 = 0x80 OR (primaryPT AND 0x7F);
            b1 = ucast (drop_bit 6 tsOffset AND 0xFF);
            b2 = ucast (push_bit 2 (tsOffset AND 0x3F)) OR (ucast (drop_bit 8 prevLen) AND 0x03);
            b3 = ucast (prevLen AND 0xFF);
            b4 = primaryPT AND 0x7F
        in [b0, b1, b2, b3, b4] @ take (unat prevLen) prevPay @ primaryPay)"

definition red_write :: "rtp_header \<times> bytes \<Rightarrow> red \<Rightarrow> (rtp_header \<times> bytes) \<times> red" where
  "red_write pkt r =
     (let (header, payload) = pkt
      in if \<not> rd_enabled r \<or> \<not> rd_ready r then ((header, payload), r)
         else
           let prevPay = rd_prevPay r; prevTS = rd_prevTS r;
               r1 = (if length payload \<le> 0x3FF
                     then r\<lparr>rd_prevPay := Some payload, rd_prevTS := rh_Timestamp header\<rparr>
                     else r\<lparr>rd_prevPay := None\<rparr>);
               redLen = (case prevPay of None \<Rightarrow> 1 + length payload
                                       | Some p \<Rightarrow> 5 + length p + length payload)
           in if redLen > 1400 then ((header, payload), r1)
              else ((header\<lparr>rh_PayloadType := rd_redPT r\<rparr>,
                     buildREDPayload (rd_primaryPT r) (case prevPay of None \<Rightarrow> [] | Some p \<Rightarrow> p)
                       prevTS (rh_Timestamp header) payload), r1))"

section \<open>The receiver's view\<close>

text \<open>
  RFC 2198, at most one redundant block: its payload type, time-stamp offset and data, then the
  primary payload type and data.
\<close>

record red_block =
  rb_pt :: byte
  rb_offset :: u32
  rb_data :: bytes

fun parse_red :: "bytes \<Rightarrow> (red_block option \<times> byte \<times> bytes) option" where
  "parse_red (b0 # r) =
     (if \<not> bit b0 7 then Some (None, b0, r)
      else case r of
        b1 # b2 # b3 # b4 # r' \<Rightarrow>
          (let off = push_bit 6 (ucast b1) OR ucast (drop_bit 2 b2);
               len = unat (push_bit 8 (ucast (b2 AND 0x03)) OR ucast b3 :: u16)
           in if bit b4 7 \<or> length r' < len then None
              else Some (Some \<lparr>rb_pt = b0 AND 0x7F, rb_offset = off, rb_data = take len r'\<rparr>,
                         b4, drop len r'))
      | _ \<Rightarrow> None)"
| "parse_red [] = None"

lemma pt_high_bit: "\<not> bit (pt AND 0x7F :: byte) 7"
  by (simp add: bit_simps)

lemma red_pt_bits: "bit (0x80 OR (pt AND 0x7F) :: byte) 7" "(0x80 OR (pt AND 0x7F)) AND 0x7F = (pt AND 0x7F :: byte)"
proof -
  show "bit (0x80 OR (pt AND 0x7F) :: byte) 7" by (simp add: bit_simps)
  have "(0x80 OR p) AND 0x7F = p AND (0x7F :: byte)" for p :: byte
    by (simp add: bit.conj_disj_distrib2)
  then show "(0x80 OR (pt AND 0x7F)) AND 0x7F = (pt AND 0x7F :: byte)" by (simp add: and.assoc)
qed

text \<open>The 14-bit offset and the 10-bit length survive the packing into three bytes.\<close>

lemma mask_bits:
  "bit (0x3F :: int) n \<longleftrightarrow> n < 6" "bit (0xFF :: int) n \<longleftrightarrow> n < 8" "bit (0x03 :: int) n \<longleftrightarrow> n < 2"
proof -
  have m: "(0x3F :: int) = mask 6" "(0xFF :: int) = mask 8" "(0x03 :: int) = mask 2"
    by (simp_all add: mask_eq_exp_minus_1)
  show "bit (0x3F :: int) n \<longleftrightarrow> n < 6" "bit (0xFF :: int) n \<longleftrightarrow> n < 8" "bit (0x03 :: int) n \<longleftrightarrow> n < 2"
    unfolding m by (auto simp: bit_simps)
qed

lemma bit_unat_less:
  assumes "unat w < 2 ^ k" "bit (w :: 'a::len word) n"
  shows "n < k"
proof (rule ccontr)
  assume "\<not> n < k"
  then have "unat w < 2 ^ n"
    using assms(1) by (meson leI less_le_trans one_le_numeral power_increasing)
  then have "unat w div 2 ^ n = 0" by simp
  moreover have "bit (unat w) n" using assms(2) by (simp add: bit_unsigned_iff bit_imp_le_length)
  ultimately show False by (simp add: bit_iff_odd)
qed

lemma small_bits:
  "w \<le> 0x3FFF \<Longrightarrow> bit (w :: u32) n \<Longrightarrow> n < 14" "v \<le> 0x3FF \<Longrightarrow> bit (v :: u16) n \<Longrightarrow> n < 10"
  using bit_unat_less [of w 14 n] bit_unat_less [of v 10 n]
  by (simp_all add: word_le_nat_alt)

lemma red_offset:
  fixes off :: u32 and c :: byte
  assumes "off \<le> 0x3FFF" "\<And>n. bit c n \<Longrightarrow> n < 2"
  shows "push_bit 6 (ucast (ucast (drop_bit 6 off AND 0xFF) :: byte))
     OR ucast (drop_bit 2 (ucast (push_bit 2 (off AND 0x3F)) OR c)) = off" (is "?l = _")
proof (rule bit_word_eqI)
  fix n assume "n < LENGTH(32)"
  have c: "\<not> bit c (Suc (Suc n))" using assms(2) by fastforce
  show "bit ?l n = bit off n"
    using small_bits(1) [OF assms(1), of n] c
    by (auto simp: bit_simps mask_bits)
qed

lemma red_length:
  fixes len :: u16 and c :: byte
  assumes "len \<le> 0x3FF" "\<And>n. bit c n \<Longrightarrow> 2 \<le> n"
  shows "push_bit 8 (ucast ((c OR (ucast (drop_bit 8 len) AND 0x03)) AND 0x03))
     OR ucast (ucast (len AND 0xFF) :: byte) = len" (is "?l = _")
proof (rule bit_word_eqI)
  fix n assume "n < LENGTH(16)"
  have c: "n - 8 < 2 \<Longrightarrow> \<not> bit c (n - 8)" using assms(2) by fastforce
  show "bit ?l n = bit len n"
    using small_bits(2) [OF assms(1), of n] c
    by (auto simp: bit_simps mask_bits)
qed


definition clamp_offset :: "u32 \<Rightarrow> u32" where
  "clamp_offset d = (if d > 0x3FFF then 0x3FFF else d)"

lemma parse_red_single: "parse_red (buildREDPayload pt [] ts ts' pay) = Some (None, pt AND 0x7F, pay)"
  by (simp add: buildREDPayload_def pt_high_bit)

lemma parse_red_double:
  assumes "prev \<noteq> []" "length prev \<le> 0x3FF"
  shows "parse_red (buildREDPayload pt prev ts ts' pay) =
    Some (Some \<lparr>rb_pt = pt AND 0x7F, rb_offset = clamp_offset (ts' - ts), rb_data = prev\<rparr>,
          pt AND 0x7F, pay)"
proof -
  define off where "off = clamp_offset (ts' - ts)"
  define len where "len = (of_nat (length prev) :: u16)"
  have ulen: "unat len = length prev"
    using assms(2) by (simp add: len_def unat_of_nat take_bit_eq_mod)
  then have len: "len \<le> 0x3FF" using assms(2) by (simp add: word_le_nat_alt)
  have off: "off \<le> 0x3FFF" by (auto simp: off_def clamp_offset_def not_less)
  define b1 b2 b3 :: byte where "b1 = ucast (drop_bit 6 off AND 0xFF)"
    and "b2 = ucast (push_bit 2 (off AND 0x3F)) OR (ucast (drop_bit 8 len) AND 0x03)"
    and "b3 = ucast (len AND 0xFF)"
  have build: "buildREDPayload pt prev ts ts' pay =
      [0x80 OR (pt AND 0x7F), b1, b2, b3, pt AND 0x7F] @ prev @ pay"
    using assms(1) len ulen
    by (auto simp: buildREDPayload_def Let_def b1_def b2_def b3_def off_def clamp_offset_def
        len_def [symmetric] not_less)
  have o: "push_bit 6 (ucast b1) OR ucast (drop_bit 2 b2) = off"
    unfolding b1_def b2_def by (rule red_offset [OF off]) (auto simp: bit_simps mask_bits)
  have l: "push_bit 8 (ucast (b2 AND 0x03)) OR ucast b3 = len"
    unfolding b2_def b3_def by (rule red_length [OF len]) (auto simp: bit_simps)
  show ?thesis
    unfolding build using red_pt_bits [of pt] pt_high_bit [of pt] ulen
    by (simp add: o l Let_def off_def)
qed

section \<open>Properties\<close>

text \<open>What can happen to the interceptor.\<close>

datatype red_op = OpEnable bool | OpTypes byte byte | OpWrite rtp_header bytes

fun red_step :: "red_op \<Rightarrow> red \<Rightarrow> red" where
  "red_step (OpEnable v) r = SetEnabled v r"
| "red_step (OpTypes p q) r = SetPayloadTypes p q r"
| "red_step (OpWrite h p) r = snd (red_write (h, p) r)"

definition red_inv :: "red \<Rightarrow> bool" where
  "red_inv r \<longleftrightarrow> (case rd_prevPay r of None \<Rightarrow> True | Some p \<Rightarrow> length p \<le> 0x3FF)"

interpretation red: invariant_system "\<lambda>r. \<exists>p q. r = newREDSenderInterceptor p q" red_step red_inv
proof
  show "red_inv r" if "\<exists>p q. r = newREDSenderInterceptor p q" for r
    using that by (auto simp: red_inv_def newREDSenderInterceptor_def)
  show "red_inv (red_step op r)" if "red_inv r" for op r
    using that by (cases op)
      (auto simp: red_inv_def SetEnabled_def SetPayloadTypes_def red_write_def Let_def)
qed

text \<open>
  The interceptor never corrupts a packet.  In every state it can reach, a packet leaves either
  unchanged or, with the negotiated RED payload type and at most 1400 bytes, as a RED packet whose
  primary block is the packet's own payload under the negotiated H.264 payload type.
\<close>

theorem red_transparent:
  "let r = fold red_step ops (newREDSenderInterceptor p q);
       (h', out) = fst (red_write (h, pay) r)
   in (h', out) = (h, pay)
    \<or> rh_PayloadType h' = rd_redPT r \<and> rh_Timestamp h' = rh_Timestamp h \<and> length out \<le> 1400
      \<and> (\<exists>block. parse_red out = Some (block, rd_primaryPT r AND 0x7F, pay))"
proof -
  let ?r = "fold red_step ops (newREDSenderInterceptor p q)"
  have inv: "red_inv ?r" by (rule red.run_inv) blast
  let ?prev = "case rd_prevPay ?r of None \<Rightarrow> [] | Some p \<Rightarrow> p"
  have prev: "length ?prev \<le> 0x3FF"
    using inv by (auto simp: red_inv_def split: option.splits)
  have parse: "\<exists>block. parse_red (buildREDPayload pt ?prev ts ts' pay) = Some (block, pt AND 0x7F, pay)"
    for pt ts ts'
    using parse_red_single parse_red_double [OF _ prev] by (cases "?prev = []") auto
  have len: "length (buildREDPayload pt ?prev ts ts' pay) \<le> (if ?prev = [] then 1 else 5) + length ?prev + length pay"
    for pt ts ts' by (auto simp: buildREDPayload_def Let_def)
  show ?thesis
  proof (cases "fst (red_write (h, pay) ?r) = (h, pay)")
    case False
    then have out: "fst (red_write (h, pay) ?r) = (h\<lparr>rh_PayloadType := rd_redPT ?r\<rparr>,
        buildREDPayload (rd_primaryPT ?r) ?prev (rd_prevTS ?r) (rh_Timestamp h) pay)"
      and small: "(case rd_prevPay ?r of None \<Rightarrow> 1 + length pay | Some p \<Rightarrow> 5 + length p + length pay) \<le> 1400"
      by (auto simp: red_write_def Let_def split: if_splits)
    have "length (buildREDPayload (rd_primaryPT ?r) ?prev (rd_prevTS ?r) (rh_Timestamp h) pay) \<le> 1400"
      using small len [of "rd_primaryPT ?r" "rd_prevTS ?r" "rh_Timestamp h"]
      by (auto split: option.splits if_splits intro: order_trans)
    with parse show ?thesis by (simp add: Let_def out)
  qed (simp add: Let_def)
qed

text \<open>
  C33. A lost packet can be rebuilt from the next one: after a packet of 1 to 1023 bytes, the next
  packet, if the two fit in 1400 bytes, carries a redundant block with exactly the first one's
  payload and the distance of the two time stamps (at most 14 bits).
\<close>

theorem red_recovers_previous:
  assumes "rd_enabled r" "rd_ready r" "p1 \<noteq> []" "length p1 \<le> 0x3FF" "5 + length p1 + length p2 \<le> 1400"
    and "rh_Timestamp h2 - rh_Timestamp h1 \<le> 0x3FFF"
  shows "parse_red (snd (fst (red_write (h2, p2) (snd (red_write (h1, p1) r))))) =
    Some (Some \<lparr>rb_pt = rd_primaryPT r AND 0x7F, rb_offset = rh_Timestamp h2 - rh_Timestamp h1,
                rb_data = p1\<rparr>, rd_primaryPT r AND 0x7F, p2)"
proof -
  let ?r1 = "snd (red_write (h1, p1) r)"
  have r1: "?r1 = r\<lparr>rd_prevPay := Some p1, rd_prevTS := rh_Timestamp h1\<rparr>"
    using assms by (simp add: red_write_def Let_def)
  have "snd (fst (red_write (h2, p2) ?r1))
      = buildREDPayload (rd_primaryPT r) p1 (rh_Timestamp h1) (rh_Timestamp h2) p2"
    using assms unfolding r1 by (simp add: red_write_def Let_def)
  moreover have "clamp_offset (rh_Timestamp h2 - rh_Timestamp h1) = rh_Timestamp h2 - rh_Timestamp h1"
    using assms(6) by (auto simp: clamp_offset_def dest: leD)
  ultimately show ?thesis using parse_red_double [OF assms(3,4)] by simp
qed

lemma red_recovers_previous_witness:
  "parse_red (snd (fst (red_write (\<lparr>rh_PayloadType = 102, rh_Timestamp = 3000\<rparr>, [4, 5, 6])
       (snd (red_write (\<lparr>rh_PayloadType = 102, rh_Timestamp = 0\<rparr>, [1, 2])
         ((newREDSenderInterceptor 102 116)\<lparr>rd_enabled := True, rd_ready := True\<rparr>))))))
   = Some (Some \<lparr>rb_pt = 102, rb_offset = 3000, rb_data = [1, 2]\<rparr>, 102, [4, 5, 6])"
  by (subst red_recovers_previous) (simp_all add: newREDSenderInterceptor_def)

end
