(* ===== verification/AnnexB.thy ===== *)
theory AnnexB
  imports GoBytes "HOL-Library.Sublist"
begin

text \<open>
  The H.264 part of \<open>agent/internal/gateway/protocol.go\<close>: start codes and NAL units of an Annex-B
  payload, the SPS and its profile-level-id.

  \<open>FindSPSInAnnexB\<close> loops over NAL units.  Its loop need not end: it is a partial function, whose
  value \<open>None\<close> says that the loop runs forever.
\<close>

section \<open>Start codes\<close>

text \<open>The first loop of \<open>FindStartCode\<close>: \<open>00 00 00 01\<close> at or after index \<open>i\<close>.\<close>

fun scan4 :: "nat \<Rightarrow> bytes \<Rightarrow> nat option" where
  "scan4 i (a # b # c # d # r) =
     (if a = 0 \<and> b = 0 \<and> c = 0 \<and> d = 1 then Some i else scan4 (Suc i) (b # c # d # r))"
| "scan4 i _ = None"

text \<open>
  The second loop: \<open>00 00 01\<close> at or after index \<open>i\<close>, skipped where the byte before it is \<open>00\<close>;
  \<open>prev\<close> is that byte, \<open>None\<close> at index 0.
\<close>

fun scan3 :: "nat \<Rightarrow> byte option \<Rightarrow> bytes \<Rightarrow> nat option" where
  "scan3 i prev (a # b # c # r) =
     (if a = 0 \<and> b = 0 \<and> c = 1 \<and> prev \<noteq> Some 0 then Some i
      else scan3 (Suc i) (Some a) (b # c # r))"
| "scan3 i prev _ = None"

definition FindStartCode :: "bytes \<Rightarrow> (nat \<times> nat) option" where
  "FindStartCode data =
     (case scan4 0 data of
        Some i \<Rightarrow> Some (i, 4)
      | None \<Rightarrow> (case scan3 0 None data of Some i \<Rightarrow> Some (i, 3) | None \<Rightarrow> None))"

lemma scan4_None: "scan4 i xs = None \<longleftrightarrow> \<not> sublist [0, 0, 0, 1] xs"
proof (induction i xs rule: scan4.induct)
  case (1 i a b c d r)
  then show ?case by (auto simp: sublist_Cons_right)
qed (simp_all add: sublist_Cons_right)

lemma scan4_Some:
  "scan4 i xs = Some j \<Longrightarrow>
     \<exists>ys zs. xs = ys @ [0, 0, 0, 1] @ zs \<and> j = i + length ys \<and> \<not> sublist [0, 0, 0, 1] (ys @ [0, 0, 0])"
proof (induction i xs rule: scan4.induct)
  case (1 i a b c d r)
  show ?case
  proof (cases "a = 0 \<and> b = 0 \<and> c = 0 \<and> d = 1")
    case True
    with 1 show ?thesis by (intro exI [of _ "[]"] exI [of _ r]) (simp add: sublist_Cons_right)
  next
    case False
    with 1 obtain ys zs where eq: "b # c # d # r = ys @ [0, 0, 0, 1] @ zs" "j = Suc i + length ys"
      and no: "\<not> sublist [0, 0, 0, 1] (ys @ [0, 0, 0])" by auto
    have "\<not> prefix [0, 0, 0, 1] (a # ys @ [0, 0, 0])"
      using eq(1) False by (cases ys; cases "tl ys"; cases "tl (tl ys)") auto
    with no have "\<not> sublist [0, 0, 0, 1] ((a # ys) @ [0, 0, 0])" by (simp add: sublist_Cons_right)
    with eq show ?thesis by (intro exI [of _ "a # ys"] exI [of _ zs]) simp
  qed
qed simp_all

lemma scan3_None:
  "\<not> sublist [0, 0, 0, 1] (case prev of None \<Rightarrow> xs | Some p \<Rightarrow> p # xs) \<Longrightarrow>
     scan3 i prev xs = None \<longleftrightarrow> \<not> sublist [0, 0, 1] xs"
proof (induction i prev xs rule: scan3.induct)
  case (1 i prev a b c r)
  have "\<not> sublist [0, 0, 0, 1] (a # b # c # r)"
    using "1.prems" by (auto simp: sublist_Cons_right split: option.splits)
  then have IH: "scan3 (Suc i) (Some a) (b # c # r) = None \<longleftrightarrow> \<not> sublist [0, 0, 1] (b # c # r)"
    if "\<not> (a = 0 \<and> b = 0 \<and> c = 1 \<and> prev \<noteq> Some 0)" using that by (intro "1.IH") simp_all
  have "prev \<noteq> Some 0" if "a = 0 \<and> b = 0 \<and> c = 1"
    using that "1.prems" by (auto simp: sublist_Cons_right)
  with IH show ?case by (auto simp: sublist_Cons_right)
qed (simp_all add: sublist_Cons_right)

lemma scan3_Some:
  "scan3 i prev xs = Some j \<Longrightarrow> \<exists>ys zs. xs = ys @ [0, 0, 1] @ zs \<and> j = i + length ys"
proof (induction i prev xs rule: scan3.induct)
  case (1 i prev a b c r)
  show ?case
  proof (cases "a = 0 \<and> b = 0 \<and> c = 1 \<and> prev \<noteq> Some 0")
    case True
    with 1 show ?thesis by (intro exI [of _ "[]"] exI [of _ r]) simp
  next
    case False
    with 1 obtain ys zs where "b # c # r = ys @ [0, 0, 1] @ zs" "j = Suc i + length ys" by auto
    then show ?thesis by (intro exI [of _ "a # ys"] exI [of _ zs]) simp
  qed
qed simp_all

lemma FindStartCode_None: "FindStartCode xs = None \<longleftrightarrow> \<not> sublist [0, 0, 1] xs"
proof (cases "scan4 0 xs")
  case None
  then have "\<not> sublist [0, 0, 0, 1] xs" by (simp add: scan4_None)
  with scan3_None [where prev = None and i = 0 and xs = xs] None show ?thesis
    by (cases "scan3 0 None xs") (simp_all add: FindStartCode_def)
next
  case (Some j)
  then obtain ys zs where "xs = (ys @ [0]) @ [0, 0, 1] @ zs"
    using scan4_Some by fastforce
  then have "sublist [0, 0, 1] xs" by (metis sublist_appendI)
  with Some show ?thesis by (simp add: FindStartCode_def)
qed

lemma FindStartCode_Some:
  assumes "FindStartCode xs = Some (p, l)"
  obtains ys zs where "l = 4" "xs = ys @ [0, 0, 0, 1] @ zs" "p = length ys"
      "\<not> sublist [0, 0, 0, 1] (ys @ [0, 0, 0])"
  | ys zs where "l = 3" "xs = ys @ [0, 0, 1] @ zs" "p = length ys" "\<not> sublist [0, 0, 0, 1] xs"
proof (cases "scan4 0 xs")
  case None
  then have "scan3 0 None xs = Some p" "l = 3"
    using assms by (auto simp: FindStartCode_def split: option.splits)
  with scan3_Some [of 0 None xs p] None that(2) show ?thesis by (auto simp: scan4_None)
next
  case (Some j)
  then have "l = 4" "scan4 0 xs = Some p" using assms by (auto simp: FindStartCode_def)
  with scan4_Some [of 0 xs p] that(1) show ?thesis by auto
qed

lemma FindStartCode_4: "FindStartCode (0 # 0 # 0 # 1 # zs) = Some (0, 4)"
  by (simp add: FindStartCode_def)

text \<open>Two occurrences of a pattern in the same list, seen from the later one.\<close>

lemma earlier_occurrence:
  assumes "xs @ (q @ [x]) @ zs = ys @ (q @ [x]) @ zs'" "length ys < length xs"
  shows "sublist (q @ [x]) (xs @ q)"
proof -
  have "prefix (ys @ q @ [x]) (ys @ (q @ [x]) @ zs')" by simp
  moreover have "prefix (xs @ q) (ys @ (q @ [x]) @ zs')"
    unfolding assms(1) [symmetric] by simp
  ultimately have "prefix (ys @ q @ [x]) (xs @ q)"
  proof (rule prefix_length_prefix)
    show "length (ys @ q @ [x]) \<le> length (xs @ q)" using assms(2) by simp
  qed
  then obtain ws where "xs @ q = ys @ (q @ [x]) @ ws" by (auto simp: prefix_def)
  then show ?thesis by (simp only: sublist_appendI)
qed

lemma scan4_first:
  assumes "\<not> sublist [0, 0, 0, 1] (xs @ [0, 0, 0])"
  shows "scan4 0 (xs @ [0, 0, 0, 1] @ zs) = Some (length xs)"
proof -
  let ?r = "xs @ [0, 0, 0, 1] @ zs"
  have "sublist [0, 0, 0, 1] ?r" by (rule sublist_appendI)
  then have "scan4 0 ?r \<noteq> None" by (simp only: scan4_None not_not)
  then obtain j where j: "scan4 0 ?r = Some j" by blast
  from scan4_Some [OF this] obtain ys zs' where eq: "?r = ys @ [0, 0, 0, 1] @ zs'" "j = length ys"
      "\<not> sublist [0, 0, 0, 1] (ys @ [0, 0, 0])" by auto
  have "\<not> length ys < length xs"
    using earlier_occurrence [of xs "[0, 0, 0]" 1 zs ys zs'] assms eq(1)
    by (simp only: append.simps) blast
  moreover have "\<not> length xs < length ys"
    using earlier_occurrence [of ys "[0, 0, 0]" 1 zs' xs zs] eq(3) eq(1) [symmetric]
    by (simp only: append.simps) blast
  ultimately show ?thesis using j eq(2) by simp
qed

section \<open>The SPS\<close>

definition nal_type :: "byte \<Rightarrow> byte" where
  "nal_type b = b AND 0x1F"

text \<open>A NAL unit whose type is 7: the test of the code, with its length guard.\<close>

definition is_sps :: "bytes \<Rightarrow> bool" where
  "is_sps nal \<longleftrightarrow> nal \<noteq> [] \<and> nal_type (hd nal) = 7"

text \<open>
  The tail of the loop body: the slice \<open>remaining\<close> starts at the start code just found, and the
  code skips it when it begins \<open>00 00 01\<close> (four bytes when the next byte is 1).
\<close>

definition skip_start_code :: "bytes \<Rightarrow> bytes" where
  "skip_start_code r =
     (if 3 \<le> length r \<and> r ! 0 = 0 \<and> r ! 1 = 0 \<and> r ! 2 = 1
      then (if 4 \<le> length r \<and> r ! 3 = 1 then drop 4 r else drop 3 r)
      else r)"

partial_function (option) sps_loop :: "bytes \<Rightarrow> bytes option option" where
  "sps_loop remaining =
     (case FindStartCode remaining of
        None \<Rightarrow> Some (if is_sps remaining then Some remaining else None)
      | Some (nextPos, _) \<Rightarrow>
          (let nal = take nextPos remaining
           in if is_sps nal then Some (Some nal)
              else sps_loop (skip_start_code (drop nextPos remaining))))"

definition FindSPSInAnnexB :: "bytes \<Rightarrow> bytes option option" where
  "FindSPSInAnnexB payload =
     (case FindStartCode payload of
        None \<Rightarrow> Some None
      | Some (pos, len) \<Rightarrow> sps_loop (drop (pos + len) payload))"

text \<open>A slice that begins with a four-byte start code is never left by the loop.\<close>

lemma sps_loop_stuck: "sps_loop (0 # 0 # 0 # 1 # zs) = None"
proof -
  have "\<forall>zs. remaining \<noteq> 0 # 0 # 0 # 1 # zs" if ret: "sps_loop remaining = Some y" for remaining y
  proof (rule sps_loop.raw_induct [where P = "\<lambda>r y. \<forall>zs. r \<noteq> 0 # 0 # 0 # 1 # zs", OF _ ret])
    fix f r y
    assume IH: "\<And>r y. f r = Some y \<Longrightarrow> \<forall>zs. r \<noteq> 0 # 0 # 0 # 1 # zs"
      and eq: "(case FindStartCode r of
        None \<Rightarrow> Some (if is_sps r then Some r else None)
      | Some (nextPos, _) \<Rightarrow>
          (let nal = take nextPos r
           in if is_sps nal then Some (Some nal)
              else f (skip_start_code (drop nextPos r)))) = Some y"
    show "\<forall>zs. r \<noteq> 0 # 0 # 0 # 1 # zs"
    proof (intro allI notI)
      fix zs assume r: "r = 0 # 0 # 0 # 1 # zs"
      have "skip_start_code r = r" by (simp add: r skip_start_code_def)
      with eq have "f r = Some y" by (simp add: r FindStartCode_4 is_sps_def)
      with IH r show False by blast
    qed
  qed
  then show ?thesis by (cases "sps_loop (0 # 0 # 0 # 1 # zs)") auto
qed

lemma sps_loop_diverges:
  assumes "\<not> sublist [0, 0, 0, 1] (nal @ [0, 0, 0])" "\<not> is_sps nal"
  shows "sps_loop (nal @ [0, 0, 0, 1] @ zs) = None"
proof -
  have "FindStartCode (nal @ [0, 0, 0, 1] @ zs) = Some (length nal, 4)"
    using scan4_first [OF assms(1)] by (simp add: FindStartCode_def)
  moreover have "skip_start_code (0 # 0 # 0 # 1 # zs) = 0 # 0 # 0 # 1 # zs"
    by (simp add: skip_start_code_def)
  ultimately show ?thesis
    using assms(2) sps_loop_stuck [of zs] by (subst sps_loop.simps) simp
qed

text \<open>Without a four-byte start code after the first one, the loop ends.\<close>

lemma sublist_drop_trans: "sublist p (drop n xs) \<Longrightarrow> sublist p xs"
  by (rule sublist_order.order_trans [OF _ sublist_drop])

lemma skip_start_code_drop: "\<exists>n. skip_start_code r = drop n r"
  unfolding skip_start_code_def by (metis drop0)

lemma sps_loop_returns: "\<not> sublist [0, 0, 0, 1] r \<Longrightarrow> \<exists>y. sps_loop r = Some y"
proof (induction r rule: length_induct)
  case (1 r)
  show ?case
  proof (cases "FindStartCode r")
    case None
    then show ?thesis by (subst sps_loop.simps) simp
  next
    case (Some pl)
    then obtain p l where pl: "FindStartCode r = Some (p, l)" by (cases pl) simp
    obtain ys zs where r: "r = ys @ [0, 0, 1] @ zs" "p = length ys"
      using pl
    proof (cases rule: FindStartCode_Some)
      case (1 ys zs)
      have "sublist [0, 0, 0, 1] r" unfolding 1(2) by (rule sublist_appendI)
      with "1.prems" show ?thesis by simp
    qed (rule that)
    let ?next = "skip_start_code (drop p r)"
    have "length ?next < length r" by (auto simp: r skip_start_code_def)
    moreover have "\<not> sublist [0, 0, 0, 1] ?next"
      using "1.prems" skip_start_code_drop [of "drop p r"] sublist_drop_trans by metis
    ultimately obtain y where "sps_loop ?next = Some y" using "1.IH" by blast
    then show ?thesis by (subst sps_loop.simps) (simp add: pl Let_def)
  qed
qed

text \<open>Whatever the loop returns is an SPS of its input.\<close>

lemma sps_loop_sound:
  assumes ret: "sps_loop r = Some (Some nal)"
  shows "is_sps nal \<and> sublist nal r"
proof -
  have "\<forall>nal. y = Some nal \<longrightarrow> is_sps nal \<and> sublist nal r" if "sps_loop r = Some y" for r y
  proof (rule sps_loop.raw_induct [where P = "\<lambda>r y. \<forall>nal. y = Some nal \<longrightarrow> is_sps nal \<and> sublist nal r", OF _ that])
    fix f r y
    assume IH: "\<And>r y. f r = Some y \<Longrightarrow> \<forall>nal. y = Some nal \<longrightarrow> is_sps nal \<and> sublist nal r"
      and eq: "(case FindStartCode r of
        None \<Rightarrow> Some (if is_sps r then Some r else None)
      | Some (nextPos, _) \<Rightarrow>
          (let nal = take nextPos r
           in if is_sps nal then Some (Some nal)
              else f (skip_start_code (drop nextPos r)))) = Some y"
    show "\<forall>nal. y = Some nal \<longrightarrow> is_sps nal \<and> sublist nal r"
    proof (cases "FindStartCode r")
      case None
      with eq show ?thesis by (auto split: if_splits)
    next
      case (Some pl)
      then obtain p l where pl: "FindStartCode r = Some (p, l)" by (cases pl) simp
      show ?thesis
      proof (cases "is_sps (take p r)")
        case True
        with eq pl show ?thesis
          by (auto intro: prefix_imp_sublist take_is_prefix)
      next
        case False
        with eq pl have "f (skip_start_code (drop p r)) = Some y" by simp
        with IH [OF this] show ?thesis
          using skip_start_code_drop [of "drop p r"] by (metis sublist_drop_trans sublist_order.order_trans)
      qed
    qed
  qed
  with ret show ?thesis by blast
qed

lemma FindSPSInAnnexB_sound:
  "FindSPSInAnnexB payload = Some (Some nal) \<Longrightarrow> is_sps nal \<and> sublist nal payload"
  by (auto simp: FindSPSInAnnexB_def split: option.splits dest!: sps_loop_sound
      intro: sublist_drop_trans)

section \<open>profile-level-id\<close>

text \<open>\<open>None\<close> is the error \<open>sps too short\<close>.\<close>

definition ExtractProfileLevelID :: "bytes \<Rightarrow> string option" where
  "ExtractProfileLevelID sps =
     (if length sps < 4 then None
      else Some (hex2 (sps ! 1) @ hex2 (sps ! 2) @ hex2 (sps ! 3)))"

text \<open>The error of \<open>ParseUint\<close> is ignored: it leaves the value 0.\<close>

definition parse_hex_or_0 :: "string \<Rightarrow> nat" where
  "parse_hex_or_0 s = (case hex_num 0 s of Some n \<Rightarrow> n | None \<Rightarrow> 0)"

definition NormalizeProfileLevelID :: "string \<Rightarrow> string" where
  "NormalizeProfileLevelID plid =
     (if length plid \<noteq> 6 then plid
      else let profileIDC = parse_hex_or_0 (take 2 plid); levelStr = drop 4 plid
           in if profileIDC = 66 then ''42e0'' @ levelStr
              else if profileIDC = 77 then ''4d00'' @ levelStr
              else if profileIDC = 100 then ''6400'' @ levelStr
              else if profileIDC = 244 then ''f400'' @ levelStr
              else take 2 plid @ ''00'' @ levelStr)"

text \<open>The AVCC attempt: a four-byte length, then a NAL unit of that length.\<close>

definition avcc_plid :: "bytes \<Rightarrow> string" where
  "avcc_plid payload =
     (if 8 \<le> length payload then
        (let spsLen = unat (the (get_u32 (take 4 payload)))
         in if 0 < spsLen \<and> spsLen \<le> length payload - 4 then
              (let sps = take spsLen (drop 4 payload)
               in if is_sps sps then
                    (case ExtractProfileLevelID sps of Some plid \<Rightarrow> plid | None \<Rightarrow> '''')
                  else '''')
            else '''')
      else '''')"

text \<open>The bare-NALU attempt, then AVCC: what follows when Annex-B gave nothing.\<close>

definition bare_plid :: "bytes \<Rightarrow> string" where
  "bare_plid payload =
     (case (if nal_type (hd payload) = 7 then ExtractProfileLevelID payload else None) of
        Some plid \<Rightarrow> plid
      | None \<Rightarrow> avcc_plid payload)"

definition tryExtractProfileLevelID :: "bytes \<Rightarrow> string option" where
  "tryExtractProfileLevelID payload =
     (if payload = [] then Some ''''
      else case FindSPSInAnnexB payload of
             None \<Rightarrow> None
           | Some None \<Rightarrow> Some (bare_plid payload)
           | Some (Some sps) \<Rightarrow>
               (case ExtractProfileLevelID sps of
                  Some plid \<Rightarrow> Some plid
                | None \<Rightarrow> Some (bare_plid payload)))"

lemma Extract_length: "ExtractProfileLevelID sps = Some plid \<Longrightarrow> length plid = 6"
  by (auto simp: ExtractProfileLevelID_def split: if_splits)

lemma tryExtract_length:
  "tryExtractProfileLevelID payload = Some plid \<Longrightarrow> plid = '''' \<or> length plid = 6"
  by (auto simp: tryExtractProfileLevelID_def bare_plid_def avcc_plid_def Let_def
      dest: Extract_length split: if_splits option.splits)

lemma parse_hex2 [simp]: "parse_hex_or_0 (hex2 b) = unat b"
  by (simp add: parse_hex_or_0_def hex_num_hex2)

lemma parse_hex_const [simp]:
  "parse_hex_or_0 ''42'' = 66" "parse_hex_or_0 ''4d'' = 77"
  "parse_hex_or_0 ''64'' = 100" "parse_hex_or_0 ''f4'' = 244"
  by (simp_all add: parse_hex_or_0_def hex_val_def)

lemma Normalize_length: "length plid = 6 \<Longrightarrow> length (NormalizeProfileLevelID plid) = 6"
  by (auto simp: NormalizeProfileLevelID_def Let_def)

lemma Normalize_level: "drop 4 (NormalizeProfileLevelID plid) = drop 4 plid"
  by (auto simp: NormalizeProfileLevelID_def Let_def)

section \<open>Properties\<close>

text \<open>
  \<open>FindStartCode\<close> finds a start code exactly when the bytes hold one (a four-byte code
  contains a three-byte one), and reports where it stands and its length; a four-byte code is
  preferred and is then the first one.
\<close>

theorem FindStartCode_correct:
  "case FindStartCode data of
     None \<Rightarrow> \<not> sublist [0, 0, 1] data
   | Some (pos, len) \<Rightarrow>
       (if sublist [0, 0, 0, 1] data
        then len = 4 \<and> take 4 (drop pos data) = [0, 0, 0, 1]
             \<and> \<not> sublist [0, 0, 0, 1] (take (pos + 3) data)
        else len = 3 \<and> take 3 (drop pos data) = [0, 0, 1])"
proof (cases "FindStartCode data")
  case None
  then show ?thesis by (simp add: None iffD1 [OF FindStartCode_None None])
next
  case (Some pl)
  then obtain p l where pl: "FindStartCode data = Some (p, l)" by (cases pl) simp
  then show ?thesis
  proof (cases rule: FindStartCode_Some)
    case (1 ys zs)
    have "sublist [0, 0, 0, 1] data" unfolding 1(2) by (rule sublist_appendI)
    with 1 pl show ?thesis by simp
  next
    case (2 ys zs)
    with pl show ?thesis by simp
  qed
qed

text \<open>
  C21. The SPS search of a config packet never ends when a NAL unit that is not an SPS (an access
  unit delimiter, an SEI) comes first and a four-byte start code follows it: the code fails to
  step over \<open>00 00 00 01\<close>.  \<open>tryExtractProfileLevelID\<close>, and with it the video forwarder, hangs.
\<close>

theorem tryExtract_hangs:
  assumes "\<not> sublist [0, 0, 0, 1] (nal @ [0, 0, 0])" "\<not> is_sps nal"
  shows "tryExtractProfileLevelID ([0, 0, 0, 1] @ nal @ [0, 0, 0, 1] @ rest) = None"
  using sps_loop_diverges [OF assms, of rest]
  by (simp add: tryExtractProfileLevelID_def FindSPSInAnnexB_def FindStartCode_4)

theorem tryExtract_hangs_witness:
  "tryExtractProfileLevelID
     ([0, 0, 0, 1] @ [0x09, 0xF0] @ [0, 0, 0, 1] @ [0x67, 0x42, 0xC0, 0x1F]) = None"
  by (rule tryExtract_hangs) (simp_all add: sublist_Cons_right is_sps_def nal_type_def)

text \<open>
  On the config packet scrcpy normally sends, a start code followed by the SPS, the search
  returns: the extracted profile-level-id is the three bytes after the NAL header of that SPS.
\<close>

theorem tryExtract_first_sps:
  assumes "is_sps sps" "4 \<le> length sps" "\<not> sublist [0, 0, 0, 1] (sps @ [0, 0, 0])"
  shows "tryExtractProfileLevelID ([0, 0, 0, 1] @ sps @ [0, 0, 0, 1] @ pps)
         = Some (hex2 (sps ! 1) @ hex2 (sps ! 2) @ hex2 (sps ! 3))"
proof -
  have "sps_loop (sps @ [0, 0, 0, 1] @ pps) = Some (Some sps)"
    using scan4_first [OF assms(3), of pps] assms(1)
    by (subst sps_loop.simps) (simp add: FindStartCode_def)
  with assms(2) show ?thesis
    by (simp add: tryExtractProfileLevelID_def FindSPSInAnnexB_def FindStartCode_4
        ExtractProfileLevelID_def)
qed

theorem tryExtract_first_sps_witness:
  "tryExtractProfileLevelID
     ([0, 0, 0, 1] @ [0x67, 0x42, 0xC0, 0x1F, 0xAC] @ [0, 0, 0, 1] @ [0x68, 0xCE]) = Some ''42c01f''"
  by (subst tryExtract_first_sps)
    (simp_all add: sublist_Cons_right is_sps_def nal_type_def hex2_def hex_digit_def)

text \<open>
  Normalising a profile-level-id keeps its length and level, is idempotent, and maps every
  Baseline, Main, High and High 4:4:4 SPS to the one constraint byte browsers offer.
\<close>

theorem NormalizeProfileLevelID_spec:
  "NormalizeProfileLevelID (hex2 p @ hex2 c @ hex2 l) =
     (if p = 66 then ''42e0'' else hex2 p @ ''00'') @ hex2 l
   \<and> NormalizeProfileLevelID (NormalizeProfileLevelID plid) = NormalizeProfileLevelID plid"
proof
  have p: "p = 77 \<Longrightarrow> hex2 p = ''4d''" "p = 100 \<Longrightarrow> hex2 p = ''64''" "p = 244 \<Longrightarrow> hex2 p = ''f4''"
    by (simp_all add: hex2_def hex_digit_def)
  have u: "unat p = 66 \<longleftrightarrow> p = 66" "unat p = 77 \<longleftrightarrow> p = 77" "unat p = 100 \<longleftrightarrow> p = 100"
    "unat p = 244 \<longleftrightarrow> p = 244"
    by (auto simp: word_unat_eq_iff)
  show "NormalizeProfileLevelID (hex2 p @ hex2 c @ hex2 l) =
     (if p = 66 then ''42e0'' else hex2 p @ ''00'') @ hex2 l"
    using p by (auto simp: NormalizeProfileLevelID_def Let_def u)
  show "NormalizeProfileLevelID (NormalizeProfileLevelID plid) = NormalizeProfileLevelID plid"
    by (auto simp: NormalizeProfileLevelID_def Let_def)
qed

end
