(* ===== verification/Sdp.thy ===== *)
theory Sdp
  imports Red AnnexB
begin

text \<open>
  The SDP helpers of \<open>agent/internal/webrtc/peer.go\<close>: reading the negotiated payload types and
  header extensions out of an answer, and writing the \<open>fmtp\<close> line of RED into the copy that goes to
  the browser.  An SDP is ASCII text; its lines end with a carriage return and a line feed.
\<close>

section \<open>Splitting and replacing\<close>

text \<open>\<open>strings.Cut\<close>: the text before and after the first occurrence.\<close>

fun cut :: "string \<Rightarrow> string \<Rightarrow> (string \<times> string) option" where
  "cut p [] = (if p = [] then Some ([], []) else None)"
| "cut p (c # s) =
     (if prefix p (c # s) then Some ([], drop (length p) (c # s))
      else map_option (\<lambda>(a, b). (c # a, b)) (cut p s))"

text \<open>\<open>strings.SplitN(s, p, 2)\<close>, and its first part.\<close>

definition split2 :: "string \<Rightarrow> string \<Rightarrow> string list" where
  "split2 p s = (case cut p s of None \<Rightarrow> [s] | Some (a, b) \<Rightarrow> [a, b])"

definition before :: "string \<Rightarrow> string \<Rightarrow> string" where
  "before p s = hd (split2 p s)"

text \<open>\<open>strings.Replace(s, p, q, 1)\<close>.\<close>

definition replace1 :: "string \<Rightarrow> string \<Rightarrow> string \<Rightarrow> string" where
  "replace1 p q s = (case cut p s of None \<Rightarrow> s | Some (a, b) \<Rightarrow> a @ q @ b)"

definition crlf :: string where "crlf = [CHR 0x0D, CHR 0x0A]"

lemma cut_length: "cut p s = Some (a, b) \<Longrightarrow> length s = length a + length p + length b"
proof (induction p s arbitrary: a b rule: cut.induct)
  case (2 p c s)
  then show ?case by (auto split: if_splits dest: prefix_length_le)
qed (auto split: if_splits)

lemma cut_Some: "cut p s = Some (a, b) \<Longrightarrow> s = a @ p @ b"
proof (induction p s arbitrary: a b rule: cut.induct)
  case (2 p c s)
  then show ?case by (auto split: if_splits simp: prefix_def)
qed (auto split: if_splits)

lemma cut_None: "cut p s = None \<longleftrightarrow> \<not> Contains s p"
  by (induction p s rule: cut.induct) auto

text \<open>\<open>strings.Split(s, "\\r\\n")\<close>.\<close>

function split_lines :: "string \<Rightarrow> string list" where
  "split_lines s = (case cut crlf s of None \<Rightarrow> [s] | Some (a, b) \<Rightarrow> a # split_lines b)"
  by pat_completeness auto
termination
  by (relation "measure length") (auto dest: cut_length simp: crlf_def)

declare split_lines.simps [simp del]

definition TrimPrefix :: "string \<Rightarrow> string \<Rightarrow> string" where
  "TrimPrefix s p = (if prefix p s then drop (length p) s else s)"

definition EqualFold :: "string \<Rightarrow> string \<Rightarrow> bool" where
  "EqualFold s t \<longleftrightarrow> map lower_char s = map lower_char t"

section \<open>Negotiated payload types\<close>

text \<open>One \<open>rtpmap\<close> line: the payload type, when the line is for the codec and its number is valid.\<close>

definition rtpmap_pt :: "string \<Rightarrow> string \<Rightarrow> byte option" where
  "rtpmap_pt codec line =
     (case split2 '' '' (TrimPrefix line ''a=rtpmap:'') of
        [num, info] \<Rightarrow>
          if EqualFold (before ''/'' info) codec then
            (case ParseInt num of
               Some n \<Rightarrow> if 0 < n \<and> n \<le> 127 then Some (word_of_int n) else None
             | None \<Rightarrow> None)
          else None
      | _ \<Rightarrow> None)"

fun scan_pt :: "string \<Rightarrow> bool \<Rightarrow> string list \<Rightarrow> byte" where
  "scan_pt codec inVideo [] = 0"
| "scan_pt codec inVideo (line # ls) =
     (if HasPrefix line ''m='' then scan_pt codec (HasPrefix line ''m=video'') ls
      else if \<not> inVideo \<or> \<not> HasPrefix line ''a=rtpmap:'' then scan_pt codec inVideo ls
      else case rtpmap_pt codec line of
             Some n \<Rightarrow> n
           | None \<Rightarrow> scan_pt codec inVideo ls)"

definition extractNegotiatedPT :: "string \<Rightarrow> string \<Rightarrow> byte" where
  "extractNegotiatedPT sdp codec = scan_pt codec False (split_lines sdp)"

section \<open>The RED format line\<close>

definition show_pt :: "byte \<Rightarrow> string" where
  "show_pt n = show_nat (unat n)"

definition fmtp_start :: "byte \<Rightarrow> string" where
  "fmtp_start redPT = ''a=fmtp:'' @ show_pt redPT @ '' ''"

definition red_fmtp :: "byte \<Rightarrow> byte \<Rightarrow> string" where
  "red_fmtp redPT h264PT = fmtp_start redPT @ show_pt h264PT @ ''/'' @ show_pt h264PT"

definition red_rtpmap :: "byte \<Rightarrow> string" where
  "red_rtpmap redPT = ''a=rtpmap:'' @ show_pt redPT @ '' red/90000''"

definition rewriteREDFmtp :: "string \<Rightarrow> byte \<Rightarrow> byte \<Rightarrow> string" where
  "rewriteREDFmtp sdp h264PT redPT =
     (if h264PT = 0 \<or> redPT = 0 then sdp
      else
        let want = red_fmtp redPT h264PT;
            old = fmtp_start redPT @ ''102/102'';
            rtpmap = red_rtpmap redPT @ crlf
        in if Contains sdp old then replace1 old want sdp
           else if Contains sdp want then sdp
           else if \<not> Contains sdp rtpmap then sdp
           else replace1 rtpmap (rtpmap @ want @ crlf) sdp)"

section \<open>Codecs, profiles and extensions\<close>

definition upper_char :: "char \<Rightarrow> char" where
  "upper_char c = (let n = of_char c :: nat in if 97 \<le> n \<and> n \<le> 122 then char_of (n - 32) else c)"

definition ToUpper :: "string \<Rightarrow> string" where
  "ToUpper s = map upper_char s"

definition audioCodecs :: "string list" where
  "audioCodecs = [''OPUS'', ''AAC'', ''G722'', ''PCMU'', ''PCMA'']"

definition videoCodecs :: "string list" where
  "videoCodecs = [''H264'', ''H265'', ''VP8'', ''VP9'', ''AV1'']"

text \<open>The codec name of an \<open>rtpmap\<close> line.\<close>

definition line_codec :: "string \<Rightarrow> string option" where
  "line_codec line =
     (if HasPrefix line ''a=rtpmap:'' then
        (case split2 '' '' line of [_, info] \<Rightarrow> Some (ToUpper (before ''/'' info)) | _ \<Rightarrow> None)
      else None)"

definition parseSDPCodecs :: "string \<Rightarrow> string list \<times> string list" where
  "parseSDPCodecs sdp =
     (let names = List.map_filter line_codec (split_lines sdp)
      in (filter (\<lambda>c. c \<notin> set audioCodecs \<and> c \<in> set videoCodecs) names,
          filter (\<lambda>c. c \<in> set audioCodecs) names))"

text \<open>
  The matches of \<open>(?i)(profile-level-id=)([0-9a-f]{6})\<close>, leftmost first and without overlap.
\<close>

definition is_hex :: "char \<Rightarrow> bool" where
  "is_hex c \<longleftrightarrow> (let n = of_char c :: nat in
     48 \<le> n \<and> n \<le> 57 \<or> 97 \<le> n \<and> n \<le> 102 \<or> 65 \<le> n \<and> n \<le> 70)"

definition plid_at :: "string \<Rightarrow> string option" where
  "plid_at s =
     (let key = ''profile-level-id='';
          k = length key;
          v = take 6 (drop k s)
      in if map lower_char (take k s) = key \<and> length v = 6 \<and> list_all is_hex v
         then Some (map lower_char v) else None)"

fun scan_plids :: "nat \<Rightarrow> string \<Rightarrow> string list" where
  "scan_plids skip [] = []"
| "scan_plids (Suc skip) (c # s) = scan_plids skip s"
| "scan_plids 0 (c # s) =
     (case plid_at (c # s) of
        Some v \<Rightarrow> v # scan_plids 22 s
      | None \<Rightarrow> scan_plids 0 s)"

definition extractProfileLevelIDs :: "string \<Rightarrow> string list" where
  "extractProfileLevelIDs sdp = scan_plids 0 sdp"

text \<open>The number of an \<open>extmap\<close> line, read digit by digit; \<open>n\<close> is the value so far.\<close>

fun ext_number :: "nat \<Rightarrow> string \<Rightarrow> byte" where
  "ext_number n [] = of_nat n"
| "ext_number n (c # cs) =
     (case digit_val c of
        None \<Rightarrow> 0
      | Some d \<Rightarrow> if 10 * n + d > 255 then 0 else ext_number (10 * n + d) cs)"

fun scan_extmap :: "string \<Rightarrow> string list \<Rightarrow> byte" where
  "scan_extmap uri [] = 0"
| "scan_extmap uri (line # ls) =
     (if HasPrefix line ''a=extmap:'' \<and> Contains line uri
      then ext_number 0 (before ''/'' (before '' '' (TrimPrefix line ''a=extmap:'')))
      else scan_extmap uri ls)"

definition extractExtmapID :: "string \<Rightarrow> string \<Rightarrow> byte" where
  "extractExtmapID sdp uri = scan_extmap uri (split_lines sdp)"

section \<open>Text made of lines\<close>

text \<open>A line holds no line break; an SDP is its lines joined.\<close>

definition is_line :: "string \<Rightarrow> bool" where
  "is_line l \<longleftrightarrow> CHR 0x0D \<notin> set l \<and> CHR 0x0A \<notin> set l"

lemma is_line_Cons [simp]: "is_line (c # l) \<longleftrightarrow> c \<noteq> CHR 0x0D \<and> c \<noteq> CHR 0x0A \<and> is_line l"
  by (auto simp: is_line_def)

lemma is_line_append [simp]: "is_line (l @ m) \<longleftrightarrow> is_line l \<and> is_line m"
  by (auto simp: is_line_def)

lemma is_line_Nil [simp]: "is_line []"
  by (simp add: is_line_def)

lemma prefix_line: "is_line p \<Longrightarrow> prefix p (l @ crlf @ s) \<longleftrightarrow> prefix p l"
  by (auto simp: prefix_append is_line_def crlf_def prefix_Cons)

lemma prefix_line_end:
  "is_line p \<Longrightarrow> is_line l \<Longrightarrow> prefix (p @ crlf) (l @ crlf @ s) \<longleftrightarrow> p = l"
proof (induction p arbitrary: l)
  case Nil
  then show ?case by (cases l) (auto simp: crlf_def)
next
  case (Cons c p)
  then show ?case by (cases l) (auto simp: crlf_def)
qed

text \<open>A line without the pattern is skipped, also when the pattern ends with a line break.\<close>

lemma cut_break:
  assumes "p = c # p'" "c \<noteq> CHR 0x0D" "c \<noteq> CHR 0x0A"
  shows "cut p (crlf @ s) = map_option (\<lambda>(a, b). (crlf @ a, b)) (cut p s)"
  using assms by (cases "cut p s") (auto simp: crlf_def)

lemma cut_skip:
  assumes "is_line p" "p \<noteq> []" "is_line l" "\<not> Contains l p" "t = [] \<or> t = crlf"
  shows "cut (p @ t) (l @ crlf @ s) = map_option (\<lambda>(a, b). (l @ crlf @ a, b)) (cut (p @ t) s)"
  using assms(3,4)
proof (induction l)
  case Nil
  then show ?case using assms(1,2) cut_break [of "p @ t"] by (cases p) auto
next
  case (Cons c l)
  have "\<not> prefix p (c # l)" using Cons.prems(2) by simp
  then have "\<not> prefix (p @ t) ((c # l) @ crlf @ s)"
    using prefix_line [OF assms(1), of "c # l" s] append_prefixD by blast
  with Cons show ?case by (cases "cut (p @ t) s") auto
qed

lemma cut_last:
  assumes "is_line l" "\<not> Contains l p" "t = [] \<or> t = crlf"
  shows "cut (p @ t) l = None"
  using assms(2) by (force simp: Contains_sublist cut_None sublist_def)

text \<open>The first of the lines equal to \<open>p\<close> replaced.\<close>

fun replace_line :: "string \<Rightarrow> string list \<Rightarrow> string list \<Rightarrow> string list" where
  "replace_line p qs [] = []"
| "replace_line p qs (l # ls) = (if l = p then qs @ ls else l # replace_line p qs ls)"

lemma split_lines_line: "is_line l \<Longrightarrow> split_lines l = [l]"
proof -
  assume "is_line l"
  then have "\<not> Contains l crlf"
    by (auto simp: Contains_sublist is_line_def crlf_def dest!: set_mono_sublist)
  then show ?thesis by (subst split_lines.simps) (simp add: cut_None [symmetric])
qed

lemma cut_crlf: "is_line l \<Longrightarrow> cut crlf (l @ crlf @ s) = Some (l, s)"
  by (induction l) (auto simp: crlf_def)

lemma split_lines_join:
  "ls \<noteq> [] \<Longrightarrow> list_all is_line ls \<Longrightarrow> split_lines (join crlf ls) = ls"
proof (induction crlf ls rule: join.induct)
  case (3 x y ys)
  then show ?case by (subst split_lines.simps) (simp add: cut_crlf)
qed (simp_all add: split_lines_line)

lemma cut_join:
  assumes "is_line p" "p \<noteq> []" "list_all is_line ls" "\<forall>l \<in> set ls. Contains l p \<longrightarrow> l = p"
  shows "p \<in> set ls \<longleftrightarrow> cut p (join crlf ls) \<noteq> None"
  using assms(3,4)
proof (induction crlf ls rule: join.induct)
  case 1
  then show ?case using assms(2) by simp
next
  case (2 x)
  then show ?case using cut_last [of x p "[]"] by (cases p) (auto simp: cut_None)
next
  case (3 x y ys)
  show ?case
  proof (cases "x = p")
    case True
    then show ?thesis using assms(2) by (cases p) auto
  next
    case False
    with 3 cut_skip [OF assms(1,2), of x "[]"] show ?thesis
      by (cases "cut p (join crlf (y # ys))") auto
  qed
qed

lemma replace1_join:
  assumes "is_line p" "p \<noteq> []" "list_all is_line ls" "\<forall>l \<in> set ls. Contains l p \<longrightarrow> l = p"
  shows "replace1 p q (join crlf ls) = join crlf (replace_line p [q] ls)"
  using assms(3,4)
proof (induction crlf ls rule: join.induct)
  case 1
  then show ?case using assms(2) by (simp add: replace1_def)
next
  case (2 x)
  then show ?case using cut_last [of x p "[]"] assms(2)
    by (cases p) (auto simp: replace1_def)
next
  case (3 x y ys)
  show ?case
  proof (cases "x = p")
    case True
    then show ?thesis using assms(2) by (cases p) (auto simp: replace1_def)
  next
    case False
    with 3 have "\<not> Contains x p" by auto
    with 3 False cut_skip [OF assms(1,2), of x "[]" "join crlf (y # ys)"] show ?thesis
      by (cases "cut p (join crlf (y # ys))"; cases "replace_line p [q] (y # ys)") (auto simp: replace1_def split: if_splits)
  qed
qed

lemma cut_join_end:
  assumes "is_line p" "p \<noteq> []" "list_all is_line ls" "\<forall>l \<in> set ls. Contains l p \<longrightarrow> l = p"
    and "p \<in> set (butlast ls)"
  shows "cut (p @ crlf) (join crlf ls) \<noteq> None
    \<and> replace1 (p @ crlf) (p @ crlf @ q @ crlf) (join crlf ls) = join crlf (replace_line p [p, q] ls)"
  using assms(3-5)
proof (induction crlf ls rule: join.induct)
  case (3 x y ys)
  show ?case
  proof (cases "x = p")
    case True
    then show ?thesis using assms(2) by (cases p) (auto simp: replace1_def)
  next
    case False
    with 3 have "\<not> Contains x p" by auto
    with 3 False cut_skip [OF assms(1,2), of x crlf "join crlf (y # ys)"] show ?thesis
      by (cases "cut (p @ crlf) (join crlf (y # ys))"; cases "replace_line p [p, q] (y # ys)")
        (auto simp: replace1_def split: if_splits)
  qed
qed simp_all

lemma replace_line_split: "p \<notin> set l1 \<Longrightarrow> replace_line p q (l1 @ p # l2) = l1 @ q @ l2"
  by (induction l1) auto

lemma first_split:
  assumes "p \<in> set ls"
  obtains l1 l2 where "ls = l1 @ p # l2" "p \<notin> set l1"
  using assms by (meson split_list_first)

section \<open>The answer names what was negotiated\<close>

lemma show_nat_digits: "set (show_nat n) \<subseteq> digit ` {..<10}"
proof (induction n rule: show_nat.induct)
  case (1 n)
  then show ?case by (subst show_nat.simps) (cases "n < 10", auto)
qed

lemma digit_not: "d < 10 \<Longrightarrow> digit d \<notin> {CHR ''a'', CHR ''/'', CHR '' '', CHR 0x0D, CHR 0x0A}"
proof -
  assume "d < 10"
  then have "digit_val (digit d) = Some d" by simp
  moreover have "digit_val c = None"
    if "c \<in> {CHR ''a'', CHR ''/'', CHR '' '', CHR 0x0D, CHR 0x0A}" for c
    using that by (auto simp: digit_val_def)
  ultimately show ?thesis by fastforce
qed

lemma show_pt_chars [simp]:
  "CHR ''a'' \<notin> set (show_pt n)" "CHR ''/'' \<notin> set (show_pt n)" "CHR '' '' \<notin> set (show_pt n)"
  "is_line (show_pt n)"
proof -
  have "c \<notin> set (show_pt n)" if "c \<in> {CHR ''a'', CHR ''/'', CHR '' '', CHR 0x0D, CHR 0x0A}" for c
  proof
    assume "c \<in> set (show_pt n)"
    then obtain d where "d < 10" "c = digit d"
      using show_nat_digits [of "unat n"] by (auto simp: show_pt_def)
    with digit_not that show False by metis
  qed
  then show "CHR ''a'' \<notin> set (show_pt n)" "CHR ''/'' \<notin> set (show_pt n)"
    "CHR '' '' \<notin> set (show_pt n)" "is_line (show_pt n)" by (simp_all add: is_line_def)
qed

lemma show_pt_102 [simp]: "show_pt 102 = ''102''"
  by (simp add: show_pt_def show_nat.simps digit_def) (simp add: char_of_def bit_iff_odd)

text \<open>A line of RED parameters holds no other one.\<close>

lemma fmtp_contains:
  assumes "Contains (red_fmtp r h) (red_fmtp r h')"
  shows "h = h'"
proof -
  define x y where "x = show_pt h @ ''/'' @ show_pt h" and "y = show_pt h' @ ''/'' @ show_pt h'"
  define F where "F = tl (fmtp_start r)"
  have F: "fmtp_start r = CHR ''a'' # F" "CHR ''a'' \<notin> set F"
    by (simp_all add: F_def fmtp_start_def)
  obtain u v where "(CHR ''a'' # F) @ x = u @ (CHR ''a'' # F) @ y @ v"
    using assms by (auto simp: Contains_sublist sublist_def red_fmtp_def F(1) x_def y_def)
  moreover have "CHR ''a'' \<notin> set (F @ x)" using F(2) by (simp add: x_def)
  ultimately have "x = y @ v" by (cases u) (auto dest: arg_cong [where f = set])
  then have "takeWhile (\<lambda>c. c \<noteq> CHR ''/'') x = takeWhile (\<lambda>c. c \<noteq> CHR ''/'') (y @ v)" by simp
  moreover have "takeWhile (\<lambda>c. c \<noteq> CHR ''/'') (show_pt n @ ''/'' @ w) = show_pt n" for n w
    by (simp add: takeWhile_append takeWhile_tail)
  ultimately have "show_pt h = show_pt h'" by (simp add: x_def y_def)
  then show ?thesis
    unfolding show_pt_def by (metis parse_show_nat option.inject word_unat_eq_iff)
qed

definition is_fmtp :: "byte \<Rightarrow> string \<Rightarrow> bool" where
  "is_fmtp redPT l \<longleftrightarrow> prefix (fmtp_start redPT) l"

lemma is_fmtp_fmtp [simp]: "is_fmtp r (red_fmtp r h)" "is_line (red_fmtp r h)" "is_line (red_rtpmap r)"
    "red_fmtp r h \<noteq> []" "red_rtpmap r \<noteq> []"
  by (simp_all add: is_fmtp_def red_fmtp_def fmtp_start_def red_rtpmap_def)

lemma not_fmtp [simp]: "\<not> is_fmtp r (red_rtpmap r')"
  by (simp add: is_fmtp_def fmtp_start_def red_rtpmap_def)

lemma old_fmtp: "fmtp_start r @ ''102/102'' = red_fmtp r 102"
  by (simp add: red_fmtp_def)

lemma Contains_refl: "Contains s s" and Contains_trans: "Contains s t \<Longrightarrow> Contains t u \<Longrightarrow> Contains s u"
  by (auto simp: Contains_sublist)

text \<open>The payload types are read from other lines than those RED's format line is on.\<close>

lemma scan_pt_fmtp:
  "scan_pt codec v ls = scan_pt codec v (filter (\<lambda>l. \<not> is_fmtp r l) ls)"
proof (induction codec v ls rule: scan_pt.induct)
  case (2 codec v l ls)
  have "\<not> HasPrefix l ''m=''" "\<not> HasPrefix l ''a=rtpmap:''" if "is_fmtp r l"
    using that by (auto simp: is_fmtp_def fmtp_start_def HasPrefix_def prefix_def)
  with 2 show ?case by (auto split: option.splits)
qed simp

lemma at_most_one:
  assumes "length (filter P ls) \<le> 1" "ls = l1 @ x # l2" "P x"
  shows "filter P l1 = []" "filter P l2 = []"
  using assms by (auto simp: filter_empty_conv)

lemma red_lines:
  assumes ls: "list_all is_line ls" and pt: "h264PT \<noteq> 0" "redPT \<noteq> 0"
    and rtpmap: "red_rtpmap redPT \<in> set (butlast ls)"
      "\<forall>l \<in> set ls. Contains l (red_rtpmap redPT) \<longrightarrow> l = red_rtpmap redPT"
    and fmtp: "\<forall>l \<in> set ls. Contains l (fmtp_start redPT) \<longrightarrow>
        l \<in> {fmtp_start redPT @ ''102/102'', red_fmtp redPT h264PT}"
      "length (filter (is_fmtp redPT) ls) \<le> 1"
  shows "\<exists>ls'. rewriteREDFmtp (join crlf ls) h264PT redPT = join crlf ls'
    \<and> split_lines (join crlf ls') = ls'
    \<and> filter (is_fmtp redPT) ls' = [red_fmtp redPT h264PT]
    \<and> filter (\<lambda>l. \<not> is_fmtp redPT l) ls' = filter (\<lambda>l. \<not> is_fmtp redPT l) ls
    \<and> extractNegotiatedPT (join crlf ls') codec = extractNegotiatedPT (join crlf ls) codec"
proof -
  let ?want = "red_fmtp redPT h264PT" and ?old = "red_fmtp redPT 102" and ?R = "red_rtpmap redPT"
  let ?s = "join crlf ls" and ?P = "is_fmtp redPT"
  have exact: "l = red_fmtp redPT n" if "l \<in> set ls" "Contains l (red_fmtp redPT n)" for l n
  proof -
    have "Contains (red_fmtp redPT n) (fmtp_start redPT)" by (simp add: Contains_sublist red_fmtp_def)
    with that fmtp(1) have "l \<in> {?old, ?want}" using Contains_trans unfolding old_fmtp by blast
    with that(2) fmtp_contains show ?thesis by blast
  qed
  have ne: "ls \<noteq> []" using rtpmap(1) by auto
  have in_s: "red_fmtp redPT n \<in> set ls \<longleftrightarrow> Contains ?s (red_fmtp redPT n)" for n
    using cut_join [of "red_fmtp redPT n" ls] cut_None [of "red_fmtp redPT n" ?s] exact ls by auto
  have "\<exists>ls'. rewriteREDFmtp ?s h264PT redPT = join crlf ls' \<and> list_all is_line ls' \<and> ls' \<noteq> []
      \<and> filter ?P ls' = [?want] \<and> filter (\<lambda>l. \<not> ?P l) ls' = filter (\<lambda>l. \<not> ?P l) ls"
  proof (cases "?old \<in> set ls")
    case True
    obtain l1 l2 where l: "ls = l1 @ ?old # l2" "?old \<notin> set l1" using first_split [OF True] .
    have "rewriteREDFmtp ?s h264PT redPT = join crlf (replace_line ?old [?want] ls)"
      using True in_s [of 102] pt ls exact [of _ 102]
      by (simp add: rewriteREDFmtp_def Let_def old_fmtp replace1_join)
    then show ?thesis
      using l ls at_most_one [OF fmtp(2) l(1)]
      by (intro exI [of _ "l1 @ ?want # l2"]) (simp add: replace_line_split)
  next
    case no_old: False
    show ?thesis
    proof (cases "?want \<in> set ls")
      case True
      obtain l1 l2 where l: "ls = l1 @ ?want # l2" using first_split [OF True] .
      have "rewriteREDFmtp ?s h264PT redPT = ?s"
        using True no_old in_s pt by (simp add: rewriteREDFmtp_def Let_def old_fmtp)
      with l ls ne at_most_one [OF fmtp(2) l(1)] show ?thesis by (intro exI [of _ ls]) simp
    next
      case False
      have none: "filter ?P ls = []"
      proof -
        have "\<not> ?P l" if "l \<in> set ls" for l
        proof
          assume "?P l"
          then have "Contains l (fmtp_start redPT)" by (auto simp: is_fmtp_def Contains_sublist)
          with that fmtp(1) no_old False show False unfolding old_fmtp by blast
        qed
        then show ?thesis by (simp add: filter_empty_conv)
      qed
      have "?R \<in> set ls" using rtpmap(1) by (rule in_set_butlastD)
      then obtain l1 l2 where l: "ls = l1 @ ?R # l2" "?R \<notin> set l1" by (rule first_split)
      have c: "Contains ?s (?R @ crlf)" "replace1 (?R @ crlf) ((?R @ crlf) @ ?want @ crlf) ?s
          = join crlf (replace_line ?R [?R, ?want] ls)"
        using cut_join_end [OF _ _ ls rtpmap(2,1), of ?want] cut_None [of "?R @ crlf" ?s] by simp_all
      have "rewriteREDFmtp ?s h264PT redPT = join crlf (replace_line ?R [?R, ?want] ls)"
        using no_old False pt c by (simp only: rewriteREDFmtp_def Let_def old_fmtp in_s if_False if_True simp_thms)
      then show ?thesis
        using l ls none by (intro exI [of _ "l1 @ ?R # ?want # l2"]) (simp add: replace_line_split)
    qed
  qed
  then obtain ls' where ls': "rewriteREDFmtp ?s h264PT redPT = join crlf ls'" "list_all is_line ls'" "ls' \<noteq> []"
      "filter ?P ls' = [?want]" "filter (\<lambda>l. \<not> ?P l) ls' = filter (\<lambda>l. \<not> ?P l) ls" by blast
  have "extractNegotiatedPT (join crlf ls') codec = extractNegotiatedPT ?s codec"
    using ls' ls ne scan_pt_fmtp [of codec False ls' redPT] scan_pt_fmtp [of codec False ls redPT]
    by (simp add: extractNegotiatedPT_def split_lines_join)
  with ls' split_lines_join show ?thesis by blast
qed

text \<open>
  The browser learns how RED is packed.  Let the answer be a text of lines in which RED and H.264
  have payload types, in which the \<open>rtpmap\<close> line of RED stands, with at most one format line for
  RED's number, which is the one that was registered or the right one already.  Then the copy sent
  to the browser holds exactly one format line for RED, the one that names the negotiated type of
  H.264; every other line is kept, in order; and the negotiated payload types it gives are the same.
\<close>

theorem wire_answer_names_red:
  assumes ls: "list_all is_line ls" and pt: "h264PT \<noteq> 0" "redPT \<noteq> 0"
    and rtpmap: "red_rtpmap redPT \<in> set (butlast ls)"
      "\<forall>l \<in> set ls. Contains l (red_rtpmap redPT) \<longrightarrow> l = red_rtpmap redPT"
    and fmtp: "\<forall>l \<in> set ls. Contains l (fmtp_start redPT) \<longrightarrow>
        l \<in> {fmtp_start redPT @ ''102/102'', red_fmtp redPT h264PT}"
      "length (filter (is_fmtp redPT) ls) \<le> 1"
  shows "\<exists>ls'. rewriteREDFmtp (join crlf ls) h264PT redPT = join crlf ls'
    \<and> split_lines (join crlf ls') = ls'
    \<and> filter (is_fmtp redPT) ls' = [red_fmtp redPT h264PT]
    \<and> filter (\<lambda>l. \<not> is_fmtp redPT l) ls' = filter (\<lambda>l. \<not> is_fmtp redPT l) ls
    \<and> extractNegotiatedPT (join crlf ls') codec = extractNegotiatedPT (join crlf ls) codec"
  by (rule red_lines [OF assms])

text \<open>An answer of Chrome's: RED on 116 was remapped to 123, H.264 to 108.\<close>

definition demo_answer :: "string list" where
  "demo_answer = [''v=0'', ''m=audio 9 UDP/TLS/RTP/SAVPF 111'', ''a=rtpmap:111 opus/48000/2'',
     ''m=video 9 UDP/TLS/RTP/SAVPF 108 123'', ''a=extmap:4/sendonly http://www.webrtc.org/experiments/rtp-hdrext/playout-delay'',
     ''a=rtpmap:108 H264/90000'',
     ''a=rtpmap:123 red/90000'', ''a=fmtp:123 102/102'', '''']"

lemma show_demo: "show_pt 123 = ''123''" "show_pt 108 = ''108''"
  by (simp_all add: show_pt_def show_nat.simps digit_def) (simp_all add: char_of_def bit_iff_odd)

theorem wire_answer_names_red_witness:
  "\<exists>ls'. rewriteREDFmtp (join crlf demo_answer) 108 123 = join crlf ls'
     \<and> filter (is_fmtp 123) ls' = [''a=fmtp:123 108/108'']"
  using wire_answer_names_red [of demo_answer 108 123 "''h264''"]
  by (auto simp: demo_answer_def red_rtpmap_def fmtp_start_def red_fmtp_def is_fmtp_def show_demo)

section \<open>What is read out of an answer\<close>

lemma cut_char: "c \<notin> set a \<Longrightarrow> cut [c] (a @ c # b) = Some (a, b)"
  by (induction a) auto

lemma before_char: "c \<notin> set a \<Longrightarrow> before [c] (a @ c # b) = a"
  by (simp add: before_def split2_def cut_char)

lemma before_none: "c \<notin> set a \<Longrightarrow> before [c] a = a"
proof -
  assume "c \<notin> set a"
  then have "cut [c] a = None" by (induction a) auto
  then show ?thesis by (simp add: before_def split2_def)
qed

lemma ParseInt_show_pt: "ParseInt (show_pt n) = Some (uint n)"
proof -
  have "int (unat n) < 2 ^ 8" using unsigned_less [of n] by simp
  also have "(2 :: int) ^ 8 < 2 ^ 63" by simp
  finally have "int (unat n) < 2 ^ 63" .
  from ParseInt_show_nat [OF this] show ?thesis by (simp add: show_pt_def)
qed

lemma rtpmap_pt_line:
  assumes "EqualFold enc codec" "CHR ''/'' \<notin> set enc" "n \<noteq> 0" "uint n \<le> 127"
  shows "rtpmap_pt codec (''a=rtpmap:'' @ show_pt n @ '' '' @ enc @ ''/'' @ rate) = Some n"
proof -
  have "0 < uint n" using assms(3) by (simp add: word_neq_0_conv word_less_def)
  with assms show ?thesis
    by (simp add: rtpmap_pt_def TrimPrefix_def split2_def cut_char before_char ParseInt_show_pt)
qed

lemma scan_pt_skip:
  assumes "\<forall>l \<in> set ls. \<not> HasPrefix l ''m=video''"
  shows "scan_pt codec False (ls @ ls') = scan_pt codec False ls'"
  using assms by (induction ls) auto

lemma scan_pt_section:
  assumes "\<forall>l \<in> set ls. \<not> HasPrefix l ''m='' \<and> rtpmap_pt codec l = None"
  shows "scan_pt codec True (ls @ ls') = scan_pt codec True ls'"
  using assms by (induction ls) auto

lemma scan_pt_range: "scan_pt codec v ls = 0 \<or> uint (scan_pt codec v ls) \<le> 127"
proof (induction codec v ls rule: scan_pt.induct)
  case (2 codec v l ls)
  have "n = 0 \<or> uint n \<le> 127" if "rtpmap_pt codec l = Some n" for n
    using that by (auto simp: rtpmap_pt_def take_bit_int_eq_self unsigned_of_int
        split: list.splits option.splits if_splits)
  with 2 show ?case by (auto split: option.splits)
qed simp

text \<open>
  The negotiated payload type is the one of the video section: the first \<open>rtpmap\<close> line there
  whose encoding is the codec, whatever the case of its letters; lines of other sections, such as
  the redundancy codec of the audio section, do not count.  It always fits the seven bits of an RTP
  header.
\<close>

theorem negotiated_pt_of_video:
  assumes "list_all is_line (pre @ [v] @ mid @ [l] @ post)"
    and "\<forall>m \<in> set pre. \<not> HasPrefix m ''m=video''" "HasPrefix v ''m=video''"
    and "\<forall>m \<in> set mid. \<not> HasPrefix m ''m='' \<and> rtpmap_pt codec m = None"
    and "l = ''a=rtpmap:'' @ show_pt n @ '' '' @ enc @ ''/'' @ rate"
    and "EqualFold enc codec" "CHR ''/'' \<notin> set enc" "n \<noteq> 0" "uint n \<le> 127"
  shows "extractNegotiatedPT (join crlf (pre @ [v] @ mid @ [l] @ post)) codec = n"
proof -
  have l: "\<not> HasPrefix l ''m=''" "HasPrefix l ''a=rtpmap:''" "rtpmap_pt codec l = Some n"
    using rtpmap_pt_line [OF assms(6-9)] by (simp_all add: assms(5) HasPrefix_def)
  have v: "HasPrefix v ''m=''" using assms(3) by (auto simp: HasPrefix_def prefix_def)
  have "scan_pt codec True (mid @ l # post) = n"
    using l scan_pt_section [OF assms(4)] by simp
  then have "scan_pt codec False (pre @ v # mid @ l # post) = n"
    using v assms(3) scan_pt_skip [OF assms(2)] by simp
  with assms(1) show ?thesis by (simp add: extractNegotiatedPT_def split_lines_join)
qed

theorem negotiated_pt_of_video_witness:
  "extractNegotiatedPT (join crlf demo_answer) ''red'' = 123"
  using negotiated_pt_of_video [of "take 3 demo_answer" "demo_answer ! 3" "[demo_answer ! 4, demo_answer ! 5]"
      "demo_answer ! 6" "drop 7 demo_answer" "''red''" 123 "''red''" "''90000''"]
  by (simp add: demo_answer_def show_demo HasPrefix_def rtpmap_pt_def TrimPrefix_def split2_def before_def
      EqualFold_def lower_char_def ParseInt_def Let_def digit_val_def)

lemma parse_digits_ge: "parse_digits k s = Some n \<Longrightarrow> k \<le> n"
proof (induction s arbitrary: k)
  case (Cons c s)
  then obtain d where "digit_val c = Some d" "parse_digits (10 * k + d) s = Some n"
    by (auto split: option.splits)
  with Cons.IH [of "10 * k + d"] show ?case by simp
qed simp

lemma ext_number_digits: "parse_digits m s = Some n \<Longrightarrow> n \<le> 255 \<Longrightarrow> ext_number m s = of_nat n"
proof (induction s arbitrary: m)
  case (Cons c s)
  from Cons.prems(1) obtain d where d: "digit_val c = Some d" "parse_digits (10 * m + d) s = Some n"
    by (auto split: option.splits)
  with Cons.IH [of "10 * m + d"] Cons.prems(2) parse_digits_ge [OF d(2)] show ?case by simp
qed simp

lemma scan_extmap_skip:
  assumes "\<forall>l \<in> set ls. \<not> (HasPrefix l ''a=extmap:'' \<and> Contains l uri)"
  shows "scan_extmap uri (ls @ ls') = scan_extmap uri ls'"
  using assms by (induction ls) auto

text \<open>
  The identifier of a header extension is read back from its line, with or without a direction,
  whatever the other lines are.
\<close>

theorem extmap_read:
  assumes "list_all is_line (pre @ [l] @ post)"
    and "\<forall>m \<in> set pre. \<not> (HasPrefix m ''a=extmap:'' \<and> Contains m uri)"
    and "l = ''a=extmap:'' @ show_pt n @ dir @ '' '' @ uri @ attrs"
    and "dir = [] \<or> (\<exists>d. dir = CHR ''/'' # d \<and> CHR '' '' \<notin> set d)"
  shows "extractExtmapID (join crlf (pre @ [l] @ post)) uri = n"
proof -
  have "l = (''a=extmap:'' @ show_pt n @ dir @ '' '') @ uri @ attrs" by (simp add: assms(3))
  then have l: "HasPrefix l ''a=extmap:''" "Contains l uri"
    unfolding Contains_sublist using sublist_appendI by (simp add: HasPrefix_def, metis)
  have "CHR '' '' \<notin> set (show_pt n @ dir)" using assms(4) by auto
  from before_char [OF this] have "before '' '' (TrimPrefix l ''a=extmap:'') = show_pt n @ dir"
    by (simp add: assms(3) TrimPrefix_def)
  moreover have "before ''/'' (show_pt n @ dir) = show_pt n"
    using assms(4) before_char [of "CHR ''/''" "show_pt n"] before_none [of "CHR ''/''" "show_pt n"] by auto
  moreover have "unat n < 256" using unsigned_less [of n] by simp
  then have "ext_number 0 (show_pt n) = n"
    using ext_number_digits [of 0 "show_pt n" "unat n"] by (simp add: show_pt_def parse_show_nat)
  ultimately have "scan_extmap uri (pre @ l # post) = n"
    using l scan_extmap_skip [OF assms(2)] by simp
  with assms(1) show ?thesis by (simp add: extractExtmapID_def split_lines_join)
qed

theorem extmap_read_witness:
  "extractExtmapID (join crlf demo_answer) ''http://www.webrtc.org/experiments/rtp-hdrext/playout-delay'' = 4"
proof -
  have 1: "take 4 demo_answer @ [demo_answer ! 4] @ drop 5 demo_answer = demo_answer"
    by (simp add: demo_answer_def)
  have "show_pt 4 = ''4''"
    by (simp add: show_pt_def show_nat.simps digit_def) (simp add: char_of_def bit_iff_odd)
  then show ?thesis
    using extmap_read [of "take 4 demo_answer" "demo_answer ! 4" "drop 5 demo_answer"
        "''http://www.webrtc.org/experiments/rtp-hdrext/playout-delay''" 4 "''/sendonly''" "[]"]
    unfolding 1 by (simp add: demo_answer_def HasPrefix_def)
qed

section \<open>The level of a profile\<close>

text \<open>\<open>strconv.ParseInt(s, 16, 64)\<close> of a text of two characters, which cannot overflow.\<close>

definition ParseHex :: "string \<Rightarrow> int option" where
  "ParseHex s =
     (let (neg, ds) = (case s of c # r \<Rightarrow> if c = CHR ''-'' then (True, r)
                                         else if c = CHR ''+'' then (False, r) else (False, s)
                       | [] \<Rightarrow> (False, []))
      in if ds = [] then None
         else map_option (\<lambda>n. if neg then - int n else int n) (hex_num 0 ds))"

definition level_MaxFS :: "int \<Rightarrow> int" where
  "level_MaxFS levelIdc =
     (if levelIdc = 10 then 99
      else if levelIdc \<in> {11, 12, 13, 20} then 396
      else if levelIdc = 21 then 792
      else if levelIdc \<in> {22, 30} then 1620
      else if levelIdc = 31 then 3600
      else if levelIdc = 32 then 5120
      else if levelIdc \<in> {40, 41} then 8192
      else if levelIdc = 42 then 8704
      else if levelIdc = 50 then 22080
      else if levelIdc \<in> {51, 52} then 36864
      else 8192)"

definition h264MaxFSFromProfileLevelID :: "string \<Rightarrow> int" where
  "h264MaxFSFromProfileLevelID plid =
     (if length plid < 6 then 8192
      else case ParseHex (take 2 (drop 4 plid)) of None \<Rightarrow> 8192 | Some levelIdc \<Rightarrow> level_MaxFS levelIdc)"

lemma hex_digit_not_sign: "n < 16 \<Longrightarrow> hex_digit n \<noteq> CHR ''-'' \<and> hex_digit n \<noteq> CHR ''+''"
proof -
  assume "n < 16"
  then have "hex_val (hex_digit n) = Some n" by (rule hex_val_digit)
  moreover have "hex_val (CHR ''-'') = None" "hex_val (CHR ''+'') = None" by (simp_all add: hex_val_def)
  ultimately show ?thesis by force
qed

lemma ParseHex_hex2: "ParseHex (hex2 b) = Some (uint b)"
proof -
  have "unat b < 256" using unsigned_less [of b] by simp
  then have "hex_digit (unat b div 16) \<noteq> CHR ''-'' \<and> hex_digit (unat b div 16) \<noteq> CHR ''+''"
    by (intro hex_digit_not_sign) simp
  moreover have "hex2 b = [hex_digit (unat b div 16), hex_digit (unat b mod 16)]" by (simp add: hex2_def)
  ultimately show ?thesis using hex_num_hex2 [of b] by (simp add: ParseHex_def Let_def)
qed

text \<open>
  The frame size announced for a device's stream is the one of the level byte of its SPS, also
  after the profile was normalised.
\<close>

lemma MaxFS_of_sps:
  assumes "ExtractProfileLevelID sps = Some plid"
  shows "h264MaxFSFromProfileLevelID (NormalizeProfileLevelID plid) = level_MaxFS (uint (sps ! 3))"
proof -
  have "length plid = 6" "drop 4 plid = hex2 (sps ! 3)"
    using assms Extract_length [OF assms] by (auto simp: ExtractProfileLevelID_def split: if_splits)
  then show ?thesis
    by (simp add: h264MaxFSFromProfileLevelID_def Normalize_length Normalize_level ParseHex_hex2 not_less)
qed

end
