(* ===== verification/Protocol.thy ===== *)
theory Protocol
  imports GoBytes
begin

text \<open>
  \<open>agent/internal/gateway/protocol.go\<close>: the scrcpy 4.0 stream protocol.  The framing of packets
  (\<open>ReadVideoCodecID\<close>, \<open>ReadAudioCodecID\<close>, \<open>ReadPacket\<close>), the search for NAL units in an
  Annex-B payload and the derivation of the H.264 profile-level-id.

  A reader is the list of bytes its connection still delivers before it ends: \<open>io.ReadFull\<close> takes
  what it asks for or fails.  The loop of \<open>FindSPSInAnnexB\<close> need not end; it is a partial function,
  and \<open>None\<close> is its value where it runs forever.
\<close>

section \<open>Packets\<close>

definition PacketFlagSession :: u64 where "PacketFlagSession = push_bit 63 1"
definition PacketFlagConfig :: u64 where "PacketFlagConfig = push_bit 62 1"
definition PacketFlagKeyFrame :: u64 where "PacketFlagKeyFrame = push_bit 61 1"
definition PacketPTSMask :: u64 where "PacketPTSMask = PacketFlagKeyFrame - 1"

definition DisableStreamCode :: u32 where "DisableStreamCode = 0"
definition DisableStreamCodeError :: u32 where "DisableStreamCodeError = 1"

record FrameHeader =
  PTSAndFlags :: u64
  PacketSize :: u32

text \<open>\<open>PTS\<close> converts to \<open>time.Duration\<close> and multiplies in \<open>int64\<close>.\<close>

definition PTS :: "FrameHeader \<Rightarrow> duration" where
  "PTS h = sint (ucast (PTSAndFlags h AND PacketPTSMask) * 1000 :: 64 word)"

definition IsConfig :: "FrameHeader \<Rightarrow> bool" where
  "IsConfig h \<longleftrightarrow> PTSAndFlags h AND PacketFlagConfig \<noteq> 0"

definition IsKeyFrame :: "FrameHeader \<Rightarrow> bool" where
  "IsKeyFrame h \<longleftrightarrow> PTSAndFlags h AND PacketFlagKeyFrame \<noteq> 0"

definition IsSessionMeta :: "FrameHeader \<Rightarrow> bool" where
  "IsSessionMeta h \<longleftrightarrow> PTSAndFlags h AND PacketFlagSession \<noteq> 0"

record SessionMeta =
  sm_Width :: u32
  sm_Height :: u32
  sm_IsClientResize :: bool

record VideoCodecMeta =
  vcm_CodecID :: u32
  vcm_Width :: u32
  vcm_Height :: u32

text \<open>The flags are single bits, the PTS the 61 bits below them.\<close>

lemma and_push_bit_1: "w AND push_bit k 1 \<noteq> 0 \<longleftrightarrow> k < LENGTH('a) \<and> bit (w :: 'a::len word) k"
proof -
  have "w AND push_bit k 1 = (if k < LENGTH('a) \<and> bit w k then push_bit k 1 else 0)"
    by (rule bit_word_eqI) (auto simp: bit_simps)
  moreover have "push_bit k 1 \<noteq> (0 :: 'a word)" if "k < LENGTH('a)"
    using that by (metis bit_0_eq bit_1_0 bit_push_bit_iff bot_apply bot_bool_def diff_self_eq_0 le_refl
        possible_bit_word)
  ultimately show ?thesis by auto
qed

lemma flag_bits:
  "IsSessionMeta h \<longleftrightarrow> bit (PTSAndFlags h) 63"
  "IsConfig h \<longleftrightarrow> bit (PTSAndFlags h) 62"
  "IsKeyFrame h \<longleftrightarrow> bit (PTSAndFlags h) 61"
  unfolding IsSessionMeta_def IsConfig_def IsKeyFrame_def PacketFlagSession_def PacketFlagConfig_def
    PacketFlagKeyFrame_def and_push_bit_1 by simp_all

section \<open>Reading the streams\<close>

datatype read_error =
    ReadVideoHandshake | ReadVideoCodec | ReadAudioCodec
  | AudioDisabled | AudioConfigError
  | ReadHeader | SizeZero | SizeLimit u32 | ReadPayload

text \<open>\<open>io.ReadFull\<close> into a slice of \<open>n\<close> bytes: the bytes read and those left.\<close>

definition ReadFull :: "nat \<Rightarrow> bytes \<Rightarrow> (bytes \<times> bytes) option" where
  "ReadFull n s = (if n \<le> length s then Some (take n s, drop n s) else None)"

lemma ReadFull_append [simp]: "length a = n \<Longrightarrow> ReadFull n (a @ s) = Some (a, s)"
  by (simp add: ReadFull_def)

lemma ReadFull_Some: "ReadFull n s = Some (a, r) \<longleftrightarrow> s = a @ r \<and> length a = n"
  by (auto simp: ReadFull_def)

definition ReadVideoCodecID :: "bytes \<Rightarrow> (read_error + u32) \<times> bytes" where
  "ReadVideoCodecID s =
     (case ReadFull 65 s of
        None \<Rightarrow> (Inl ReadVideoHandshake, [])
      | Some (_, s1) \<Rightarrow>
          (case ReadFull 4 s1 of
             None \<Rightarrow> (Inl ReadVideoCodec, [])
           | Some (buf, s2) \<Rightarrow> (Inr (the (get_u32 buf)), s2)))"

definition ReadAudioCodecID :: "bytes \<Rightarrow> (read_error + u32) \<times> bytes" where
  "ReadAudioCodecID s =
     (case ReadFull 4 s of
        None \<Rightarrow> (Inl ReadAudioCodec, [])
      | Some (buf, s1) \<Rightarrow>
          (let codecID = the (get_u32 buf)
           in if codecID = DisableStreamCode then (Inl AudioDisabled, s1)
              else if codecID = DisableStreamCodeError then (Inl AudioConfigError, s1)
              else (Inr codecID, s1)))"

text \<open>
  \<open>ReadPacket\<close>: the header, then the payload (\<open>nil\<close> for session metadata) and the session
  metadata (\<open>nil\<close> otherwise).  The reads \<open>header[i:j]\<close> are of a 12-byte slice, so the big-endian
  reads never panic; an error ends the use of the stream.
\<close>

definition ReadPacket ::
  "bytes \<Rightarrow> (read_error + FrameHeader \<times> bytes option \<times> SessionMeta option) \<times> bytes" where
  "ReadPacket s =
     (case ReadFull 12 s of
        None \<Rightarrow> (Inl ReadHeader, [])
      | Some (header, s1) \<Rightarrow>
          (let fh = \<lparr>PTSAndFlags = the (get_u64 (take 8 header)),
                     PacketSize = the (get_u32 (drop 8 header))\<rparr>
           in if IsSessionMeta fh then
                (let flags = the (get_u32 (take 4 header))
                 in (Inr (fh, None, Some \<lparr>sm_Width = the (get_u32 (take 4 (drop 4 header))),
                                          sm_Height = the (get_u32 (drop 8 header)),
                                          sm_IsClientResize = (flags AND 1 \<noteq> 0)\<rparr>), s1))
              else if PacketSize fh = 0 then (Inl SizeZero, s1)
              else if 50000000 < PacketSize fh then (Inl (SizeLimit (PacketSize fh)), s1)
              else (case ReadFull (unat (PacketSize fh)) s1 of
                      None \<Rightarrow> (Inl ReadPayload, [])
                    | Some (payload, s2) \<Rightarrow> (Inr (fh, Some payload, None), s2))))"

text \<open>
  The wire format, as the device writes it: a media packet and a session-metadata packet.
\<close>

datatype wire_packet = Media u64 bytes | Meta bool u32 u32

definition session_word :: "bool \<Rightarrow> u32" where
  "session_word resize = (if resize then 0x80000001 else 0x80000000)"

fun wire :: "wire_packet \<Rightarrow> bytes" where
  "wire (Media pf payload) = put_u64 pf @ put_u32 (of_nat (length payload)) @ payload"
| "wire (Meta resize w h) = put_u32 (session_word resize) @ put_u32 w @ put_u32 h"

fun wire_ok :: "wire_packet \<Rightarrow> bool" where
  "wire_ok (Media pf payload) \<longleftrightarrow> \<not> bit pf 63 \<and> payload \<noteq> [] \<and> length payload \<le> 50000000"
| "wire_ok (Meta _ _ _) \<longleftrightarrow> True"

fun packet_of :: "wire_packet \<Rightarrow> FrameHeader \<times> bytes option \<times> SessionMeta option" where
  "packet_of (Media pf payload) =
     (\<lparr>PTSAndFlags = pf, PacketSize = of_nat (length payload)\<rparr>, Some payload, None)"
| "packet_of (Meta resize w h) =
     (\<lparr>PTSAndFlags = the (get_u64 (put_u32 (session_word resize) @ put_u32 w)), PacketSize = h\<rparr>,
      None, Some \<lparr>sm_Width = w, sm_Height = h, sm_IsClientResize = resize\<rparr>)"

lemma byte_bit_high [simp]: "8 \<le> n \<Longrightarrow> \<not> bit (b :: byte) n"
  using bit_imp_le_length [of b n] by auto

lemma bit_63_get_u64: "8 \<le> length bs \<Longrightarrow> bit (the (get_u64 bs)) 63 \<longleftrightarrow> bit (hd bs) 7"
  using bytes8_cases [of bs] by (auto simp: bit_simps)

lemma session_word_bits:
  "bit (hd (put_u32 (session_word resize))) 7" "session_word resize AND 1 \<noteq> 0 \<longleftrightarrow> resize"
  by (simp_all add: session_word_def put_u32_def)

lemma length_payload_word:
  assumes "length payload \<le> 50000000"
  shows "unat (of_nat (length payload) :: u32) = length payload"
    and "\<not> 50000000 < (of_nat (length payload) :: u32)"
    and "(of_nat (length payload) :: u32) = 0 \<longleftrightarrow> payload = []"
proof -
  show eq: "unat (of_nat (length payload) :: u32) = length payload"
    using assms by (simp add: unat_of_nat)
  show "\<not> 50000000 < (of_nat (length payload) :: u32)"
    using assms by (simp add: word_less_nat_alt eq)
  show "(of_nat (length payload) :: u32) = 0 \<longleftrightarrow> payload = []"
    by (simp only: unat_0_iff [symmetric] eq length_0_conv)
qed

lemma ReadPacket_wire:
  assumes "wire_ok p"
  shows "ReadPacket (wire p @ rest) = (Inr (packet_of p), rest)"
proof (cases p)
  case (Media pf payload)
  let ?hdr = "put_u64 pf @ put_u32 (of_nat (length payload))"
  have "ReadFull 12 (wire p @ rest) = Some (?hdr, payload @ rest)"
    using ReadFull_append [of ?hdr 12 "payload @ rest"] by (simp add: Media)
  moreover have "take 8 ?hdr = put_u64 pf" "drop 8 ?hdr = put_u32 (of_nat (length payload))"
    by simp_all
  ultimately show ?thesis
    using assms by (simp add: Media ReadPacket_def Let_def codec flag_bits length_payload_word)
next
  case (Meta resize w h)
  let ?hdr = "put_u32 (session_word resize) @ put_u32 w @ put_u32 h"
  have "ReadFull 12 (wire p @ rest) = Some (?hdr, rest)"
    using ReadFull_append [of ?hdr 12 rest] by (simp add: Meta)
  moreover have "take 8 ?hdr = put_u32 (session_word resize) @ put_u32 w"
    "drop 8 ?hdr = put_u32 h" "take 4 ?hdr = put_u32 (session_word resize)"
    "take 4 (drop 4 ?hdr) = put_u32 w"
    by simp_all
  moreover have "bit (the (get_u64 (put_u32 (session_word resize) @ put_u32 w))) 63"
    using session_word_bits(1) [of resize]
    by (subst bit_63_get_u64) (simp_all add: put_u32_def)
  ultimately show ?thesis
    by (simp add: Meta ReadPacket_def Let_def codec flag_bits session_word_bits)
qed

text \<open>The packets of a stream until its end or the first error, as a forwarder reads them.\<close>

function read_packets :: "bytes \<Rightarrow> (FrameHeader \<times> bytes option \<times> SessionMeta option) list \<times> read_error" where
  "read_packets s =
     (case ReadPacket s of
        (Inl e, _) \<Rightarrow> ([], e)
      | (Inr p, s') \<Rightarrow> if length s' < length s then (let (ps, e) = read_packets s' in (p # ps, e)) else ([], ReadHeader))"
  by pat_completeness auto
termination
  by (relation "measure length") auto

declare read_packets.simps [simp del]

lemma ReadPacket_progress: "ReadPacket s = (Inr p, s') \<Longrightarrow> length s' + 12 \<le> length s"
  by (auto simp: ReadPacket_def Let_def ReadFull_Some split: option.splits if_splits)

lemma read_packets_unfold:
  "read_packets s =
     (case ReadPacket s of
        (Inl e, _) \<Rightarrow> ([], e)
      | (Inr p, s') \<Rightarrow> (let (ps, e) = read_packets s' in (p # ps, e)))"
  using ReadPacket_progress [of s]
  by (subst read_packets.simps) (fastforce split: prod.splits sum.splits)

section \<open>Properties of the framing\<close>

lemma read_packets_wire:
  "list_all wire_ok ps \<Longrightarrow> read_packets (concat (map wire ps)) = (map packet_of ps, ReadHeader)"
proof (induction ps)
  case Nil
  show ?case by (subst read_packets_unfold) (simp add: ReadPacket_def ReadFull_def)
next
  case (Cons p ps)
  then show ?case by (subst read_packets_unfold) (simp add: ReadPacket_wire)
qed

text \<open>
  C35. The reader recovers the stream the device wrote: from the concatenation of well-formed
  media and session-metadata packets it reads exactly these packets in order, with their header
  words, payloads and sizes, and then reports the end of the stream.
\<close>

theorem read_packets_roundtrip:
  "list_all wire_ok ps \<Longrightarrow> read_packets (concat (map wire ps)) = (map packet_of ps, ReadHeader)"
  by (rule read_packets_wire)

theorem read_packets_roundtrip_witness:
  "read_packets (concat (map wire [Meta False 720 1280, Media 0x2000000000000010 [0, 0, 0, 1, 0x65]]))
   = (map packet_of [Meta False 720 1280, Media 0x2000000000000010 [0, 0, 0, 1, 0x65]], ReadHeader)"
  by (rule read_packets_roundtrip) simp

end
