(* ===== verification/Forwarding.thy ===== *)
theory Forwarding
  imports Protocol AnnexB
begin

text \<open>
  The media forwarders of \<open>agent/internal/gateway/session.go\<close>: \<open>forwardVideo\<close> and
  \<open>forwardAudio\<close> with the PTS normalizer, the buffer of a paused stream and the injection of the
  H.264 parameter sets.

  A forwarder is a fold of its loop body over the packets it reads; the list of samples is what it
  sends to its channel, in order.  \<open>forwardPaused\<close> belongs to another goroutine: its value is an
  input of each step.  When \<open>stopCh\<close> closes, the goroutine may stop before any of its sends, so
  what it then has sent is a prefix of the list.  The search for the SPS may run forever
  (theory \<open>AnnexB\<close>): the step is then \<open>None\<close>.
\<close>

section \<open>Joining the parameter sets and a frame\<close>

definition ends_with_start :: "bytes \<Rightarrow> bool" where
  "ends_with_start c \<longleftrightarrow>
     4 \<le> length c \<and> drop (length c - 4) c = [0, 0, 0, 1]
     \<or> 3 \<le> length c \<and> drop (length c - 3) c = [0, 0, 1]"

definition mergeConfigNAL :: "bytes \<Rightarrow> bytes \<Rightarrow> bytes" where
  "mergeConfigNAL configNAL payload =
     configNAL @ (if ends_with_start configNAL then [] else [0, 0, 0, 1]) @ payload"

definition annexb_payload :: "bytes \<Rightarrow> bytes" where
  "annexb_payload payload =
     (if 4 \<le> length payload \<and> take 4 payload = [0, 0, 0, 1] then payload
      else if 3 \<le> length payload \<and> take 3 payload = [0, 0, 1] then payload
      else [0, 0, 0, 1] @ payload)"

section \<open>The PTS normalizer\<close>

record ptsNormalizer =
  pn_started :: bool
  pn_base :: int
  pn_lastNorm :: int
  pn_lastRaw :: int

definition zero_ptsNormalizer :: ptsNormalizer where
  "zero_ptsNormalizer = \<lparr>pn_started = False, pn_base = 0, pn_lastNorm = 0, pn_lastRaw = 0\<rparr>"

definition normalize :: "duration \<Rightarrow> ptsNormalizer \<Rightarrow> duration \<times> ptsNormalizer" where
  "normalize r n =
     (if \<not> pn_started n then
        (0, n\<lparr>pn_started := True, pn_base := r, pn_lastRaw := r, pn_lastNorm := 0\<rparr>)
      else
        let base = (if r < pn_lastRaw n
                    then wrap64 (wrap64 (r - pn_lastNorm n) - 16 * millisecond)
                    else pn_base n);
            norm0 = wrap64 (r - base);
            norm = (if norm0 < pn_lastNorm n then pn_lastNorm n else norm0)
        in (norm, n\<lparr>pn_base := base, pn_lastRaw := r, pn_lastNorm := norm\<rparr>))"

text \<open>The outputs for a sequence of device time stamps.\<close>

fun normalize_all :: "duration list \<Rightarrow> ptsNormalizer \<Rightarrow> duration list" where
  "normalize_all [] n = []"
| "normalize_all (r # rs) n = (let (p, n') = normalize r n in p # normalize_all rs n')"

text \<open>
  What it computes: the first output is 0; later ones advance with the device's clock, and by
  16 ms where the device's clock went back.
\<close>

fun pts_spec :: "duration \<Rightarrow> duration \<Rightarrow> duration list \<Rightarrow> duration list" where
  "pts_spec last_out last_raw [] = []"
| "pts_spec last_out last_raw (r # rs) =
     (let p = last_out + (if r < last_raw then 16 * millisecond else r - last_raw)
      in p # pts_spec p r rs)"

lemma normalize_mono:
  assumes "normalize r n = (p, n')"
  shows "pn_lastNorm n' = p \<and> pn_started n' \<and> (pn_started n \<longrightarrow> pn_lastNorm n \<le> p)"
  using assms by (auto simp: normalize_def Let_def split: if_splits)

lemma normalize_all_sorted:
  "pn_started n \<Longrightarrow> sorted (pn_lastNorm n # normalize_all rs n)"
proof (induction rs arbitrary: n)
  case (Cons r rs)
  obtain p n' where n': "normalize r n = (p, n')" by fastforce
  from normalize_mono [OF this] Cons.prems Cons.IH [of n'] show ?case
    by (auto simp: n')
qed simp

text \<open>While nothing overflows, the base is the distance of the two clocks.\<close>

lemma normalize_step:
  assumes "pn_started n" "pn_base n = pn_lastRaw n - pn_lastNorm n"
    and "0 \<le> r" "r < B" "0 \<le> pn_lastRaw n" "pn_lastRaw n < B" "16 * millisecond \<le> B"
    and "0 \<le> pn_lastNorm n" "pn_lastNorm n + B < 2 ^ 63" "B < 2 ^ 62"
  shows "normalize r n =
    (pn_lastNorm n + (if r < pn_lastRaw n then 16 * millisecond else r - pn_lastRaw n),
     n\<lparr>pn_base := r - (pn_lastNorm n + (if r < pn_lastRaw n then 16 * millisecond else r - pn_lastRaw n)),
       pn_lastRaw := r,
       pn_lastNorm := pn_lastNorm n + (if r < pn_lastRaw n then 16 * millisecond else r - pn_lastRaw n)\<rparr>)"
proof (cases "r < pn_lastRaw n")
  case True
  have "wrap64 (r - pn_lastNorm n) = r - pn_lastNorm n"
    using assms by (intro wrap64_id) auto
  moreover have "wrap64 (r - pn_lastNorm n - 16 * millisecond) = r - pn_lastNorm n - 16 * millisecond"
    using assms by (intro wrap64_id) auto
  ultimately have base:
    "wrap64 (wrap64 (r - pn_lastNorm n) - 16 * millisecond) = r - pn_lastNorm n - 16 * millisecond"
    by (simp only:)
  have "r - (r - pn_lastNorm n - 16 * millisecond) = pn_lastNorm n + 16 * millisecond" by simp
  then have norm: "wrap64 (r - (r - pn_lastNorm n - 16 * millisecond)) = pn_lastNorm n + 16 * millisecond"
    using assms by (simp only:) (intro wrap64_id, auto)
  have "r - pn_lastNorm n - 16 * millisecond = r - (pn_lastNorm n + 16 * millisecond)" by simp
  with True assms(1) base norm show ?thesis
    unfolding normalize_def Let_def by (simp only: if_True if_False not_True_eq_False) simp
next
  case False
  have "r - pn_base n = pn_lastNorm n + (r - pn_lastRaw n)" using assms(2) by simp
  then have "wrap64 (r - pn_base n) = pn_lastNorm n + (r - pn_lastRaw n)"
    using False assms by (simp only:) (intro wrap64_id, auto)
  with False assms(1,2) show ?thesis
    by (cases n) (simp add: normalize_def Let_def)
qed

lemma normalize_all_spec:
  assumes "pn_started n" "pn_base n = pn_lastRaw n - pn_lastNorm n"
    and "\<forall>r \<in> set rs. 0 \<le> r \<and> r < B" "0 \<le> pn_lastRaw n" "pn_lastRaw n < B"
    and "16 * millisecond \<le> B" "B < 2 ^ 62"
    and "0 \<le> pn_lastNorm n" "pn_lastNorm n + int (length rs) * B < 2 ^ 63"
  shows "normalize_all rs n = pts_spec (pn_lastNorm n) (pn_lastRaw n) rs"
  using assms
proof (induction rs arbitrary: n)
  case (Cons r rs)
  let ?d = "if r < pn_lastRaw n then 16 * millisecond else r - pn_lastRaw n"
  have d: "0 \<le> ?d" "?d \<le> B" using Cons.prems by auto
  have "pn_lastNorm n + B + int (length rs) * B < 2 ^ 63"
    using Cons.prems(9) by (simp add: algebra_simps)
  moreover have "0 \<le> int (length rs) * B" using Cons.prems by simp
  ultimately have room: "pn_lastNorm n + B < 2 ^ 63"
    "pn_lastNorm n + ?d + int (length rs) * B < 2 ^ 63" using d by linarith+
  have step: "normalize r n = (pn_lastNorm n + ?d,
     n\<lparr>pn_base := r - (pn_lastNorm n + ?d), pn_lastRaw := r, pn_lastNorm := pn_lastNorm n + ?d\<rparr>)"
    using Cons.prems room by (intro normalize_step [where B = B]) auto
  show ?case
    unfolding normalize_all.simps pts_spec.simps step Let_def prod.case
    using Cons.prems room d by (subst Cons.IH) auto
qed simp


text \<open>
  The normalizer makes every device clock a usable stream clock.  For any time stamps
  whatsoever, overflow included, its outputs start at 0 and never decrease; and for time stamps
  below a bound the stream cannot overflow, the outputs advance exactly as the device's clock
  does, with a step of 16 ms across each encoder reset.
\<close>

theorem normalize_clock:
  "sorted (normalize_all rs zero_ptsNormalizer)
   \<and> (rs \<noteq> [] \<longrightarrow> hd (normalize_all rs zero_ptsNormalizer) = 0)
   \<and> ((\<forall>r \<in> set rs. 0 \<le> r \<and> r < B) \<and> 16 * millisecond \<le> B \<and> int (length rs) * B < 2 ^ 62
       \<and> rs \<noteq> [] \<longrightarrow>
        normalize_all rs zero_ptsNormalizer = 0 # pts_spec 0 (hd rs) (tl rs))"
proof (cases rs)
  case (Cons r rs')
  let ?n = "zero_ptsNormalizer\<lparr>pn_started := True, pn_base := r, pn_lastRaw := r, pn_lastNorm := 0\<rparr>"
  have eq: "normalize_all rs zero_ptsNormalizer = 0 # normalize_all rs' ?n"
    by (simp add: Cons normalize_def zero_ptsNormalizer_def)
  have sorted: "sorted (0 # normalize_all rs' ?n)"
    using normalize_all_sorted [of ?n rs'] by simp
  have spec: "normalize_all rs' ?n = pts_spec 0 r rs'"
    if "\<forall>r \<in> set rs. 0 \<le> r \<and> r < B" "16 * millisecond \<le> B" "int (length rs) * B < 2 ^ 62"
  proof -
    have "int (length rs) * B = B + int (length rs') * B" by (simp add: Cons algebra_simps)
    moreover have "0 \<le> int (length rs') * B" using that(2) by simp
    moreover have "(2 :: int) ^ 62 < 2 ^ 63" by simp
    ultimately have "B < 2 ^ 62" "int (length rs') * B < 2 ^ 63" using that by linarith+
    with that show ?thesis by (subst normalize_all_spec [where B = B]) (auto simp: Cons)
  qed
  have hd_tl: "hd rs = r" "tl rs = rs'" by (simp_all add: Cons)
  show ?thesis
    unfolding eq hd_tl list.sel list.inject using sorted spec by blast
qed simp

text \<open>Three frames 33 ms apart, an encoder reset and one more frame.\<close>

lemma normalize_clock_witness:
  "normalize_all [5000000000, 5033000000, 5066000000, 0, 40000000] zero_ptsNormalizer
     = [0, 33000000, 66000000, 82000000, 122000000]"
proof -
  let ?rs = "[5000000000, 5033000000, 5066000000, 0, 40000000] :: duration list"
  have "normalize_all ?rs zero_ptsNormalizer = 0 # pts_spec 0 (hd ?rs) (tl ?rs)"
    by (rule normalize_clock [of ?rs 10000000000, THEN conjunct2, THEN conjunct2, THEN mp]) simp
  then show ?thesis by (simp only:) simp
qed

section \<open>The buffer of a paused stream\<close>

record Sample =
  sa_Data :: bytes
  sa_PTS :: duration
  sa_Duration :: duration
  sa_KeyFrame :: bool

definition maxVideoDuration :: duration where "maxVideoDuration = 4700 * millisecond"
definition maxPausedVideoFrames :: nat where "maxPausedVideoFrames = 300"

definition bufferPausedVideo :: "Sample \<Rightarrow> Sample list \<Rightarrow> Sample list" where
  "bufferPausedVideo sample buf =
     (let buf1 = (if sa_KeyFrame sample then [] else buf) @ [sample]
      in if length buf1 > maxPausedVideoFrames
         then drop (length buf1 - maxPausedVideoFrames div 2) buf1
         else buf1)"

text \<open>The samples to send; the buffer is empty afterwards.\<close>

definition flushPausedVideo :: "bytes \<Rightarrow> Sample list \<Rightarrow> Sample list" where
  "flushPausedVideo configNAL buf =
     (case find sa_KeyFrame buf of
        None \<Rightarrow> []
      | Some sample \<Rightarrow>
          [if configNAL \<noteq> [] then sample\<lparr>sa_Data := mergeConfigNAL configNAL (sa_Data sample)\<rparr>
           else sample])"

lemma bufferPausedVideo_length:
  "length buf \<le> maxPausedVideoFrames \<Longrightarrow> length (bufferPausedVideo s buf) \<le> maxPausedVideoFrames"
  by (simp add: bufferPausedVideo_def Let_def maxPausedVideoFrames_def)

text \<open>After a keyframe the buffer holds it at its head, until the first trim drops it.\<close>

lemma buffer_group:
  assumes "\<not> sa_KeyFrame p"
  shows "bufferPausedVideo p buf =
    (if length buf < 300 then buf @ [p] else drop (length buf - 149) (buf @ [p]))"
  using assms by (simp add: bufferPausedVideo_def maxPausedVideoFrames_def)

lemma buffer_appends:
  "\<forall>p \<in> set ps. \<not> sa_KeyFrame p \<Longrightarrow> length buf + length ps \<le> 300 \<Longrightarrow>
    fold bufferPausedVideo ps buf = buf @ ps"
  by (induction ps arbitrary: buf) (simp_all add: buffer_group)

lemma buffer_no_key:
  "\<forall>p \<in> set ps. \<not> sa_KeyFrame p \<Longrightarrow> \<forall>p \<in> set buf. \<not> sa_KeyFrame p \<Longrightarrow>
    \<forall>p \<in> set (fold bufferPausedVideo ps buf). \<not> sa_KeyFrame p"
proof (induction ps arbitrary: buf)
  case (Cons p ps)
  have "\<forall>q \<in> set (bufferPausedVideo p buf). \<not> sa_KeyFrame q"
    using Cons.prems by (auto simp: buffer_group dest!: in_set_dropD)
  with Cons show ?case by simp
qed simp

lemma flush_no_key: "\<forall>p \<in> set buf. \<not> sa_KeyFrame p \<Longrightarrow> flushPausedVideo c buf = []"
proof -
  assume "\<forall>p \<in> set buf. \<not> sa_KeyFrame p"
  then have "find sa_KeyFrame buf = None" by (auto simp: find_None_iff)
  then show ?thesis by (simp add: flushPausedVideo_def)
qed

text \<open>
  What a paused stream resumes with.  When fewer than 300 frames follow the last keyframe, the
  flush sends exactly that keyframe; from the 300th on, the trim has dropped it with the older half
  of the buffer and the flush sends nothing, although the comment of the trim promises to keep a
  keyframe.
\<close>

theorem paused_stream_resume:
  assumes "sa_KeyFrame k" "\<forall>p \<in> set ps. \<not> sa_KeyFrame p"
  shows "flushPausedVideo c (fold bufferPausedVideo (k # ps) buf)
    = (if length ps < 300
       then [if c \<noteq> [] then k\<lparr>sa_Data := mergeConfigNAL c (sa_Data k)\<rparr> else k]
       else [])"
proof -
  have k: "bufferPausedVideo k buf = [k]"
    using assms(1) by (simp add: bufferPausedVideo_def maxPausedVideoFrames_def)
  show ?thesis
  proof (cases "length ps < 300")
    case True
    with assms(2) have "fold bufferPausedVideo ps [k] = [k] @ ps"
      by (intro buffer_appends) simp_all
    with True k assms(1) show ?thesis by (simp add: flushPausedVideo_def)
  next
    case False
    define qs rs where "qs = take 299 ps" and "rs = drop 299 ps"
    have ps: "ps = qs @ rs" "length qs = 299" using False by (simp_all add: qs_def rs_def)
    obtain r rs' where rs: "rs = r # rs'" using False ps by (cases rs) simp_all
    have nk: "\<forall>p \<in> set qs. \<not> sa_KeyFrame p" "\<not> sa_KeyFrame r" "\<forall>p \<in> set rs'. \<not> sa_KeyFrame p"
      using assms(2) by (auto simp: ps rs)
    have "fold bufferPausedVideo qs [k] = [k] @ qs"
      using nk ps by (intro buffer_appends) simp_all
    then have "fold bufferPausedVideo ps [k]
        = fold bufferPausedVideo rs' (bufferPausedVideo r (k # qs))"
      by (simp add: ps(1) rs)
    moreover have "\<forall>p \<in> set (bufferPausedVideo r (k # qs)). \<not> sa_KeyFrame p"
    proof -
      have "bufferPausedVideo r (k # qs) = drop 150 (qs @ [r])"
        using nk ps(2) by (simp add: buffer_group drop_Cons')
      with nk show ?thesis by (auto dest: in_set_dropD)
    qed
    ultimately have "\<forall>p \<in> set (fold bufferPausedVideo ps [k]). \<not> sa_KeyFrame p"
      using buffer_no_key [OF nk(3)] by simp
    with False k show ?thesis by (simp add: flush_no_key)
  qed
qed

text \<open>A ten-second keyframe interval at 30 frames a second: nothing to resume with.\<close>

lemma paused_stream_resume_witness:
  "flushPausedVideo [1] (fold bufferPausedVideo
     (\<lparr>sa_Data = [0x65], sa_PTS = 0, sa_Duration = 1, sa_KeyFrame = True\<rparr>
      # replicate 300 \<lparr>sa_Data = [0x41], sa_PTS = 1, sa_Duration = 1, sa_KeyFrame = False\<rparr>) []) = []"
  by (subst paused_stream_resume) simp_all


section \<open>The video forwarder\<close>

text \<open>
  The local variables of \<open>forwardVideo\<close>, the fields of the session it writes and the samples
  sent so far.
\<close>

record vfwd =
  vf_configNAL :: bytes
  vf_lastRawPTS :: duration
  vf_first :: bool
  vf_profileProbed :: bool
  vf_lastConfigNAL :: bytes
  vf_profileLevelID :: string
  vf_profileReady :: bool
  vf_videoNorm :: ptsNormalizer
  vf_pausedVideoBuf :: "Sample list"
  vf_sent :: "Sample list"

definition zero_vfwd :: vfwd where
  "zero_vfwd = \<lparr>vf_configNAL = [], vf_lastRawPTS = 0, vf_first = True, vf_profileProbed = False,
     vf_lastConfigNAL = [], vf_profileLevelID = '''', vf_profileReady = False,
     vf_videoNorm = zero_ptsNormalizer, vf_pausedVideoBuf = [], vf_sent = []\<rparr>"

type_synonym packet = "FrameHeader \<times> bytes option \<times> SessionMeta option"

text \<open>\<open>setProfileLevelID\<close> stores the value each time and closes the ready channel once.\<close>

definition setProfileLevelID :: "string \<Rightarrow> vfwd \<Rightarrow> vfwd" where
  "setProfileLevelID plid v = v\<lparr>vf_profileLevelID := plid, vf_profileReady := True\<rparr>"

definition probe_profile :: "bytes \<Rightarrow> vfwd \<Rightarrow> vfwd option" where
  "probe_profile nal v =
     map_option
       (\<lambda>plid. setProfileLevelID (if plid \<noteq> '''' then NormalizeProfileLevelID plid else ''42e01f'')
                 (v\<lparr>vf_profileProbed := True\<rparr>))
       (tryExtractProfileLevelID nal)"

text \<open>The pacing of a frame: the difference to the frame before it, when that is plausible.\<close>

definition video_duration :: "duration \<Rightarrow> vfwd \<Rightarrow> duration" where
  "video_duration rawPTS v =
     (let diff = wrap64 (rawPTS - vf_lastRawPTS v)
      in if \<not> vf_first v \<and> diff > 0 \<and> diff < maxVideoDuration then diff else 33 * millisecond)"

text \<open>The part of the loop body that handles a frame.\<close>

definition video_frame :: "string \<Rightarrow> bool \<Rightarrow> FrameHeader \<Rightarrow> bytes \<Rightarrow> vfwd \<Rightarrow> vfwd" where
  "video_frame codec isPaused header payload v =
     (let rawPTS = PTS header;
          dur = video_duration rawPTS v;
          (pts, n) = normalize rawPTS (vf_videoNorm v);
          v1 = v\<lparr>vf_lastRawPTS := rawPTS, vf_first := False, vf_videoNorm := n\<rparr>;
          keyFrame = IsKeyFrame header;
          payload1 = (if codec = ''h264'' then annexb_payload payload else payload);
          sample = \<lparr>sa_Data = payload1, sa_PTS = pts, sa_Duration = dur, sa_KeyFrame = keyFrame\<rparr>
      in if isPaused then v1\<lparr>vf_pausedVideoBuf := bufferPausedVideo sample (vf_pausedVideoBuf v1)\<rparr>
         else
           let toSend = flushPausedVideo (vf_configNAL v1) (vf_pausedVideoBuf v1);
               configNAL = (if toSend \<noteq> [] then [] else vf_configNAL v1);
               effConfig = (if configNAL = [] \<and> keyFrame \<and> vf_lastConfigNAL v1 \<noteq> []
                            then vf_lastConfigNAL v1 else configNAL);
               payload2 = (if effConfig \<noteq> [] then mergeConfigNAL effConfig payload1 else payload1)
           in v1\<lparr>vf_pausedVideoBuf := [],
                 vf_configNAL := (if effConfig \<noteq> [] then [] else configNAL),
                 vf_sent := vf_sent v1 @ toSend @ [sample\<lparr>sa_Data := payload2\<rparr>]\<rparr>)"

definition video_step :: "string \<Rightarrow> bool \<Rightarrow> packet \<Rightarrow> vfwd \<Rightarrow> vfwd option" where
  "video_step codec isPaused pkt v =
     (let (header, body, sessionMeta) = pkt;
          payload = (case body of Some p \<Rightarrow> p | None \<Rightarrow> []);
          isH264 = (codec = ''h264'')
      in if sessionMeta \<noteq> None then Some v
         else if IsConfig header \<and> isH264 then
           (let v1 = v\<lparr>vf_configNAL := payload, vf_lastConfigNAL := payload\<rparr>
            in if vf_profileProbed v1 then Some v1 else probe_profile payload v1)
         else
           map_option (video_frame codec isPaused header payload)
             (if isH264 \<and> \<not> vf_profileProbed v then probe_profile payload v else Some v))"

text \<open>
  The loop over a stream; \<open>paused i\<close> is what \<open>forwardPaused\<close> is when packet \<open>i\<close> is handled.
\<close>

fun video_run :: "string \<Rightarrow> (bool \<times> packet) list \<Rightarrow> vfwd \<Rightarrow> vfwd option" where
  "video_run codec [] v = Some v"
| "video_run codec ((isPaused, pkt) # es) v =
     Option.bind (video_step codec isPaused pkt v) (video_run codec es)"

definition forwardVideo :: "string \<Rightarrow> (nat \<Rightarrow> bool) \<Rightarrow> bytes \<Rightarrow> vfwd \<Rightarrow> vfwd option" where
  "forwardVideo codec paused stream v =
     (case ReadVideoCodecID stream of
        (Inl _, _) \<Rightarrow> Some v
      | (Inr _, rest) \<Rightarrow>
          (let v1 = (if codec \<noteq> ''h264''
                     then setProfileLevelID codec (v\<lparr>vf_profileProbed := True\<rparr>) else v);
               packets = fst (read_packets rest)
           in video_run codec (zip (map paused [0..<length packets]) packets) v1))"

section \<open>The audio forwarder\<close>

record afwd =
  af_audioNorm :: ptsNormalizer
  af_sent :: "Sample list"

definition audio_step :: "bool \<Rightarrow> packet \<Rightarrow> afwd \<Rightarrow> afwd" where
  "audio_step isPaused pkt a =
     (let (header, body, _) = pkt
      in if IsConfig header then a
         else if isPaused then a
         else let (pts, n) = normalize (PTS header) (af_audioNorm a)
              in a\<lparr>af_audioNorm := n,
                   af_sent := af_sent a @
                     [\<lparr>sa_Data = (case body of Some p \<Rightarrow> p | None \<Rightarrow> []), sa_PTS = pts,
                       sa_Duration = 20 * millisecond, sa_KeyFrame = False\<rparr>]\<rparr>)"

fun audio_event :: "bool \<times> packet \<Rightarrow> afwd \<Rightarrow> afwd" where
  "audio_event (isPaused, pkt) a = audio_step isPaused pkt a"

definition forwardAudio :: "(nat \<Rightarrow> bool) \<Rightarrow> bytes \<Rightarrow> afwd \<Rightarrow> afwd" where
  "forwardAudio paused stream a =
     (case ReadAudioCodecID stream of
        (Inl _, _) \<Rightarrow> a
      | (Inr _, rest) \<Rightarrow>
          (let packets = fst (read_packets rest)
           in fold audio_event (zip (map paused [0..<length packets]) packets) a))"


section \<open>What the video stream keeps\<close>

text \<open>
  The samples sent and those buffered form one stream: its time stamps never decrease and none is
  ahead of the normalizer; the buffer is bounded; every frame is paced in the open interval up to
  4.7 s; and a parameter set still to be sent is the last one received.
\<close>

definition timeline :: "vfwd \<Rightarrow> Sample list" where
  "timeline v = vf_sent v @ vf_pausedVideoBuf v"

definition video_inv :: "vfwd \<Rightarrow> bool" where
  "video_inv v \<longleftrightarrow>
     sorted (map sa_PTS (timeline v))
     \<and> 0 \<le> pn_lastNorm (vf_videoNorm v)
     \<and> (\<forall>s \<in> set (timeline v). 0 \<le> sa_PTS s \<and> sa_PTS s \<le> pn_lastNorm (vf_videoNorm v)
          \<and> 0 < sa_Duration s \<and> sa_Duration s < maxVideoDuration)
     \<and> (timeline v \<noteq> [] \<longrightarrow> pn_started (vf_videoNorm v))
     \<and> length (vf_pausedVideoBuf v) \<le> maxPausedVideoFrames
     \<and> (vf_configNAL v \<noteq> [] \<longrightarrow> vf_configNAL v = vf_lastConfigNAL v)"

lemma video_inv_zero: "video_inv zero_vfwd"
  by (simp add: video_inv_def timeline_def zero_vfwd_def zero_ptsNormalizer_def)

lemma video_duration_bounds: "0 < video_duration r v" "video_duration r v < maxVideoDuration"
  by (auto simp: video_duration_def Let_def maxVideoDuration_def)

lemma video_inv_probe:
  "probe_profile nal v = Some v' \<Longrightarrow> video_inv v \<Longrightarrow> video_inv v'"
  by (auto simp: probe_profile_def setProfileLevelID_def video_inv_def timeline_def)

lemma probe_profile_fields:
  "probe_profile nal v = Some v' \<Longrightarrow>
     vf_configNAL v' = vf_configNAL v \<and> vf_lastConfigNAL v' = vf_lastConfigNAL v
     \<and> vf_sent v' = vf_sent v \<and> vf_pausedVideoBuf v' = vf_pausedVideoBuf v"
  by (auto simp: probe_profile_def setProfileLevelID_def)

lemma sorted_snoc: "sorted xs \<Longrightarrow> \<forall>x \<in> set xs. x \<le> y \<Longrightarrow> sorted (xs @ [y])"
  by (auto simp: sorted_append)

lemma bufferPausedVideo_suffix:
  "\<exists>n. bufferPausedVideo s buf = drop n (buf @ [s])"
proof -
  have "\<exists>m. (if sa_KeyFrame s then [] else buf) @ [s] = drop m (buf @ [s])"
    by (cases "sa_KeyFrame s") (auto intro: exI [of _ "length buf"] exI [of _ 0])
  then obtain m where m: "(if sa_KeyFrame s then [] else buf) @ [s] = drop m (buf @ [s])" ..
  show ?thesis
    unfolding bufferPausedVideo_def Let_def m by (auto simp del: drop_append)
qed

lemma sorted_append_drop: "sorted (xs @ ys) \<Longrightarrow> sorted (xs @ drop n ys)"
  by (auto simp: sorted_append sorted_wrt_drop dest: in_set_dropD)

lemma flushPausedVideo_cases:
  obtains (none) "flushPausedVideo c buf = []"
  | (idr) as s bs d where "buf = as @ s # bs" "sa_KeyFrame s"
      "flushPausedVideo c buf = [s\<lparr>sa_Data := d\<rparr>]"
proof (cases "find sa_KeyFrame buf")
  case None
  then show ?thesis using none by (simp add: flushPausedVideo_def)
next
  case (Some s)
  then have "s \<in> set buf" "sa_KeyFrame s" by (auto simp: find_Some_iff in_set_conv_nth)
  then obtain as bs where "buf = as @ s # bs" by (meson split_list)
  moreover have "flushPausedVideo c buf =
      [s\<lparr>sa_Data := if c \<noteq> [] then mergeConfigNAL c (sa_Data s) else sa_Data s\<rparr>]"
    using Some by (simp add: flushPausedVideo_def)
  ultimately show ?thesis using \<open>sa_KeyFrame s\<close> idr by blast
qed

lemma video_inv_frame:
  assumes "video_inv v"
  shows "video_inv (video_frame codec isPaused header payload v)"
proof -
  obtain pts n where n: "normalize (PTS header) (vf_videoNorm v) = (pts, n)" by fastforce
  note nm = normalize_mono [OF n]
  have pts: "0 \<le> pts"
    using assms nm n by (cases "pn_started (vf_videoNorm v)") (auto simp: video_inv_def normalize_def)
  have old: "\<forall>s \<in> set (timeline v). sa_PTS s \<le> pts"
  proof
    fix s assume s: "s \<in> set (timeline v)"
    then have "timeline v \<noteq> []" by auto
    with assms nm have "pn_lastNorm (vf_videoNorm v) \<le> pts" by (simp add: video_inv_def)
    moreover have "sa_PTS s \<le> pn_lastNorm (vf_videoNorm v)" using assms s by (simp add: video_inv_def)
    ultimately show "sa_PTS s \<le> pts" by simp
  qed
  define s where "s = \<lparr>sa_Data = (if codec = ''h264'' then annexb_payload payload else payload),
    sa_PTS = pts, sa_Duration = video_duration (PTS header) v, sa_KeyFrame = IsKeyFrame header\<rparr>"
  have srt: "sorted (map sa_PTS (vf_sent v) @ map sa_PTS (vf_pausedVideoBuf v @ [s]))"
  proof -
    have "\<forall>x \<in> set (map sa_PTS (timeline v)). x \<le> pts" using old by auto
    with assms sorted_snoc [of "map sa_PTS (timeline v)" pts] show ?thesis
      by (simp add: video_inv_def timeline_def s_def)
  qed
  note dur = video_duration_bounds [of "PTS header" v]
  show ?thesis
  proof (cases isPaused)
    case True
    obtain k where k: "bufferPausedVideo s (vf_pausedVideoBuf v) = drop k (vf_pausedVideoBuf v @ [s])"
      using bufferPausedVideo_suffix by blast
    have "length (bufferPausedVideo s (vf_pausedVideoBuf v)) \<le> maxPausedVideoFrames"
      using assms by (intro bufferPausedVideo_length) (simp add: video_inv_def)
    moreover have "sorted (map sa_PTS (vf_sent v) @ map sa_PTS (drop k (vf_pausedVideoBuf v @ [s])))"
      unfolding drop_map [symmetric] using srt by (rule sorted_append_drop)
    moreover have "video_frame codec isPaused header payload v =
        v\<lparr>vf_lastRawPTS := PTS header, vf_first := False, vf_videoNorm := n,
          vf_pausedVideoBuf := bufferPausedVideo s (vf_pausedVideoBuf v)\<rparr>"
      using True n by (simp add: video_frame_def Let_def s_def)
    ultimately show ?thesis
      using assms old nm dur k pts
      by (auto simp: video_inv_def timeline_def s_def dest!: in_set_dropD)
  next
    case False
    let ?fl = "flushPausedVideo (vf_configNAL v) (vf_pausedVideoBuf v)"
    obtain d c where frame: "video_frame codec isPaused header payload v =
        v\<lparr>vf_lastRawPTS := PTS header, vf_first := False, vf_videoNorm := n,
          vf_pausedVideoBuf := [], vf_configNAL := c, vf_sent := vf_sent v @ ?fl @ [s\<lparr>sa_Data := d\<rparr>]\<rparr>"
      and c: "c = [] \<or> c = vf_configNAL v"
      using False n by (auto simp: video_frame_def Let_def s_def)
    have fl: "sorted (map sa_PTS (vf_sent v @ ?fl @ [s]))
        \<and> (\<forall>x \<in> set ?fl. 0 \<le> sa_PTS x \<and> sa_PTS x \<le> pts \<and> 0 < sa_Duration x \<and> sa_Duration x < maxVideoDuration)"
    proof (cases rule: flushPausedVideo_cases [of "vf_configNAL v" "vf_pausedVideoBuf v"])
      case none
      with srt show ?thesis by (auto simp: sorted_append)
    next
      case (idr as x bs d)
      then have "x \<in> set (timeline v)" by (simp add: timeline_def)
      with assms old srt idr show ?thesis
        by (auto simp: sorted_append video_inv_def)
    qed
    then show ?thesis
      unfolding frame using assms old nm dur c pts
      by (auto simp: video_inv_def timeline_def s_def)
  qed
qed

lemma video_inv_step:
  assumes "video_inv v" "video_step codec isPaused pkt v = Some v'"
  shows "video_inv v'"
proof -
  obtain h b m where pkt: "pkt = (h, b, m)" by (cases pkt)
  have cfg: "video_inv (v\<lparr>vf_configNAL := p, vf_lastConfigNAL := p\<rparr>)" for p
    using assms(1) by (simp add: video_inv_def timeline_def)
  from assms show ?thesis
    by (auto simp: video_step_def Let_def pkt split: if_splits
        intro!: video_inv_frame intro: video_inv_probe cfg)
qed

text \<open>A run is a machine whose state is lost when the step runs forever.\<close>

fun video_event :: "string \<times> bool \<times> packet \<Rightarrow> vfwd option \<Rightarrow> vfwd option" where
  "video_event (codec, isPaused, pkt) v = Option.bind v (video_step codec isPaused pkt)"

lemma video_run_fold:
  "video_run codec es v = fold (\<lambda>e. video_event (codec, e)) es (Some v)"
proof -
  have None: "fold (\<lambda>e. video_event (codec, e)) es None = None" for es :: "(bool \<times> packet) list"
    by (induction es) auto
  show ?thesis
    by (induction es arbitrary: v) (auto split: option.splits simp: None bind_eq_Some_conv
        split: bind_splits)
qed

lemma pred_option_iff: "pred_option P x \<longleftrightarrow> (\<forall>y. x = Some y \<longrightarrow> P y)"
  by (cases x) auto

interpretation video: invariant_system "\<lambda>v. v = Some zero_vfwd" video_event "pred_option video_inv"
proof
  show "pred_option video_inv v" if "v = Some zero_vfwd" for v
    using that by (simp add: video_inv_zero)
  show "pred_option video_inv (video_event e v)" if "pred_option video_inv v" for e v
    using that by (cases e) (auto simp: pred_option_iff bind_eq_Some_conv intro: video_inv_step)
qed

lemma video_run_inv: "video_run codec es zero_vfwd = Some v \<Longrightarrow> video_inv v"
  using video.run_inv [of "Some zero_vfwd" "map (Pair codec) es"]
  by (simp add: video_run_fold fold_map comp_def)


lemma forwardVideo_inv:
  assumes "forwardVideo codec paused stream zero_vfwd = Some v"
  shows "video_inv v"
proof -
  have start: "video_inv (setProfileLevelID codec (zero_vfwd\<lparr>vf_profileProbed := True\<rparr>))"
    using video_inv_zero by (simp add: video_inv_def timeline_def setProfileLevelID_def)
  have run: "video_inv w \<Longrightarrow> video_run codec es w = Some w' \<Longrightarrow> video_inv w'" for es w w'
    using video.fold_inv [of "Some w" "map (Pair codec) es"]
    by (simp add: video_run_fold fold_map comp_def)
  show ?thesis
    using assms start video_inv_zero
    by (auto simp: forwardVideo_def Let_def split: prod.splits sum.splits if_splits intro: run)
qed

text \<open>
  C23. Whatever packets the device sends and however the stream is paused and resumed, the time
  stamps of the video samples sent never decrease, every sample is paced in the open interval up to
  4.7 s, and at most 300 frames are buffered.
\<close>

theorem video_timeline:
  "case forwardVideo codec paused stream zero_vfwd of
     None \<Rightarrow> True
   | Some v \<Rightarrow> sorted (map sa_PTS (vf_sent v))
       \<and> list_all (\<lambda>s. 0 < sa_Duration s \<and> sa_Duration s < maxVideoDuration) (vf_sent v)
       \<and> length (vf_pausedVideoBuf v) \<le> 300"
proof (cases "forwardVideo codec paused stream zero_vfwd")
  case (Some v)
  with forwardVideo_inv [OF Some] show ?thesis
    by (simp add: video_inv_def timeline_def sorted_append list_all_iff maxPausedVideoFrames_def)
qed simp

section \<open>Parameter sets\<close>

text \<open>
  C22. Once a parameter set has been received, every keyframe that is not buffered is sent with the
  last one in front of it, in Annex-B form.
\<close>

theorem keyframe_carries_config:
  assumes "video_run ''h264'' es zero_vfwd = Some v" "vf_lastConfigNAL v \<noteq> []"
    and "\<not> IsConfig header" "IsKeyFrame header"
    and "video_step ''h264'' False (header, Some payload, None) v = Some v'"
  shows "vf_sent v' \<noteq> []
    \<and> sa_Data (last (vf_sent v')) = mergeConfigNAL (vf_lastConfigNAL v) (annexb_payload payload)"
proof -
  have inv: "video_inv v" using assms(1) by (rule video_run_inv)
  obtain w where w: "v' = video_frame ''h264'' False header payload w"
      "vf_configNAL w = vf_configNAL v" "vf_lastConfigNAL w = vf_lastConfigNAL v"
    using assms(3,5) by (auto simp: video_step_def dest: probe_profile_fields split: if_splits)
  show ?thesis
    using inv assms(2,4) w(2,3)
    by (auto simp: w(1) video_frame_def Let_def video_inv_def split: prod.splits)
qed

text \<open>The search of the parameter set of a usual first packet.\<close>

lemma tryExtract_plain:
  assumes "nal \<noteq> []" "nal_type (hd nal) = 7" "4 \<le> length nal" "FindStartCode nal = None"
  shows "tryExtractProfileLevelID ([0, 0, 0, 1] @ nal)
    = Some (hex2 (nal ! 1) @ hex2 (nal ! 2) @ hex2 (nal ! 3))"
proof -
  have "FindSPSInAnnexB ([0, 0, 0, 1] @ nal) = Some (Some nal)"
    using assms by (simp add: FindSPSInAnnexB_def FindStartCode_4 sps_loop.simps [of nal] is_sps_def)
  with assms show ?thesis
    by (simp add: tryExtractProfileLevelID_def ExtractProfileLevelID_def)
qed

definition demo_sps :: bytes where
  "demo_sps = [0, 0, 0, 1] @ [0x67, 0x42, 0xC0, 0x1F]"

lemma demo_sps_plid: "tryExtractProfileLevelID demo_sps = Some ''42c01f''"
  unfolding demo_sps_def
  by (subst tryExtract_plain) (simp_all add: nal_type_def FindStartCode_def hex2_def hex_digit_def)

lemmas video_eval = video_step_def video_frame_def probe_profile_def setProfileLevelID_def
  flag_bits video_duration_def Let_def PTS_def normalize_def

text \<open>A stream that begins with a parameter set, then a keyframe.\<close>

definition config_packet :: packet where
  "config_packet = (\<lparr>PTSAndFlags = 0x4000000000000000, PacketSize = 8\<rparr>, Some demo_sps, None)"

definition key_header :: FrameHeader where
  "key_header = \<lparr>PTSAndFlags = 0x2000000000000000, PacketSize = 1\<rparr>"

definition delta_header :: FrameHeader where
  "delta_header = \<lparr>PTSAndFlags = 0x10, PacketSize = 1\<rparr>"

lemma demo_headers [simp]:
  "\<not> IsConfig key_header" "IsKeyFrame key_header"
  "\<not> IsConfig delta_header" "\<not> IsKeyFrame delta_header"
  by (simp_all add: key_header_def delta_header_def flag_bits)

lemma config_packet_step:
  "video_step ''h264'' isPaused config_packet zero_vfwd
     = Some (setProfileLevelID (NormalizeProfileLevelID ''42c01f'')
         (zero_vfwd\<lparr>vf_configNAL := demo_sps, vf_lastConfigNAL := demo_sps, vf_profileProbed := True\<rparr>))"
  by (simp add: video_step_def config_packet_def flag_bits probe_profile_def demo_sps_plid
      zero_vfwd_def)

lemma keyframe_carries_config_witness:
  "\<exists>v v'. video_run ''h264'' [(False, config_packet)] zero_vfwd = Some v
     \<and> video_step ''h264'' False (key_header, Some [0x65], None) v = Some v'
     \<and> sa_Data (last (vf_sent v')) = mergeConfigNAL demo_sps [0, 0, 0, 1, 0x65]"
proof -
  define v where "v = setProfileLevelID (NormalizeProfileLevelID ''42c01f'')
         (zero_vfwd\<lparr>vf_configNAL := demo_sps, vf_lastConfigNAL := demo_sps, vf_profileProbed := True\<rparr>)"
  have run: "video_run ''h264'' [(False, config_packet)] zero_vfwd = Some v"
    by (simp add: config_packet_step v_def)
  have last: "vf_lastConfigNAL v = demo_sps" "demo_sps \<noteq> []"
    by (simp_all add: v_def setProfileLevelID_def demo_sps_def)
  have probed: "vf_profileProbed v" by (simp add: v_def setProfileLevelID_def)
  then obtain v' where step: "video_step ''h264'' False (key_header, Some [0x65], None) v = Some v'"
    by (simp add: video_step_def)
  have "sa_Data (last (vf_sent v')) = mergeConfigNAL (vf_lastConfigNAL v) (annexb_payload [0x65])"
    using keyframe_carries_config [OF run _ _ _ step] last by simp
  with run step last show ?thesis by (auto simp: annexb_payload_def)
qed


lemma video_step_frame:
  "vf_profileProbed v \<Longrightarrow> \<not> IsConfig h \<Longrightarrow>
     video_step ''h264'' p (h, Some body, None) v = Some (video_frame ''h264'' p h body v)"
  by (simp add: video_step_def)

lemma video_frame_probed [simp]:
  "vf_profileProbed (video_frame codec p h body v) = vf_profileProbed v"
  "vf_lastConfigNAL (video_frame codec p h body v) = vf_lastConfigNAL v"
  by (auto simp: video_frame_def Let_def split: prod.splits)

lemma video_frame_paused:
  "\<exists>s. sa_Data s = annexb_payload body \<and> sa_KeyFrame s = IsKeyFrame h
     \<and> vf_pausedVideoBuf (video_frame ''h264'' True h body v) = bufferPausedVideo s (vf_pausedVideoBuf v)
     \<and> vf_sent (video_frame ''h264'' True h body v) = vf_sent v
     \<and> vf_configNAL (video_frame ''h264'' True h body v) = vf_configNAL v"
  by (auto simp: video_frame_def Let_def split: prod.splits
      intro: exI [of _ "\<lparr>sa_Data = annexb_payload body, sa_PTS = _, sa_Duration = _,
        sa_KeyFrame = IsKeyFrame h\<rparr>"])

lemma video_frame_live_nil:
  "vf_configNAL v = [] \<Longrightarrow> \<not> IsKeyFrame h \<Longrightarrow>
     map sa_Data (vf_sent (video_frame ''h264'' False h body v))
       = map sa_Data (vf_sent v @ flushPausedVideo [] (vf_pausedVideoBuf v)) @ [annexb_payload body]"
  by (auto simp: video_frame_def Let_def split: prod.splits)

lemma video_frame_live_key:
  assumes "vf_configNAL v \<noteq> []" "vf_pausedVideoBuf v = []"
  shows "map sa_Data (vf_sent (video_frame ''h264'' False h body v))
       = map sa_Data (vf_sent v) @ [mergeConfigNAL (vf_configNAL v) (annexb_payload body)]"
    and "vf_configNAL (video_frame ''h264'' False h body v) = []"
    and "vf_pausedVideoBuf (video_frame ''h264'' False h body v) = []"
  using assms by (auto simp: video_frame_def Let_def flushPausedVideo_def split: prod.splits)



section \<open>The audio stream\<close>

definition audio_inv :: "afwd \<Rightarrow> bool" where
  "audio_inv a \<longleftrightarrow>
     sorted (map sa_PTS (af_sent a))
     \<and> (\<forall>s \<in> set (af_sent a). sa_PTS s \<le> pn_lastNorm (af_audioNorm a)
          \<and> sa_Duration s = 20 * millisecond)
     \<and> (af_sent a \<noteq> [] \<longrightarrow> pn_started (af_audioNorm a) \<and> sa_PTS (hd (af_sent a)) = 0)
     \<and> (af_sent a = [] \<longrightarrow> \<not> pn_started (af_audioNorm a))"

definition zero_afwd :: afwd where
  "zero_afwd = \<lparr>af_audioNorm = zero_ptsNormalizer, af_sent = []\<rparr>"

interpretation audio: invariant_system "\<lambda>a. a = zero_afwd" audio_event audio_inv
proof
  show "audio_inv a" if "a = zero_afwd" for a
    using that by (simp add: audio_inv_def zero_afwd_def zero_ptsNormalizer_def)
  show "audio_inv (audio_event e a)" if inv: "audio_inv a" for e a
  proof -
    obtain isPaused h b m where e: "e = (isPaused, h, b, m)" by (cases e)
    obtain pts n where n: "normalize (PTS h) (af_audioNorm a) = (pts, n)" by fastforce
    note nm = normalize_mono [OF n]
    have "pts = 0" if "af_sent a = []"
      using inv that n by (auto simp: audio_inv_def normalize_def)
    moreover have "\<forall>x \<in> set (map sa_PTS (af_sent a)). x \<le> pts"
    proof (cases "af_sent a = []")
      case False
      with inv nm have "pn_lastNorm (af_audioNorm a) \<le> pts" by (simp add: audio_inv_def)
      with inv show ?thesis by (fastforce simp: audio_inv_def)
    qed simp
    ultimately show ?thesis
      using inv n nm sorted_snoc [of "map sa_PTS (af_sent a)" pts]
      by (auto simp: e audio_step_def audio_inv_def hd_append)
  qed
qed

text \<open>
  The audio samples sent start at time 0 whenever the stream was unpaused, their time stamps
  never decrease and each lasts 20 ms, whatever the device sends.
\<close>

theorem audio_timeline:
  "let sent = af_sent (forwardAudio paused stream zero_afwd)
   in sorted (map sa_PTS sent) \<and> (sent = [] \<or> sa_PTS (hd sent) = 0)
      \<and> list_all (\<lambda>s. sa_Duration s = 20 * millisecond) sent"
proof -
  have "audio_inv (forwardAudio paused stream zero_afwd)"
    using audio.run_inv [of zero_afwd] audio.run_inv [of zero_afwd "[]"]
    by (auto simp: forwardAudio_def Let_def split: prod.splits sum.splits)
  then show ?thesis by (auto simp: audio_inv_def Let_def list_all_iff)
qed

end
