(* ===== verification/Config.thy ===== *)
theory Config
  imports Prelude
begin

text \<open>
  \<open>pkg/config\<close>: the configuration of the signaling server and of the agent, its defaults
  (\<open>config.go\<close>), the per-device overrides (\<open>deviceconfig.go\<close>) and the conversions from and to
  the protobuf messages (\<open>conv.go\<close>, message types of \<open>api/gen/agent.pb.go\<close>).

  A Go pointer that may be \<open>nil\<close> is an \<open>option\<close>.  Fields of type \<open>int\<close> are integers; where the
  code converts to \<open>int32\<close> the wrap-around is \<open>wrap32\<close>.  Reading a file and parsing YAML are not
  in the repository: they are the arguments \<open>read_file\<close> and \<open>parse\<close> of the loaders.
\<close>

section \<open>Configuration records\<close>

record ScrcpyConfig =
  sc_ServerVersion :: string
  sc_JarPath :: string
  sc_PortPoolStart :: int
  sc_PortPoolSize :: int
  sc_MaxSize :: int
  sc_VideoBitRate :: int
  sc_MinVideoBitRate :: int
  sc_ClearBitrate :: int
  sc_HDBitrate :: int
  sc_WarmKeepSeconds :: int
  sc_AudioBitRate :: int
  sc_VideoCodec :: string
  sc_AudioCodec :: string
  sc_AudioEncoder :: string
  sc_AudioEnabled :: bool
  sc_PowerOn :: bool
  sc_StayAwake :: bool
  sc_VideoKeyframeInterval :: int
  sc_VideoMaxFPS :: int
  sc_FECDisabled :: bool

definition zero_ScrcpyConfig :: ScrcpyConfig where
  "zero_ScrcpyConfig = \<lparr>
     sc_ServerVersion = '''', sc_JarPath = '''', sc_PortPoolStart = 0, sc_PortPoolSize = 0,
     sc_MaxSize = 0, sc_VideoBitRate = 0, sc_MinVideoBitRate = 0, sc_ClearBitrate = 0,
     sc_HDBitrate = 0, sc_WarmKeepSeconds = 0, sc_AudioBitRate = 0, sc_VideoCodec = '''',
     sc_AudioCodec = '''', sc_AudioEncoder = '''', sc_AudioEnabled = False, sc_PowerOn = False,
     sc_StayAwake = False, sc_VideoKeyframeInterval = 0, sc_VideoMaxFPS = 0, sc_FECDisabled = False\<rparr>"

record TurnServerConfig =
  turn_URLs :: "string list"
  turn_Username :: string
  turn_Credential :: string

record InstanceConfig =
  inst_InstanceID :: string
  inst_DeviceSerial :: string

record AgentConfig =
  ac_SignalingURL :: string
  ac_ServiceID :: string
  ac_InstanceID :: string
  ac_DeviceSerial :: string
  ac_InstanceList :: "InstanceConfig list"
  ac_STUNServers :: "string list"
  ac_TURNServer :: "TurnServerConfig option"
  ac_Scrcpy :: ScrcpyConfig
  ac_ADBPath :: string
  ac_QoSIntervalMS :: int

text \<open>The zero value \<open>config.AgentConfig{}\<close>.\<close>

definition zero_AgentConfig :: AgentConfig where
  "zero_AgentConfig = \<lparr>
     ac_SignalingURL = '''', ac_ServiceID = '''', ac_InstanceID = '''', ac_DeviceSerial = '''',
     ac_InstanceList = [], ac_STUNServers = [], ac_TURNServer = None,
     ac_Scrcpy = zero_ScrcpyConfig, ac_ADBPath = '''', ac_QoSIntervalMS = 0\<rparr>"

record TurnAuthConfig =
  auth_Mode :: string
  auth_Username :: string
  auth_Credential :: string

record TurnIceServerConfig =
  tics_URLs :: "string list"
  tics_Auth :: "TurnAuthConfig option"

record SignalingWebRTCConfig =
  sw_STUNServers :: "string list"
  sw_TURNServers :: "TurnIceServerConfig list"

record SignalingConfig =
  sig_Host :: string
  sig_Port :: int
  sig_StaticDir :: string
  sig_WebRTC :: "SignalingWebRTCConfig option"

record DeviceConfig =
  dc_MaxSize :: "int option"
  dc_VideoBitRate :: "int option"
  dc_MinVideoBitRate :: "int option"
  dc_ClearBitrate :: "int option"
  dc_HDBitrate :: "int option"
  dc_VideoKeyframeInterval :: "int option"
  dc_VideoMaxFPS :: "int option"
  dc_AudioEnabled :: "bool option"
  dc_WarmKeepSeconds :: "int option"

section \<open>The list of instances\<close>

definition Instances :: "AgentConfig \<Rightarrow> InstanceConfig list" where
  "Instances c =
     (if ac_InstanceList c \<noteq> [] then ac_InstanceList c
      else [\<lparr>inst_InstanceID = (if ac_InstanceID c = '''' then ''default'' else ac_InstanceID c),
             inst_DeviceSerial = ac_DeviceSerial c\<rparr>])"

section \<open>Defaults\<close>

text \<open>\<open>if x == 0 { x = d }\<close>, \<open>if s == "" { s = d }\<close> and \<open>if len(l) == 0 { l = d }\<close>.\<close>

definition or_int :: "int \<Rightarrow> int \<Rightarrow> int" where
  "or_int d x = (if x = 0 then d else x)"

definition or_str :: "string \<Rightarrow> string \<Rightarrow> string" where
  "or_str d s = (if s = '''' then d else s)"

definition or_list :: "'a list \<Rightarrow> 'a list \<Rightarrow> 'a list" where
  "or_list d l = (if l = [] then d else l)"

lemma or_idem [simp]:
  "or_int d (or_int d x) = or_int d x"
  "or_str e (or_str e s) = or_str e s"
  "or_list f (or_list f l) = or_list f l"
  by (simp_all add: or_int_def or_str_def or_list_def)

lemma or_nonzero [simp]:
  "d \<noteq> 0 \<Longrightarrow> or_int d x \<noteq> 0"
  "e \<noteq> '''' \<Longrightarrow> or_str e s \<noteq> ''''"
  "f \<noteq> [] \<Longrightarrow> or_list f l \<noteq> []"
  by (simp_all add: or_int_def or_str_def or_list_def)

definition default_stun :: "string list" where
  "default_stun = [''stun:stun.l.google.com:19302'']"

text \<open>The lines \<open>cfg.Scrcpy.\<dots>\<close> that \<open>LoadAgent\<close> and \<open>applyDefaults\<close> share.\<close>

definition scrcpy_defaults :: "ScrcpyConfig \<Rightarrow> ScrcpyConfig" where
  "scrcpy_defaults s = s\<lparr>
     sc_ServerVersion := or_str ''4.0'' (sc_ServerVersion s),
     sc_JarPath := or_str ''./scrcpy-server.jar'' (sc_JarPath s),
     sc_PortPoolStart := or_int 30000 (sc_PortPoolStart s),
     sc_PortPoolSize := or_int 100 (sc_PortPoolSize s),
     sc_MaxSize := or_int 1920 (sc_MaxSize s),
     sc_VideoBitRate := or_int 8000000 (sc_VideoBitRate s),
     sc_MinVideoBitRate := or_int 300000 (sc_MinVideoBitRate s),
     sc_ClearBitrate := or_int 3000000 (sc_ClearBitrate s),
     sc_HDBitrate := or_int 6000000 (sc_HDBitrate s),
     sc_WarmKeepSeconds := or_int 300 (sc_WarmKeepSeconds s),
     sc_AudioBitRate := or_int 256000 (sc_AudioBitRate s),
     sc_VideoCodec := or_str ''h264'' (sc_VideoCodec s),
     sc_AudioCodec := or_str ''opus'' (sc_AudioCodec s),
     sc_VideoKeyframeInterval := or_int 20 (sc_VideoKeyframeInterval s)\<rparr>"

text \<open>The defaults \<open>LoadAgent\<close> fills in after parsing.\<close>

definition LoadAgent_defaults :: "AgentConfig \<Rightarrow> AgentConfig" where
  "LoadAgent_defaults cfg = cfg\<lparr>
     ac_SignalingURL := or_str ''ws://127.0.0.1:8080'' (ac_SignalingURL cfg),
     ac_InstanceID := or_str ''default'' (ac_InstanceID cfg),
     ac_ServiceID := or_str ''default'' (ac_ServiceID cfg),
     ac_Scrcpy := scrcpy_defaults (ac_Scrcpy cfg),
     ac_QoSIntervalMS := or_int 2000 (ac_QoSIntervalMS cfg),
     ac_STUNServers := or_list default_stun (ac_STUNServers cfg)\<rparr>"

datatype load_error = ReadConfig string | ParseConfig string

definition LoadAgent ::
  "(string \<Rightarrow> string + bytes) \<Rightarrow> (bytes \<Rightarrow> string + AgentConfig) \<Rightarrow> string \<Rightarrow> load_error + AgentConfig" where
  "LoadAgent read_file parse path =
     (case read_file path of
        Inl e \<Rightarrow> Inl (ReadConfig e)
      | Inr data \<Rightarrow>
          (case parse data of
             Inl e \<Rightarrow> Inl (ParseConfig e)
           | Inr cfg \<Rightarrow> Inr (LoadAgent_defaults cfg)))"

text \<open>The body of the loop over \<open>cfg.WebRTC.TURNServers\<close>.\<close>

definition turn_auth_default :: "TurnIceServerConfig \<Rightarrow> TurnIceServerConfig" where
  "turn_auth_default t =
     (let a = (case tics_Auth t of
                 None \<Rightarrow> \<lparr>auth_Mode = ''none'', auth_Username = '''', auth_Credential = ''''\<rparr>
               | Some a \<Rightarrow> a)
      in t\<lparr>tics_Auth := Some (a\<lparr>auth_Mode := or_str ''none'' (auth_Mode a)\<rparr>)\<rparr>)"

definition LoadSignaling_defaults :: "SignalingConfig \<Rightarrow> SignalingConfig" where
  "LoadSignaling_defaults cfg =
     (let w = (case sig_WebRTC cfg of
                 None \<Rightarrow> \<lparr>sw_STUNServers = [], sw_TURNServers = []\<rparr>
               | Some w \<Rightarrow> w)
      in cfg\<lparr>
        sig_Host := or_str ''0.0.0.0'' (sig_Host cfg),
        sig_Port := or_int 8080 (sig_Port cfg),
        sig_StaticDir := or_str ''./static'' (sig_StaticDir cfg),
        sig_WebRTC := Some (w\<lparr>
          sw_STUNServers := or_list default_stun (sw_STUNServers w),
          sw_TURNServers := map turn_auth_default (sw_TURNServers w)\<rparr>)\<rparr>)"

definition LoadSignaling ::
  "(string \<Rightarrow> string + bytes) \<Rightarrow> (bytes \<Rightarrow> string + SignalingConfig) \<Rightarrow> string
     \<Rightarrow> load_error + SignalingConfig" where
  "LoadSignaling read_file parse path =
     (case read_file path of
        Inl e \<Rightarrow> Inl (ReadConfig e)
      | Inr data \<Rightarrow>
          (case parse data of
             Inl e \<Rightarrow> Inl (ParseConfig e)
           | Inr cfg \<Rightarrow> Inr (LoadSignaling_defaults cfg)))"

section \<open>Per-device overrides\<close>

definition override :: "'a option \<Rightarrow> 'a \<Rightarrow> 'a" where
  "override p x = (case p of None \<Rightarrow> x | Some y \<Rightarrow> y)"

lemma override_simps [simp]: "override None x = x" "override (Some y) x = y"
  by (simp_all add: override_def)

lemma override_idem [simp]: "override p (override p x) = override p x"
  by (cases p) simp_all

definition MergeDeviceConfig :: "ScrcpyConfig \<Rightarrow> DeviceConfig option \<Rightarrow> ScrcpyConfig" where
  "MergeDeviceConfig base dev =
     (case dev of
        None \<Rightarrow> base
      | Some d \<Rightarrow> base\<lparr>
          sc_MaxSize := override (dc_MaxSize d) (sc_MaxSize base),
          sc_VideoBitRate := override (dc_VideoBitRate d) (sc_VideoBitRate base),
          sc_MinVideoBitRate := override (dc_MinVideoBitRate d) (sc_MinVideoBitRate base),
          sc_ClearBitrate := override (dc_ClearBitrate d) (sc_ClearBitrate base),
          sc_HDBitrate := override (dc_HDBitrate d) (sc_HDBitrate base),
          sc_VideoKeyframeInterval :=
            override (dc_VideoKeyframeInterval d) (sc_VideoKeyframeInterval base),
          sc_VideoMaxFPS := override (dc_VideoMaxFPS d) (sc_VideoMaxFPS base),
          sc_AudioEnabled := override (dc_AudioEnabled d) (sc_AudioEnabled base),
          sc_WarmKeepSeconds := override (dc_WarmKeepSeconds d) (sc_WarmKeepSeconds base)\<rparr>)"

section \<open>Protobuf messages\<close>

record proto_ScrcpyConfig =
  ps_ServerVersion :: string
  ps_JarPath :: string
  ps_PortPoolStart :: int
  ps_PortPoolSize :: int
  ps_MaxSize :: int
  ps_VideoBitRate :: int
  ps_MinVideoBitRate :: int
  ps_ClearBitrate :: int
  ps_HdBitrate :: int
  ps_WarmKeepSeconds :: int
  ps_AudioBitRate :: int
  ps_VideoCodec :: string
  ps_AudioCodec :: string
  ps_AudioEncoder :: string
  ps_AudioEnabled :: bool
  ps_PowerOn :: bool
  ps_StayAwake :: bool
  ps_VideoKeyframeInterval :: int
  ps_VideoMaxFps :: int
  ps_FecDisabled :: bool

record proto_TurnServer =
  pt_Urls :: "string list"
  pt_Username :: string
  pt_Credential :: string

record GlobalConfig =
  gc_SignalingUrl :: string
  gc_ServiceId :: string
  gc_StunServers :: "string list"
  gc_TurnServer :: "proto_TurnServer option"
  gc_Scrcpy :: "proto_ScrcpyConfig option"
  gc_AdbPath :: string
  gc_QosIntervalMs :: int

record proto_DeviceConfig =
  pd_MaxSize :: "int option"
  pd_VideoBitRate :: "int option"
  pd_MinVideoBitRate :: "int option"
  pd_ClearBitrate :: "int option"
  pd_HdBitrate :: "int option"
  pd_VideoKeyframeInterval :: "int option"
  pd_VideoMaxFps :: "int option"
  pd_AudioEnabled :: "bool option"
  pd_WarmKeepSeconds :: "int option"

definition FromProtoScrcpy :: "proto_ScrcpyConfig option \<Rightarrow> ScrcpyConfig" where
  "FromProtoScrcpy q =
     (case q of
        None \<Rightarrow> zero_ScrcpyConfig
      | Some p \<Rightarrow> \<lparr>
          sc_ServerVersion = ps_ServerVersion p, sc_JarPath = ps_JarPath p,
          sc_PortPoolStart = ps_PortPoolStart p, sc_PortPoolSize = ps_PortPoolSize p,
          sc_MaxSize = ps_MaxSize p, sc_VideoBitRate = ps_VideoBitRate p,
          sc_MinVideoBitRate = ps_MinVideoBitRate p, sc_ClearBitrate = ps_ClearBitrate p,
          sc_HDBitrate = ps_HdBitrate p, sc_WarmKeepSeconds = ps_WarmKeepSeconds p,
          sc_AudioBitRate = ps_AudioBitRate p, sc_VideoCodec = ps_VideoCodec p,
          sc_AudioCodec = ps_AudioCodec p, sc_AudioEncoder = ps_AudioEncoder p,
          sc_AudioEnabled = ps_AudioEnabled p, sc_PowerOn = ps_PowerOn p,
          sc_StayAwake = ps_StayAwake p,
          sc_VideoKeyframeInterval = ps_VideoKeyframeInterval p,
          sc_VideoMaxFPS = ps_VideoMaxFps p, sc_FECDisabled = ps_FecDisabled p\<rparr>)"

definition ToAgentConfig :: "GlobalConfig option \<Rightarrow> AgentConfig option" where
  "ToAgentConfig q =
     (case q of
        None \<Rightarrow> None
      | Some p \<Rightarrow> Some \<lparr>
          ac_SignalingURL = gc_SignalingUrl p, ac_ServiceID = gc_ServiceId p,
          ac_InstanceID = '''', ac_DeviceSerial = '''', ac_InstanceList = [],
          ac_STUNServers = gc_StunServers p,
          ac_TURNServer = (case gc_TurnServer p of
             None \<Rightarrow> None
           | Some t \<Rightarrow> Some \<lparr>turn_URLs = pt_Urls t, turn_Username = pt_Username t,
                             turn_Credential = pt_Credential t\<rparr>),
          ac_Scrcpy = (case gc_Scrcpy p of
             None \<Rightarrow> zero_ScrcpyConfig | Some s \<Rightarrow> FromProtoScrcpy (Some s)),
          ac_ADBPath = gc_AdbPath p, ac_QoSIntervalMS = gc_QosIntervalMs p\<rparr>)"

definition i32ToInt :: "int option \<Rightarrow> int option" where
  "i32ToInt v = (case v of None \<Rightarrow> None | Some n \<Rightarrow> Some n)"

definition ToDeviceConfig :: "proto_DeviceConfig option \<Rightarrow> DeviceConfig option" where
  "ToDeviceConfig q =
     (case q of
        None \<Rightarrow> None
      | Some p \<Rightarrow> Some \<lparr>
          dc_MaxSize = i32ToInt (pd_MaxSize p), dc_VideoBitRate = i32ToInt (pd_VideoBitRate p),
          dc_MinVideoBitRate = i32ToInt (pd_MinVideoBitRate p),
          dc_ClearBitrate = i32ToInt (pd_ClearBitrate p), dc_HDBitrate = i32ToInt (pd_HdBitrate p),
          dc_VideoKeyframeInterval = i32ToInt (pd_VideoKeyframeInterval p),
          dc_VideoMaxFPS = i32ToInt (pd_VideoMaxFps p), dc_AudioEnabled = pd_AudioEnabled p,
          dc_WarmKeepSeconds = i32ToInt (pd_WarmKeepSeconds p)\<rparr>)"

definition ToProtoScrcpy :: "ScrcpyConfig \<Rightarrow> proto_ScrcpyConfig" where
  "ToProtoScrcpy c = \<lparr>
     ps_ServerVersion = sc_ServerVersion c, ps_JarPath = sc_JarPath c,
     ps_PortPoolStart = wrap32 (sc_PortPoolStart c), ps_PortPoolSize = wrap32 (sc_PortPoolSize c),
     ps_MaxSize = wrap32 (sc_MaxSize c), ps_VideoBitRate = wrap32 (sc_VideoBitRate c),
     ps_MinVideoBitRate = wrap32 (sc_MinVideoBitRate c),
     ps_ClearBitrate = wrap32 (sc_ClearBitrate c), ps_HdBitrate = wrap32 (sc_HDBitrate c),
     ps_WarmKeepSeconds = wrap32 (sc_WarmKeepSeconds c),
     ps_AudioBitRate = wrap32 (sc_AudioBitRate c), ps_VideoCodec = sc_VideoCodec c,
     ps_AudioCodec = sc_AudioCodec c, ps_AudioEncoder = sc_AudioEncoder c,
     ps_AudioEnabled = sc_AudioEnabled c, ps_PowerOn = sc_PowerOn c, ps_StayAwake = sc_StayAwake c,
     ps_VideoKeyframeInterval = wrap32 (sc_VideoKeyframeInterval c),
     ps_VideoMaxFps = wrap32 (sc_VideoMaxFPS c), ps_FecDisabled = sc_FECDisabled c\<rparr>"

definition ToProtoGlobalConfig :: "AgentConfig option \<Rightarrow> GlobalConfig option" where
  "ToProtoGlobalConfig q =
     (case q of
        None \<Rightarrow> None
      | Some cfg \<Rightarrow> Some \<lparr>
          gc_SignalingUrl = ac_SignalingURL cfg, gc_ServiceId = ac_ServiceID cfg,
          gc_StunServers = ac_STUNServers cfg,
          gc_TurnServer = (case ac_TURNServer cfg of
             None \<Rightarrow> None
           | Some t \<Rightarrow> Some \<lparr>pt_Urls = turn_URLs t, pt_Username = turn_Username t,
                             pt_Credential = turn_Credential t\<rparr>),
          gc_Scrcpy = Some (ToProtoScrcpy (ac_Scrcpy cfg)),
          gc_AdbPath = ac_ADBPath cfg, gc_QosIntervalMs = wrap32 (ac_QoSIntervalMS cfg)\<rparr>)"

text \<open>The integers of the configuration that travel as \<open>int32\<close> are in its range.\<close>

definition int32_range :: "int \<Rightarrow> bool" where
  "int32_range x \<longleftrightarrow> - (2 ^ 31) \<le> x \<and> x < 2 ^ 31"

definition scrcpy_int32 :: "ScrcpyConfig \<Rightarrow> bool" where
  "scrcpy_int32 c \<longleftrightarrow> list_all int32_range
     [sc_PortPoolStart c, sc_PortPoolSize c, sc_MaxSize c, sc_VideoBitRate c, sc_MinVideoBitRate c,
      sc_ClearBitrate c, sc_HDBitrate c, sc_WarmKeepSeconds c, sc_AudioBitRate c,
      sc_VideoKeyframeInterval c, sc_VideoMaxFPS c]"

lemma wrap32_in_range [simp]: "int32_range x \<Longrightarrow> wrap32 x = x"
  by (simp add: int32_range_def)

lemma scrcpy_roundtrip: "scrcpy_int32 c \<Longrightarrow> FromProtoScrcpy (Some (ToProtoScrcpy c)) = c"
  by (cases c) (simp add: FromProtoScrcpy_def ToProtoScrcpy_def scrcpy_int32_def)

lemma turn_roundtrip:
  "\<lparr>turn_URLs = turn_URLs t, turn_Username = turn_Username t, turn_Credential = turn_Credential t\<rparr> = t"
  by (cases t) simp

section \<open>Properties\<close>

text \<open>
  The configuration a platform injects over gRPC is the one it loaded: converting an agent
  configuration to the protobuf message and back changes nothing but the three fields that belong
  to the legacy single-instance mode and are not part of the message, provided its integers fit
  the \<open>int32\<close> fields of the message.
\<close>

theorem config_proto_roundtrip:
  "scrcpy_int32 (ac_Scrcpy cfg) \<Longrightarrow> int32_range (ac_QoSIntervalMS cfg) \<Longrightarrow>
   ToAgentConfig (ToProtoGlobalConfig (Some cfg)) =
     Some (cfg\<lparr>ac_InstanceID := '''', ac_DeviceSerial := '''', ac_InstanceList := []\<rparr>)"
  by (cases cfg)
    (auto simp: ToAgentConfig_def ToProtoGlobalConfig_def scrcpy_roundtrip turn_roundtrip
       split: option.splits)

theorem config_proto_roundtrip_witness:
  "ToAgentConfig (ToProtoGlobalConfig (Some
     \<lparr>ac_SignalingURL = ''ws://h'', ac_ServiceID = ''s'', ac_InstanceID = ''i'',
      ac_DeviceSerial = ''d'', ac_InstanceList = [], ac_STUNServers = [''stun:x''],
      ac_TURNServer = Some \<lparr>turn_URLs = [''turn:y''], turn_Username = ''u'', turn_Credential = ''c''\<rparr>,
      ac_Scrcpy = scrcpy_defaults zero_ScrcpyConfig, ac_ADBPath = ''adb'', ac_QoSIntervalMS = 2000\<rparr>))
   = Some
     \<lparr>ac_SignalingURL = ''ws://h'', ac_ServiceID = ''s'', ac_InstanceID = '''',
      ac_DeviceSerial = '''', ac_InstanceList = [], ac_STUNServers = [''stun:x''],
      ac_TURNServer = Some \<lparr>turn_URLs = [''turn:y''], turn_Username = ''u'', turn_Credential = ''c''\<rparr>,
      ac_Scrcpy = scrcpy_defaults zero_ScrcpyConfig, ac_ADBPath = ''adb'', ac_QoSIntervalMS = 2000\<rparr>"
  by (subst config_proto_roundtrip)
    (simp_all add: scrcpy_int32_def int32_range_def scrcpy_defaults_def zero_ScrcpyConfig_def or_int_def)

end
