(* ===== verification/GoFloat.thy ===== *)
theory GoFloat
  imports Prelude Complex_Main
begin

text \<open>
  Go's \<open>float64\<close>: a NaN, an infinity or the rational number it denotes.  Comparisons with a NaN
  are false.  The product is rounded to the nearest 53-bit significand, ties to even, with gradual
  underflow and overflow to infinity; a conversion to an integer type truncates towards zero, and
  its value for an operand that does not fit is left to the implementation by the language, so it
  is a parameter.
\<close>

datatype f64 = NaN | PInf | NInf | Fin rat

fun f64_less :: "f64 \<Rightarrow> f64 \<Rightarrow> bool" where
  "f64_less NaN _ = False"
| "f64_less _ NaN = False"
| "f64_less PInf _ = False"
| "f64_less _ NInf = False"
| "f64_less NInf _ = True"
| "f64_less _ PInf = True"
| "f64_less (Fin a) (Fin b) = (a < b)"

fun f64_le :: "f64 \<Rightarrow> f64 \<Rightarrow> bool" where
  "f64_le NaN _ = False"
| "f64_le _ NaN = False"
| "f64_le NInf _ = True"
| "f64_le _ PInf = True"
| "f64_le PInf _ = False"
| "f64_le _ NInf = False"
| "f64_le (Fin a) (Fin b) = (a \<le> b)"

text \<open>The value \<open>x != 0\<close> that \<open>dispatchControl\<close> reads as a flag.\<close>

definition f64_nonzero :: "f64 \<Rightarrow> bool" where
  "f64_nonzero x \<longleftrightarrow> x \<noteq> Fin 0"

section \<open>Rounding\<close>

fun ilog2 :: "nat \<Rightarrow> nat" where
  "ilog2 n = (if n < 2 then 0 else Suc (ilog2 (n div 2)))"

declare ilog2.simps [simp del]

definition pow2 :: "int \<Rightarrow> rat" where
  "pow2 e = (if 0 \<le> e then 2 ^ nat e else 1 / 2 ^ nat (- e))"

text \<open>The exponent of the unit in the last place of a positive rational.\<close>

definition f64_ulp :: "rat \<Rightarrow> int" where
  "f64_ulp x =
     (let pq = quotient_of x;
          k = int (ilog2 (nat (fst pq))) - int (ilog2 (nat (snd pq)));
          l = (if pow2 k \<le> x then k else k - 1)
      in max (l - 52) (- 1074))"

definition round_even :: "rat \<Rightarrow> int" where
  "round_even m =
     (let f = \<lfloor>m\<rfloor>; d = m - of_int f
      in if d < 1 / 2 then f else if 1 / 2 < d then f + 1 else if even f then f else f + 1)"

definition f64_round :: "rat \<Rightarrow> f64" where
  "f64_round x =
     (if x = 0 then Fin 0
      else let u = pow2 (f64_ulp \<bar>x\<bar>); r = of_int (round_even (x / u)) * u
           in if r \<ge> pow2 1024 then PInf else if r \<le> - pow2 1024 then NInf else Fin r)"

definition f64_of_int :: "int \<Rightarrow> f64" where
  "f64_of_int n = f64_round (of_int n)"

text \<open>\<open>x * c\<close> for a positive constant \<open>c\<close>.\<close>

definition f64_scale :: "rat \<Rightarrow> f64 \<Rightarrow> f64" where
  "f64_scale c x = (case x of Fin a \<Rightarrow> f64_round (a * c) | _ \<Rightarrow> x)"

lemma pow2_pos [simp]: "0 < pow2 e"
  by (simp add: pow2_def)

lemma round_even_mono: "x \<le> y \<Longrightarrow> round_even x \<le> round_even y"
proof -
  assume le: "x \<le> y"
  then have fl: "\<lfloor>x\<rfloor> \<le> \<lfloor>y\<rfloor>" by (rule floor_mono)
  show ?thesis
  proof (cases "\<lfloor>x\<rfloor> = \<lfloor>y\<rfloor>")
    case True
    with le show ?thesis by (auto simp: round_even_def Let_def)
  next
    case False
    with fl have "\<lfloor>x\<rfloor> + 1 \<le> \<lfloor>y\<rfloor>" by linarith
    moreover have "round_even x \<le> \<lfloor>x\<rfloor> + 1" "\<lfloor>y\<rfloor> \<le> round_even y"
      by (auto simp: round_even_def Let_def)
    ultimately show ?thesis by linarith
  qed
qed

lemma round_even_int [simp]: "round_even (of_int n) = n"
  by (simp add: round_even_def)

text \<open>The result for a normal number of known magnitude.\<close>

lemma ilog2_bounds: "0 < n \<Longrightarrow> 2 ^ ilog2 n \<le> n \<and> n < 2 ^ Suc (ilog2 n)"
proof (induction n rule: ilog2.induct)
  case (1 n)
  show ?case
  proof (cases "n < 2")
    case True
    with 1 show ?thesis by (subst (1 2) ilog2.simps) auto
  next
    case False
    with 1 have IH: "2 ^ ilog2 (n div 2) \<le> n div 2 \<and> n div 2 < 2 ^ Suc (ilog2 (n div 2))" by simp
    have "ilog2 n = Suc (ilog2 (n div 2))" using False by (subst ilog2.simps) simp
    with IH show ?thesis by simp linarith
  qed
qed

lemma pow2_powi: "pow2 e = 2 powi e"
  by (auto simp: pow2_def power_int_def power_one_over inverse_eq_divide)

lemma pow2_add: "pow2 (a + b) = pow2 a * pow2 b"
  by (simp add: pow2_powi power_int_add)

lemma pow2_nz [simp]: "pow2 e \<noteq> 0"
  using pow2_pos [of e] by linarith

lemma pow2_mono: "a \<le> b \<Longrightarrow> pow2 a \<le> pow2 b"
  by (simp add: pow2_powi power_int_increasing)

lemma f64_ulp_eq:
  assumes "pow2 l \<le> x" "x < pow2 (l + 1)"
  shows "f64_ulp x = max (l - 52) (- 1074)"
proof -
  obtain p q where pq: "quotient_of x = (p, q)" by fastforce
  have x: "x = of_int p / of_int q" and q: "0 < q" using pq quotient_of_div quotient_of_denom_pos by auto
  have "0 < x" using assms(1) pow2_pos less_le_trans by blast
  then have p: "0 < p" using x q by (simp add: zero_less_divide_iff)
  define a b where "a = int (ilog2 (nat p))" and "b = int (ilog2 (nat q))"
  have two: "pow2 (int k) = of_int (2 ^ k)" for k by (simp add: pow2_def)
  have bound: "pow2 (int (ilog2 (nat n))) \<le> of_int n \<and> of_int n < pow2 (int (ilog2 (nat n)) + 1)" if "0 < n" for n
  proof -
    have "int (2 ^ ilog2 (nat n)) \<le> n" "n < int (2 ^ Suc (ilog2 (nat n)))"
      using ilog2_bounds [of "nat n"] that by linarith+
    moreover have "pow2 (int (ilog2 (nat n)) + 1) = of_int (2 ^ Suc (ilog2 (nat n)))"
      using two [of "Suc (ilog2 (nat n))"] by (simp add: add.commute)
    ultimately show ?thesis unfolding two by (metis of_int_le_iff of_int_less_iff of_nat_numeral of_nat_power)
  qed
  have pb: "pow2 a \<le> of_int p" "of_int p < pow2 (a + 1)" using bound [OF p] by (simp_all add: a_def)
  have qb: "pow2 b \<le> of_int q" "of_int q < pow2 (b + 1)" using bound [OF q] by (simp_all add: b_def)
  have xq: "x * of_int q = of_int p" using q by (simp add: x)
  have up: "x < pow2 (a - b + 1)"
  proof -
    have "x * pow2 b \<le> x * of_int q" using qb(1) \<open>0 < x\<close> by simp
    also have "\<dots> < pow2 (a - b + 1) * pow2 b" using pb(2) xq by (simp flip: pow2_add)
    finally show ?thesis by simp
  qed
  have lo: "pow2 (a - b - 1) < x"
  proof -
    have "pow2 (a - b - 1) * pow2 (b + 1) \<le> x * of_int q" using pb(1) xq by (simp flip: pow2_add)
    also have "\<dots> < x * pow2 (b + 1)" using qb(2) \<open>0 < x\<close> by simp
    finally show ?thesis by simp
  qed
  have lt: "i < j" if "pow2 i < pow2 j" for i j using that pow2_mono [of j i] by (meson not_le)
  have "l < a - b + 1" using assms(1) up by (intro lt) simp
  moreover have "a - b - 1 < l + 1" using assms(2) lo by (intro lt) simp
  ultimately have "l = a - b \<or> l = a - b - 1" by linarith
  then have "(if pow2 (a - b) \<le> x then a - b else a - b - 1) = l" using assms by auto
  moreover have "f64_ulp x = max ((if pow2 (a - b) \<le> x then a - b else a - b - 1) - 52) (- 1074)"
    by (simp only: f64_ulp_def Let_def pq fst_conv snd_conv a_def b_def)
  ultimately show ?thesis by simp
qed

lemma f64_round_normal:
  assumes x: "pow2 l \<le> x" "x < pow2 (l + 1)" and l: "- 1022 \<le> l" "l \<le> 1022"
  shows "f64_round x = Fin (of_int (round_even (x / pow2 (l - 52))) * pow2 (l - 52))"
proof -
  let ?u = "pow2 (l - 52)"
  have "0 < x" using x(1) pow2_pos less_le_trans by blast
  have ulp: "f64_ulp \<bar>x\<bar> = l - 52" using f64_ulp_eq [OF x] l \<open>0 < x\<close> by simp
  have "pow2 (l + 1) / ?u = of_int (2 ^ 53)"
    using pow2_add [of 53 "l - 52"] by (simp add: pow2_def [of 53] add.commute)
  then have "round_even (x / ?u) \<le> 2 ^ 53"
    using round_even_mono [of "x / ?u" "of_int (2 ^ 53)"] x(2) by (metis divide_right_mono less_imp_le pow2_pos round_even_int)
  then have "of_int (round_even (x / ?u)) * ?u \<le> of_int (2 ^ 53) * ?u"
    by (intro mult_right_mono) (simp_all add: less_imp_le del: of_int_power)
  also have "\<dots> = pow2 (l + 1)" using \<open>pow2 (l + 1) / ?u = of_int (2 ^ 53)\<close> by (simp add: field_simps)
  also have "\<dots> \<le> pow2 1023" using l by (intro pow2_mono) simp
  also have "\<dots> < pow2 1024" using pow2_add [of 1023 1] pow2_pos [of 1023] by (simp add: pow2_def [of 1])
  finally have "\<not> of_int (round_even (x / ?u)) * ?u \<ge> pow2 1024" by simp
  moreover have "0 \<le> round_even (x / ?u)"
    using round_even_mono [of 0 "x / ?u"] round_even_int [of 0] \<open>0 < x\<close>
    by (simp add: less_imp_le)
  then have "0 \<le> of_int (round_even (x / ?u)) * ?u" by (simp add: less_imp_le)
  then have "\<not> of_int (round_even (x / ?u)) * ?u \<le> - pow2 1024" using pow2_pos [of 1024] by linarith
  ultimately show ?thesis using \<open>0 < x\<close> unfolding f64_round_def ulp Let_def by simp
qed
lemma round_even_near: "\<bar>m - of_int n\<bar> < 1 / 2 \<Longrightarrow> round_even m = n"
proof -
  assume "\<bar>m - of_int n\<bar> < 1 / 2"
  then have m: "m - of_int n < 1 / 2" "of_int n - m < 1 / 2" by linarith+
  show ?thesis
  proof (cases "of_int n \<le> m")
    case True
    with m have "\<lfloor>m\<rfloor> = n" by (simp add: floor_eq_iff)
    with m show ?thesis by (simp add: round_even_def Let_def)
  next
    case False
    with m have "\<lfloor>m\<rfloor> = n - 1" by (simp add: floor_eq_iff)
    with m show ?thesis by (simp add: round_even_def Let_def)
  qed
qed

lemma f64_round_near:
  assumes "pow2 l \<le> x" "x < pow2 (l + 1)" "- 1022 \<le> l" "l \<le> 1022"
    and "\<bar>x / pow2 (l - 52) - of_int n\<bar> < 1 / 2"
  shows "f64_round x = Fin (of_int n * pow2 (l - 52))"
  using f64_round_normal [OF assms(1-4)] round_even_near [OF assms(5)] by simp

section \<open>Conversions to integer types\<close>

definition trunc :: "rat \<Rightarrow> int" where
  "trunc x = (if 0 \<le> x then \<lfloor>x\<rfloor> else \<lceil>x\<rceil>)"

text \<open>
  What the implementation yields where the language leaves it open: one function per target type.
\<close>

record conv =
  cv_u8 :: "f64 \<Rightarrow> byte"
  cv_u16 :: "f64 \<Rightarrow> u16"
  cv_u32 :: "f64 \<Rightarrow> u32"
  cv_u64 :: "f64 \<Rightarrow> u64"
  cv_i64 :: "f64 \<Rightarrow> int"

text \<open>One such implementation, for concrete runs.\<close>

definition conv_zero :: conv where
  "conv_zero = \<lparr>cv_u8 = (\<lambda>_. 0), cv_u16 = (\<lambda>_. 0), cv_u32 = (\<lambda>_. 0), cv_u64 = (\<lambda>_. 0),
     cv_i64 = (\<lambda>_. - (2 ^ 63))\<rparr>"

definition to_word :: "(f64 \<Rightarrow> 'a::len word) \<Rightarrow> f64 \<Rightarrow> 'a word" where
  "to_word impl x =
     (case x of
        Fin a \<Rightarrow> if 0 \<le> trunc a \<and> trunc a < 2 ^ LENGTH('a) then word_of_int (trunc a) else impl x
      | _ \<Rightarrow> impl x)"

definition to_i64 :: "(f64 \<Rightarrow> int) \<Rightarrow> f64 \<Rightarrow> int" where
  "to_i64 impl x =
     (case x of
        Fin a \<Rightarrow> if - (2 ^ 63) \<le> trunc a \<and> trunc a < 2 ^ 63 then trunc a else wrap64 (impl x)
      | _ \<Rightarrow> wrap64 (impl x))"

lemma trunc_of_int [simp]: "trunc (of_int n) = n"
  by (simp add: trunc_def)

lemma trunc_numeral [simp]: "trunc 0 = 0" "trunc 1 = 1" "trunc (numeral k) = numeral k"
  by (simp_all add: trunc_def)

lemma to_word_of_int:
  "0 \<le> n \<Longrightarrow> n < 2 ^ LENGTH('a) \<Longrightarrow> to_word impl (Fin (of_int n)) = (word_of_int n :: 'a::len word)"
  by (simp add: to_word_def)

lemma to_i64_range: "- (2 ^ 63) \<le> to_i64 impl x \<and> to_i64 impl x < 2 ^ 63"
  using wrap64_range [of "impl x"] by (auto simp: to_i64_def split: f64.splits)

end
