(* ===== verification/Peer.thy ===== *)
theory Peer
  imports Sdp Forwarding Config GoFloat
begin

text \<open>
  The WebRTC peer of \<open>agent/internal/webrtc/peer.go\<close>: how \<open>NewPeerManager\<close> sets up the media engine,
  \<open>HandleOffer\<close>, the playout-delay interceptor and the media pumps.

  The library (\<open>pion\<close>) is outside: its answers are arguments.  A set-up is a list of calls of the
  library, each of which may fail; \<open>pion\<close> maps the calls made so far to the error of the last one.
  Logging is left out; so are \<open>Close\<close> and the read side of the data channel, which only wait for
  the library and pass callbacks on.
\<close>

section \<open>Setting up a peer\<close>

record ICEServer =
  ice_URLs :: "string list"
  ice_Username :: string
  ice_Credential :: string

record RTCPFeedback =
  fb_Type :: string
  fb_Parameter :: string

record Codec =
  co_MimeType :: string
  co_ClockRate :: int
  co_Channels :: int
  co_SDPFmtpLine :: string
  co_RTCPFeedback :: "RTCPFeedback list"

datatype pion_call =
    RegisterCodec Codec byte bool
  | RegisterHeaderExtension string
  | NewResponderInterceptor nat
  | NewPeerConnection "ICEServer list"
  | NewTrack Codec string string
  | AddTrack Codec

text \<open>The interceptors in the order of their registration, from the socket to the tracks.\<close>

datatype icept = DebugInterceptor nat | NackResponder | RedSender | PlayoutDelay

record peer =
  pm_videoTrack :: Codec
  pm_audioTrack :: "Codec option"
  pm_videoCodec :: string
  pm_audioCodec :: string
  pm_audioClockRate :: int
  pm_profileLevelID :: string
  pm_chain :: "icept list"
  pm_extID :: "byte option"
  pm_red :: red

definition videoRTCPFeedback :: "RTCPFeedback list" where
  "videoRTCPFeedback = [\<lparr>fb_Type = ''nack'', fb_Parameter = ''''\<rparr>,
     \<lparr>fb_Type = ''nack'', fb_Parameter = ''pli''\<rparr>, \<lparr>fb_Type = ''ccm'', fb_Parameter = ''fir''\<rparr>]"

definition playoutDelayURI :: string where
  "playoutDelayURI = ''http://www.webrtc.org/experiments/rtp-hdrext/playout-delay''"

definition or_string :: "string \<Rightarrow> string \<Rightarrow> string" where
  "or_string d s = (if s = '''' then d else s)"

definition iceServers :: "string list \<Rightarrow> TurnServerConfig option \<Rightarrow> ICEServer list" where
  "iceServers stun turn =
     map (\<lambda>url. \<lparr>ice_URLs = [url], ice_Username = '''', ice_Credential = ''''\<rparr>) stun
     @ (case turn of None \<Rightarrow> []
        | Some t \<Rightarrow> [\<lparr>ice_URLs = turn_URLs t, ice_Username = turn_Username t,
                     ice_Credential = turn_Credential t\<rparr>])"

definition h264_codec :: "string \<Rightarrow> Codec" where
  "h264_codec plid =
     \<lparr>co_MimeType = ''video/H264'', co_ClockRate = 90000, co_Channels = 0,
      co_SDPFmtpLine = ''level-asymmetry-allowed=1;packetization-mode=1;profile-level-id='' @ plid
        @ '';max-fs='' @ show_int (h264MaxFSFromProfileLevelID plid),
      co_RTCPFeedback = videoRTCPFeedback\<rparr>"

definition vp8_codec :: Codec where
  "vp8_codec = \<lparr>co_MimeType = ''video/VP8'', co_ClockRate = 90000, co_Channels = 0,
     co_SDPFmtpLine = '''', co_RTCPFeedback = videoRTCPFeedback\<rparr>"

definition plain_codec :: "string \<Rightarrow> int \<Rightarrow> int \<Rightarrow> string \<Rightarrow> Codec" where
  "plain_codec mime rate channels fmtp = \<lparr>co_MimeType = mime, co_ClockRate = rate,
     co_Channels = channels, co_SDPFmtpLine = fmtp, co_RTCPFeedback = []\<rparr>"

text \<open>The calls, each with the text its error is wrapped in.\<close>

definition audio_steps :: "string \<Rightarrow> (pion_call \<times> string) list" where
  "audio_steps audioCodec =
     (if audioCodec = ''pcmu'' \<or> audioCodec = ''pcma'' then
        let (mime, pt) = (if audioCodec = ''pcma'' then (''audio/PCMA'', 8) else (''audio/PCMU'', 0))
        in [(RegisterCodec (plain_codec mime 8000 1 '''') pt False, ''register '' @ audioCodec)]
      else [(RegisterCodec (plain_codec ''audio/opus'' 48000 2 ''minptime=10;stereo=1;useinbandfec=1'') 111 False,
             ''register opus'')])"

definition video_steps :: "string \<Rightarrow> string \<Rightarrow> (pion_call \<times> string) list" where
  "video_steps videoCodec plid =
     (if videoCodec = ''vp8'' then [(RegisterCodec vp8_codec 96 True, ''register vp8'')] else [])
     @ (if videoCodec = ''h264'' then
          [(RegisterCodec (h264_codec plid) 102 True, ''register h264''),
           (RegisterCodec (plain_codec ''video/red'' 90000 0 ''102/102'') 116 True, ''register red''),
           (RegisterCodec (plain_codec ''video/ulpfec'' 90000 0 '''') 117 True, ''register ulpfec'')]
        else [])"

definition video_track :: "string \<Rightarrow> string \<Rightarrow> Codec" where
  "video_track videoCodec plid = (if videoCodec = ''vp8'' then vp8_codec else h264_codec plid)"

definition audio_track :: "string \<Rightarrow> Codec" where
  "audio_track audioCodec =
     (if audioCodec = ''pcmu'' then plain_codec ''audio/PCMU'' 8000 1 ''''
      else if audioCodec = ''pcma'' then plain_codec ''audio/PCMA'' 8000 1 ''''
      else plain_codec ''audio/opus'' 48000 2 '''')"

definition setup_steps ::
  "string list \<Rightarrow> TurnServerConfig option \<Rightarrow> string \<Rightarrow> string \<Rightarrow> string \<Rightarrow> bool \<Rightarrow> (pion_call \<times> string) list" where
  "setup_steps stun turn videoCodec plid audioCodec audioEnabled =
     (if audioEnabled then audio_steps audioCodec else [])
     @ video_steps videoCodec plid
     @ [(RegisterHeaderExtension playoutDelayURI, ''register playout-delay extension''),
        (NewResponderInterceptor 1024, ''create nack responder''),
        (NewPeerConnection (iceServers stun turn), ''create peer connection''),
        (NewTrack (video_track videoCodec plid) ''video'' ''scrcpy-video'', ''create video track'')]
     @ (if audioEnabled
        then [(NewTrack (audio_track audioCodec) ''audio'' ''scrcpy-video'', ''create audio track'')] else [])
     @ [(AddTrack (video_track videoCodec plid), ''add video track'')]
     @ (if audioEnabled then [(AddTrack (audio_track audioCodec), ''add audio track'')] else [])"

fun run_steps ::
  "(pion_call list \<Rightarrow> string option) \<Rightarrow> pion_call list \<Rightarrow> (pion_call \<times> string) list
   \<Rightarrow> string option \<times> pion_call list" where
  "run_steps pion calls [] = (None, calls)"
| "run_steps pion calls ((c, what) # r) =
     (case pion (calls @ [c]) of
        Some e \<Rightarrow> (Some (what @ '': '' @ e), calls @ [c])
      | None \<Rightarrow> run_steps pion (calls @ [c]) r)"

definition NewPeerManager ::
  "(pion_call list \<Rightarrow> string option) \<Rightarrow> nat \<Rightarrow> string list \<Rightarrow> TurnServerConfig option
   \<Rightarrow> string \<Rightarrow> string \<Rightarrow> string \<Rightarrow> bool \<Rightarrow> (string + peer) \<times> pion_call list" where
  "NewPeerManager pion debugInterceptors stun turn videoCodec0 plid0 audioCodec0 audioEnabled =
     (let plid = or_string ''42e01f'' plid0;
          videoCodec = or_string ''h264'' videoCodec0;
          audioCodec = or_string ''opus'' audioCodec0
      in case run_steps pion [] (setup_steps stun turn videoCodec plid audioCodec audioEnabled) of
           (Some e, calls) \<Rightarrow> (Inl e, calls)
         | (None, calls) \<Rightarrow>
             (Inr \<lparr>pm_videoTrack = video_track videoCodec plid,
                   pm_audioTrack = (if audioEnabled then Some (audio_track audioCodec) else None),
                   pm_videoCodec = videoCodec, pm_audioCodec = audioCodec,
                   pm_audioClockRate = (if audioEnabled then co_ClockRate (audio_track audioCodec) else 0),
                   pm_profileLevelID = plid,
                   pm_chain = map DebugInterceptor [0..<debugInterceptors]
                     @ [NackResponder, RedSender, PlayoutDelay],
                   pm_extID = None, pm_red = newREDSenderInterceptor 102 116\<rparr>, calls))"

section \<open>The offer\<close>

record offer_results =
  of_remote :: "string option"
  of_answer :: "string + string"
  of_local :: "string option"
  of_final :: string

definition HandleOffer :: "offer_results \<Rightarrow> peer \<Rightarrow> (string + string) \<times> peer" where
  "HandleOffer r pm =
     (case of_remote r of
        Some e \<Rightarrow> (Inl (''set remote description: '' @ e), pm)
      | None \<Rightarrow>
     (case of_answer r of
        Inl e \<Rightarrow> (Inl (''create answer: '' @ e), pm)
      | Inr answer \<Rightarrow>
          let h264PT = extractNegotiatedPT answer ''h264'';
              redPT = extractNegotiatedPT answer ''red''
          in case of_local r of
               Some e \<Rightarrow> (Inl (''set local description: '' @ e), pm)
             | None \<Rightarrow>
                 let wire = rewriteREDFmtp (of_final r) h264PT redPT;
                     extID = extractExtmapID (of_final r) playoutDelayURI;
                     pm1 = (if extID \<noteq> 0 then pm\<lparr>pm_extID := Some extID\<rparr> else pm)
                 in (Inr wire, pm1\<lparr>pm_red := SetPayloadTypes h264PT redPT (pm_red pm1)\<rparr>)))"

text \<open>
  The playout-delay interceptor on a header: \<open>hasExt\<close> is the \<open>Extension\<close> bit, \<open>setExt\<close> the library's
  \<open>SetExtension\<close> with whatever it leaves behind when it panics, which is recovered.
\<close>

definition playout_write :: "('h \<Rightarrow> bool) \<Rightarrow> (byte \<Rightarrow> bytes \<Rightarrow> 'h \<Rightarrow> 'h) \<Rightarrow> byte option \<Rightarrow> 'h \<Rightarrow> 'h" where
  "playout_write hasExt setExt extID header =
     (case extID of
        Some i \<Rightarrow> if \<not> hasExt header then setExt i [0, 0, 5] header else header
      | None \<Rightarrow> header)"

section \<open>The pumps\<close>

record media_sample =
  ms_Data :: bytes
  ms_PacketTimestamp :: u32
  ms_Duration :: duration

definition rtp_ts :: "duration \<Rightarrow> u32" where
  "rtp_ts pts = word_of_int (go_div (wrap64 (go_div pts 1000 * 90)) 1000)"

text \<open>
  \<open>videoPump\<close> over the samples it receives before it stops, each with the outcome of \<open>WriteSample\<close>:
  what it writes, and the counts of samples written and dropped.
\<close>

fun videoPump :: "(Sample \<times> bool) list \<Rightarrow> nat \<Rightarrow> nat \<Rightarrow> media_sample list \<times> nat \<times> nat" where
  "videoPump [] count errCount = ([], count, errCount)"
| "videoPump ((s, ok) # r) count errCount =
     (let m = \<lparr>ms_Data = sa_Data s, ms_PacketTimestamp = rtp_ts (sa_PTS s), ms_Duration = sa_Duration s\<rparr>;
          (ms, n) = (if ok then videoPump r (Suc count) errCount else videoPump r count (Suc errCount))
      in (m # ms, n))"

text \<open>Quotient and sum of finite floats, and \<open>Duration.Seconds\<close>.\<close>

definition f64_quot :: "rat \<Rightarrow> rat \<Rightarrow> f64" where
  "f64_quot a b = f64_round (a / b)"

fun f64_plus :: "f64 \<Rightarrow> f64 \<Rightarrow> f64" where
  "f64_plus (Fin a) (Fin b) = f64_round (a + b)"
| "f64_plus NaN _ = NaN"
| "f64_plus _ NaN = NaN"
| "f64_plus PInf NInf = NaN"
| "f64_plus NInf PInf = NaN"
| "f64_plus PInf _ = PInf"
| "f64_plus NInf _ = NInf"
| "f64_plus _ PInf = PInf"
| "f64_plus _ NInf = NInf"

definition Seconds :: "duration \<Rightarrow> f64" where
  "Seconds d =
     (let sec = go_div d second; nsec = d - sec * second
      in f64_plus (f64_of_int sec) (f64_quot (of_int nsec) (10 ^ 9)))"

text \<open>
  \<open>audioPump\<close> on one sample: \<open>None\<close> is the panic of \<open>WriteSample\<close> on the missing track of a peer
  without audio.
\<close>

definition audio_count :: "conv \<Rightarrow> peer \<Rightarrow> Sample \<Rightarrow> u32" where
  "audio_count cv pm s =
     (if pm_audioCodec pm = ''pcmu'' \<or> pm_audioCodec pm = ''pcma'' then of_nat (length (sa_Data s))
      else to_word (cv_u32 cv) (f64_scale (of_int (pm_audioClockRate pm)) (Seconds (sa_Duration s))))"

definition audio_sample :: "conv \<Rightarrow> peer \<Rightarrow> Sample \<Rightarrow> (bytes \<times> duration) option" where
  "audio_sample cv pm s =
     (case pm_audioTrack pm of
        None \<Rightarrow> None
      | Some _ \<Rightarrow>
          Some (sa_Data s,
            to_i64 (cv_i64 cv) (f64_scale (of_int second)
              (f64_quot (of_int (uint (audio_count cv pm s))) (of_int (pm_audioClockRate pm))))))"

fun audioPump :: "conv \<Rightarrow> peer \<Rightarrow> Sample list \<Rightarrow> (bytes \<times> duration) list option" where
  "audioPump cv pm [] = Some []"
| "audioPump cv pm (s # r) =
     (case audio_sample cv pm s of
        None \<Rightarrow> None
      | Some m \<Rightarrow> map_option ((#) m) (audioPump cv pm r))"

section \<open>Callbacks and the data channel\<close>

text \<open>
  The callbacks a controller has set, and what the handlers of the connection call: a callback that
  is not set is not called, and only text messages of the data channel are controls.
\<close>

record callbacks =
  cb_connected :: bool
  cb_candidate :: bool
  cb_control :: bool

datatype peer_event =
    ConnectionState string | Gathered "(string \<times> string option \<times> u16 option) option" | DataMessage bool bytes

datatype peer_call =
    CallConnected | CallCandidate string "string option" "u16 option" | CallControl bytes

definition on_peer_event :: "callbacks \<Rightarrow> peer_event \<Rightarrow> peer_call list" where
  "on_peer_event cb ev =
     (case ev of
        ConnectionState st \<Rightarrow> if st = ''connected'' \<and> cb_connected cb then [CallConnected] else []
      | Gathered None \<Rightarrow> []
      | Gathered (Some (c, mid, line)) \<Rightarrow> if cb_candidate cb then [CallCandidate c mid line] else []
      | DataMessage isString b \<Rightarrow> if isString \<and> cb_control cb then [CallControl b] else [])"

text \<open>
  \<open>SendControl\<close>: \<open>channel\<close> is the state of the data channel, \<open>None\<close> before the browser opened one;
  \<open>ctrlPump\<close> over the device messages it receives, in their JSON form, each with that state: what is
  sent, in order, and nothing is kept for later.
\<close>

definition SendControl :: "string option \<Rightarrow> bytes \<Rightarrow> string + bytes" where
  "SendControl channel b =
     (if channel \<noteq> Some ''open'' then Inl ''data channel not ready'' else Inr b)"

fun ctrlPump :: "(bytes \<times> string option) list \<Rightarrow> bytes list" where
  "ctrlPump [] = []"
| "ctrlPump ((b, channel) # r) =
     (case SendControl channel b of Inl _ \<Rightarrow> ctrlPump r | Inr sent \<Rightarrow> sent # ctrlPump r)"

section \<open>What a peer can carry\<close>

lemma run_steps_None: "run_steps pion cs steps = (None, calls) \<Longrightarrow> calls = cs @ map fst steps"
  by (induction pion cs steps rule: run_steps.induct) (auto split: option.splits)

lemma run_steps_all: "run_steps (\<lambda>_. None) cs steps = (None, cs @ map fst steps)"
  by (induction "\<lambda>_ :: pion_call list. None :: string option" cs steps rule: run_steps.induct) simp_all

lemma run_steps_Some:
  "run_steps pion cs steps = (Some e, calls) \<Longrightarrow>
     \<exists>k c what e'. k < length steps \<and> steps ! k = (c, what) \<and> calls = cs @ map fst (take (Suc k) steps)
       \<and> pion calls = Some e' \<and> e = what @ '': '' @ e'"
proof (induction pion cs steps rule: run_steps.induct)
  case (2 pion cs c what r)
  show ?case
  proof (cases "pion (cs @ [c])")
    case None
    with 2 obtain k c' what' e' where k: "k < length r" "r ! k = (c', what')"
        "calls = (cs @ [c]) @ map fst (take (Suc k) r)" "pion calls = Some e'" "e = what' @ '': '' @ e'"
      by auto
    then show ?thesis by (intro exI [of _ "Suc k"] exI [of _ c'] exI [of _ what'] exI [of _ e']) simp
  next
    case (Some e')
    with 2 show ?thesis
      by (intro exI [of _ 0] exI [of _ c] exI [of _ what] exI [of _ e']) auto
  qed
qed simp

text \<open>The codecs registered and the tracks added by a list of calls.\<close>

definition registered :: "pion_call list \<Rightarrow> (byte \<times> Codec) list" where
  "registered calls = List.map_filter (\<lambda>c. case c of RegisterCodec co pt _ \<Rightarrow> Some (pt, co) | _ \<Rightarrow> None) calls"

definition tracks :: "pion_call list \<Rightarrow> Codec list" where
  "tracks calls = List.map_filter (\<lambda>c. case c of AddTrack co \<Rightarrow> Some co | _ \<Rightarrow> None) calls"

definition same_format :: "Codec \<Rightarrow> Codec \<Rightarrow> bool" where
  "same_format c d \<longleftrightarrow> co_MimeType c = co_MimeType d \<and> co_ClockRate c = co_ClockRate d
     \<and> co_Channels c = co_Channels d"

lemmas setup_defs = setup_steps_def audio_steps_def video_steps_def registered_def tracks_def
  List.map_filter_simps plain_codec_def h264_codec_def vp8_codec_def video_track_def audio_track_def
  same_format_def Let_def

text \<open>
  C34. A peer that was set up can negotiate what it sends, for the two video codecs the code knows
  and for any audio codec.  The payload types of the registered codecs are distinct, so a packet's
  type determines its codec; and every track has a registered codec of the same format.  With any
  other video codec (scrcpy also offers H.265 and AV1) the set-up succeeds as well, but its video
  track claims H.264 and no video codec is registered at all.  A set-up that fails stops at the
  call that failed.
\<close>

theorem peer_tracks_negotiable:
  "case NewPeerManager pion n stun turn videoCodec plid audioCodec audioEnabled of
     (Inl e, calls) \<Rightarrow> \<exists>what e'. pion calls = Some e' \<and> e = what @ '': '' @ e'
   | (Inr pm, calls) \<Rightarrow>
       distinct (map fst (registered calls))
       \<and> pm_videoTrack pm \<in> set (tracks calls)
       \<and> (if videoCodec \<in> {'''', ''h264'', ''vp8''}
          then \<forall>t \<in> set (tracks calls). \<exists>c \<in> snd ` set (registered calls). same_format t c
          else co_MimeType (pm_videoTrack pm) = ''video/H264''
            \<and> (\<forall>c \<in> snd ` set (registered calls). \<not> HasPrefix (co_MimeType c) ''video/''))"
proof -
  let ?v = "or_string ''h264'' videoCodec" and ?a = "or_string ''opus'' audioCodec"
  let ?steps = "setup_steps stun turn ?v (or_string ''42e01f'' plid) ?a audioEnabled"
  obtain r calls where r: "run_steps pion [] ?steps = (r, calls)" by fastforce
  show ?thesis
  proof (cases r)
    case (Some e)
    with r run_steps_Some [of pion "[]" ?steps e calls] show ?thesis
      by (auto simp: NewPeerManager_def Let_def)
  next
    case None
    with r have calls: "calls = map fst ?steps" using run_steps_None by fastforce
    have v: "videoCodec \<in> {'''', ''h264'', ''vp8''} \<longleftrightarrow> ?v \<in> {''h264'', ''vp8''}"
      by (auto simp: or_string_def)
    have "distinct (map fst (registered calls))" unfolding calls
      by (cases audioEnabled) (simp_all add: setup_defs)
    moreover have "video_track ?v (or_string ''42e01f'' plid) \<in> set (tracks calls)" unfolding calls
      by (cases audioEnabled) (simp_all add: setup_defs)
    moreover have "\<forall>t \<in> set (tracks calls). \<exists>c \<in> snd ` set (registered calls). same_format t c"
      if "?v \<in> {''h264'', ''vp8''}" unfolding calls
      using that by (cases audioEnabled) (auto simp: setup_defs)
    moreover have "co_MimeType (video_track ?v (or_string ''42e01f'' plid)) = ''video/H264''
        \<and> (\<forall>c \<in> snd ` set (registered calls). \<not> HasPrefix (co_MimeType c) ''video/'')"
      if "?v \<notin> {''h264'', ''vp8''}" unfolding calls
      using that by (cases audioEnabled) (simp_all add: setup_defs HasPrefix_def)
    ultimately show ?thesis
      using None r unfolding NewPeerManager_def Let_def v by simp
  qed
qed

text \<open>A set-up in which every call of the library succeeds.\<close>

theorem peer_tracks_negotiable_witness:
  "filter (\<lambda>c. HasPrefix (co_MimeType (snd c)) ''video/'')
     (registered (snd (NewPeerManager (\<lambda>_. None) 0 [] None ''h265'' '''' '''' True))) = []"
proof -
  have "\<exists>pm. fst (NewPeerManager (\<lambda>_. None) 0 [] None ''h265'' '''' '''' True) = Inr pm"
    by (simp add: NewPeerManager_def Let_def or_string_def setup_steps_def audio_steps_def video_steps_def)
  then show ?thesis
    using peer_tracks_negotiable [where pion = "\<lambda>_. None" and n = 0 and stun = "[]" and turn = None
        and videoCodec = "''h265''" and plid = "''''" and audioCodec = "''''" and audioEnabled = True]
    by (auto simp: filter_empty_conv split: prod.splits)
qed

section \<open>Redundant packets after an offer\<close>

lemma pt_mask: "h = 0 \<or> uint h \<le> 127 \<Longrightarrow> h AND 0x7F = (h :: byte)"
proof -
  assume "h = 0 \<or> uint h \<le> 127"
  then have "uint h < 2 ^ 7" by auto
  then have "take_bit 7 h = h" by (simp add: word_uint_eq_iff unsigned_take_bit_eq take_bit_int_eq_self)
  moreover have "take_bit 7 h = h AND 0x7F" by (simp add: take_bit_eq_mask mask_eq_exp_minus_1)
  ultimately show ?thesis by simp
qed


lemma demo_pts:
  "extractNegotiatedPT (join crlf demo_answer) ''h264'' = 108"
  "extractNegotiatedPT (join crlf demo_answer) ''red'' = 123"
proof -
  have "split_lines (join crlf demo_answer) = demo_answer"
    by (rule split_lines_join) (simp_all add: demo_answer_def)
  moreover have "lower_char (CHR ''H'') = CHR ''h''"
    by (simp add: lower_char_def) (simp add: char_of_def bit_iff_odd)
  then have "scan_pt ''h264'' False demo_answer = 108" "scan_pt ''red'' False demo_answer = 123"
    by (simp_all add: demo_answer_def HasPrefix_def rtpmap_pt_def TrimPrefix_def split2_def before_def
        EqualFold_def ParseInt_def Let_def digit_val_def) (simp_all add: lower_char_def)
  ultimately show "extractNegotiatedPT (join crlf demo_answer) ''h264'' = 108"
    "extractNegotiatedPT (join crlf demo_answer) ''red'' = 123"
    by (simp_all add: extractNegotiatedPT_def)
qed

definition demo_peer :: peer where
  "demo_peer = \<lparr>pm_videoTrack = h264_codec ''42e01f'', pm_audioTrack = None, pm_videoCodec = ''h264'',
     pm_audioCodec = ''opus'', pm_audioClockRate = 0, pm_profileLevelID = ''42e01f'',
     pm_chain = [NackResponder, RedSender, PlayoutDelay], pm_extID = None,
     pm_red = newREDSenderInterceptor 102 116\<rparr>"

definition demo_offer_results :: offer_results where
  "demo_offer_results = \<lparr>of_remote = None, of_answer = Inr (join crlf demo_answer), of_local = None,
     of_final = join crlf demo_answer\<rparr>"


section \<open>The clocks of the pumps\<close>

text \<open>The tick of the 90 kHz clock in which a time stamp falls.\<close>

definition tick :: "duration \<Rightarrow> int" where
  "tick pts = pts div 1000 * 90 div 1000"

lemma rtp_ts_tick: "0 \<le> pts \<Longrightarrow> pts < 2 ^ 63 \<Longrightarrow> rtp_ts pts = word_of_int (tick pts)"
proof -
  assume p: "0 \<le> pts" "pts < 2 ^ 63"
  then have "0 \<le> pts div 1000 * 90" "pts div 1000 * 90 < 2 ^ 63" by (auto simp: pos_imp_zdiv_nonneg_iff)
  with p show ?thesis by (simp add: rtp_ts_def tick_def)
qed

lemma tick_mono: "a \<le> b \<Longrightarrow> tick a \<le> tick b"
  by (simp add: tick_def zdiv_mono1)

lemma tick_bounds: "tick pts * 10 ^ 9 \<le> pts * 90000" "pts * 90000 < (tick pts + 2) * 10 ^ 9"
proof -
  define us where "us = pts div 1000"
  have "us * 1000 \<le> pts" "pts < us * 1000 + 1000" unfolding us_def by simp_all
  moreover have "tick pts * 1000 \<le> us * 90" "us * 90 < tick pts * 1000 + 1000"
    unfolding tick_def us_def by simp_all
  ultimately show "tick pts * 10 ^ 9 \<le> pts * 90000" "pts * 90000 < (tick pts + 2) * 10 ^ 9" by simp_all
qed

lemma videoPump_samples:
  "fst (videoPump es c e) = map (\<lambda>(s, ok). \<lparr>ms_Data = sa_Data s,
     ms_PacketTimestamp = rtp_ts (sa_PTS s), ms_Duration = sa_Duration s\<rparr>) es"
  "fst (snd (videoPump es c e)) = c + length (filter snd es)"
  "snd (snd (videoPump es c e)) = e + length (filter (Not \<circ> snd) es)"
  by (induction es c e rule: videoPump.induct) (auto simp: Let_def split: prod.splits)

text \<open>
  C24. The RTP clock of the video.  Whatever the device sends and however writing fails, the pump
  hands every sample of the forwarder to the track once, in order, and drops none silently; the time
  stamps are those of a clock that runs at 90 kHz from the start of the stream, never goes back, and
  is less than two ticks behind the sample's own time; only their 32-bit representation wraps.
\<close>

theorem video_rtp_clock:
  assumes "forwardVideo codec paused stream zero_vfwd = Some v"
    and "\<forall>s \<in> set (vf_sent v). sa_PTS s < 2 ^ 63" "length oks = length (vf_sent v)"
  shows "case videoPump (zip (vf_sent v) oks) 0 0 of (ms, written, dropped) \<Rightarrow>
      \<exists>ts. map ms_PacketTimestamp ms = map word_of_int ts \<and> sorted ts
        \<and> list_all2 (\<lambda>t s. t * 10 ^ 9 \<le> sa_PTS s * 90000 \<and> sa_PTS s * 90000 < (t + 2) * 10 ^ 9) ts (vf_sent v)
        \<and> map ms_Data ms = map sa_Data (vf_sent v)
        \<and> written + dropped = length (vf_sent v)"
proof -
  let ?ts = "map (tick \<circ> sa_PTS) (vf_sent v)"
  have inv: "sorted (map sa_PTS (vf_sent v))" "\<forall>s \<in> set (vf_sent v). 0 \<le> sa_PTS s"
    using forwardVideo_inv [OF assms(1)] by (auto simp: video_inv_def timeline_def sorted_append)
  have "sorted (map tick (map sa_PTS (vf_sent v)))"
    using inv(1) by (rule sorted_map_mono) (simp add: mono_on_def tick_mono)
  then have srt: "sorted ?ts" by simp
  obtain ms w d where p: "videoPump (zip (vf_sent v) oks) 0 0 = (ms, w, d)" by (metis prod.exhaust)
  note s = videoPump_samples [of "zip (vf_sent v) oks" 0 0, unfolded p, simplified]
  have "map ms_PacketTimestamp ms = map rtp_ts (map sa_PTS (map fst (zip (vf_sent v) oks)))"
    by (simp add: s(1) case_prod_beta comp_def)
  also have "map fst (zip (vf_sent v) oks) = vf_sent v" using assms(3) by simp
  also have "map rtp_ts (map sa_PTS (vf_sent v)) = map word_of_int ?ts"
    using inv(2) assms(2) by (simp add: rtp_ts_tick)
  finally have ts: "map ms_PacketTimestamp ms = map word_of_int ?ts" .
  have "map ms_Data ms = map sa_Data (map fst (zip (vf_sent v) oks))"
    by (simp add: s(1) case_prod_beta comp_def)
  then have dat: "map ms_Data ms = map sa_Data (vf_sent v)" using assms(3) by simp
  have "w + d = length (zip (vf_sent v) oks)"
    using sum_length_filter_compl [of snd "zip (vf_sent v) oks"] by (simp add: s(2,3) comp_def)
  with assms(3) have wd: "w + d = length (vf_sent v)" by simp
  have "list_all2 (\<lambda>t s. t * 10 ^ 9 \<le> sa_PTS s * 90000 \<and> sa_PTS s * 90000 < (t + 2) * 10 ^ 9) ?ts (vf_sent v)"
    using tick_bounds by (simp add: list_all2_conv_all_nth)
  with ts srt have "\<exists>ts. map ms_PacketTimestamp ms = map word_of_int ts \<and> sorted ts
      \<and> list_all2 (\<lambda>t s. t * 10 ^ 9 \<le> sa_PTS s * 90000 \<and> sa_PTS s * 90000 < (t + 2) * 10 ^ 9) ts (vf_sent v)"
    by blast
  with dat wd show ?thesis unfolding p by simp
qed

text \<open>Two VP8 frames, 33.333 ms apart; the second one cannot be written.\<close>

definition demo_frames :: "wire_packet list" where
  "demo_frames = [Media 0x2000000000000010 [1], Media 0x8245 [2, 3]]"

definition demo_stream :: bytes where
  "demo_stream = replicate 69 0 @ concat (map wire demo_frames)"

lemma demo_frame_fields:
  "PTS \<lparr>PTSAndFlags = 0x2000000000000010, PacketSize = n\<rparr> = 16000"
  "PTS \<lparr>PTSAndFlags = 0x8245, PacketSize = n\<rparr> = 33349000"
  "\<not> IsConfig \<lparr>PTSAndFlags = 0x2000000000000010, PacketSize = n\<rparr>"
  "\<not> IsConfig \<lparr>PTSAndFlags = 0x8245, PacketSize = n\<rparr>"
  by (simp_all add: PTS_def IsConfig_def PacketPTSMask_def PacketFlagConfig_def PacketFlagKeyFrame_def)

lemma demo_frames_read: "fst (read_packets (concat (map wire demo_frames))) = map packet_of demo_frames"
  using read_packets_wire [of demo_frames] by (simp add: demo_frames_def)

lemma demo_forward:
  "\<exists>v. forwardVideo ''vp8'' (\<lambda>_. False) demo_stream zero_vfwd = Some v \<and> map sa_PTS (vf_sent v) = [0, 33333000]"
proof -

  have c: "ReadVideoCodecID demo_stream = (Inr 0, concat (map wire demo_frames))"
    by (simp add: ReadVideoCodecID_def demo_stream_def ReadFull_def numeral_eq_Suc)
  show ?thesis
    by (simp add: forwardVideo_def c demo_frames_read Let_def)
      (simp add: demo_frames_def video_step_def video_frame_def Forwarding.normalize_def demo_frame_fields
        flushPausedVideo_def zero_vfwd_def zero_ptsNormalizer_def Let_def setProfileLevelID_def)
qed

theorem video_rtp_clock_witness:
  "\<exists>v ts. forwardVideo ''vp8'' (\<lambda>_. False) demo_stream zero_vfwd = Some v \<and> length (vf_sent v) = 2 \<and> sorted ts
     \<and> map ms_PacketTimestamp (fst (videoPump (zip (vf_sent v) [True, False]) 0 0)) = map word_of_int ts"
proof -
  from demo_forward obtain v where v: "forwardVideo ''vp8'' (\<lambda>_. False) demo_stream zero_vfwd = Some v"
      "map sa_PTS (vf_sent v) = [0, 33333000]" by (elim exE conjE)
  obtain a b where s: "vf_sent v = [a, b]" "sa_PTS a = 0" "sa_PTS b = 33333000"
  proof -
    have "length (vf_sent v) = Suc (Suc 0)" using arg_cong [OF v(2), of length] by simp
    then obtain a b where "vf_sent v = [a, b]" by (auto simp: length_Suc_conv)
    with v(2) that show thesis by simp
  qed
  then have "\<forall>s \<in> set (vf_sent v). sa_PTS s < 2 ^ 63" "length [True, False] = length (vf_sent v)" by simp_all
  from video_rtp_clock [OF v(1) this] obtain ts where "sorted ts"
      "map ms_PacketTimestamp (fst (videoPump (zip (vf_sent v) [True, False]) 0 0)) = map word_of_int ts"
    unfolding case_prod_beta by blast
  with v(1) s(1) show ?thesis by (intro exI [of _ v] exI [of _ ts]) simp
qed

section \<open>The duration of audio packets\<close>

lemma round_20ms:
  "f64_round (1 / 50) = Fin (5764607523034235 / 2 ^ 58)"
  "f64_round (5764607523034235 / 2 ^ 58 * 48000) = Fin 960"
  "f64_round (5764607523034235 / 2 ^ 58 * 1000000000) = Fin 20000000"
  using f64_round_near [of "- 6" "1 / 50" 5764607523034235]
    f64_round_near [of 9 "5764607523034235 / 2 ^ 58 * 48000" 8444249301319680]
    f64_round_near [of 24 "5764607523034235 / 2 ^ 58 * 1000000000" 5368709120000000]
  by (simp_all add: pow2_def)

lemma f64_round_0 [simp]: "f64_round 0 = Fin 0"
  by (simp add: f64_round_def)

lemma opus_sample:
  assumes "pm_audioTrack pm = Some t" "pm_audioCodec pm \<notin> {''pcmu'', ''pcma''}"
    "pm_audioClockRate pm = 48000" "sa_Duration s = 20 * millisecond"
  shows "audio_sample cv pm s = Some (sa_Data s, 20 * millisecond)"
proof -
  have "Seconds (20 * millisecond) = Fin (5764607523034235 / 2 ^ 58)"
    using f64_round_near [of "- 6" "5764607523034235 / 2 ^ 58" 5764607523034235] round_20ms(1)
    by (simp add: Seconds_def Let_def f64_of_int_def f64_quot_def pow2_def)
  then have "audio_count cv pm s = 960"
    using assms round_20ms(2) by (simp add: audio_count_def f64_scale_def to_word_def)
  then show ?thesis
    using assms(1,3) round_20ms(1,3)
    by (simp add: audio_sample_def f64_quot_def f64_scale_def to_i64_def)
qed

text \<open>
  C25. Opus audio is paced exactly.  On a peer with audio in Opus, every sample the forwarder sends
  is written with its data and exactly 20 ms, 960 samples of the 48 kHz clock, although the pump
  computes both in floating point.  A peer that was set up without audio has no track to write to:
  the first sample that reaches its pump ends the agent.
\<close>

theorem opus_paced_exactly:
  assumes "NewPeerManager pion n stun turn videoCodec plid audioCodec audioEnabled = (Inr pm, calls)"
    and "audioCodec \<notin> {''pcmu'', ''pcma''}"
  shows "let sent = af_sent (forwardAudio paused stream zero_afwd)
    in audioPump cv pm sent =
         (if audioEnabled then Some (map (\<lambda>s. (sa_Data s, 20 * millisecond)) sent)
          else if sent = [] then Some [] else None)"
proof -
  let ?sent = "af_sent (forwardAudio paused stream zero_afwd)"
  have dur: "list_all (\<lambda>s. sa_Duration s = 20 * millisecond) ?sent"
    using audio_timeline [of paused stream] by (simp add: Let_def)
  have pm: "pm_audioTrack pm = (if audioEnabled then Some (audio_track (or_string ''opus'' audioCodec)) else None)"
    "pm_audioCodec pm = or_string ''opus'' audioCodec"
    "audioEnabled \<Longrightarrow> pm_audioClockRate pm = co_ClockRate (audio_track (or_string ''opus'' audioCodec))"
    using assms(1) by (auto simp: NewPeerManager_def Let_def split: prod.splits option.splits)
  show ?thesis
  proof (cases audioEnabled)
    case True
    have "audioPump cv pm ss = Some (map (\<lambda>s. (sa_Data s, 20 * millisecond)) ss)"
      if "list_all (\<lambda>s. sa_Duration s = 20 * millisecond) ss" for ss
      using that opus_sample [of pm "audio_track (or_string ''opus'' audioCodec)"] pm assms(2) True
      by (induction ss) (auto simp: or_string_def audio_track_def plain_codec_def)
    with dur True show ?thesis by (simp add: Let_def)
  next
    case False
    with pm show ?thesis by (cases ?sent) (simp_all add: Let_def audio_sample_def)
  qed
qed

definition demo_audio :: bytes where
  "demo_audio = [0x6F, 0x70, 0x75, 0x73] @ concat (map wire demo_frames)"

lemma demo_audio_sent:
  "map sa_Data (af_sent (forwardAudio (\<lambda>_. False) demo_audio zero_afwd)) = [[1], [2, 3]]"
proof -
  have r: "ReadFull 4 demo_audio = Some ([0x6F, 0x70, 0x75, 0x73], concat (map wire demo_frames))"
    by (simp add: ReadFull_Some demo_audio_def)
  have c: "ReadAudioCodecID demo_audio = (Inr 0x6F707573, concat (map wire demo_frames))"
    by (simp add: ReadAudioCodecID_def r DisableStreamCode_def DisableStreamCodeError_def Let_def)
  show ?thesis
    by (simp add: forwardAudio_def c demo_frames_read Let_def)
      (simp add: demo_frames_def audio_step_def demo_frame_fields Let_def zero_afwd_def case_prod_beta)
qed

theorem opus_paced_exactly_witness:
  "\<exists>pm calls. NewPeerManager (\<lambda>_. None) 0 [] None '''' '''' '''' True = (Inr pm, calls)
     \<and> audioPump conv_zero pm (af_sent (forwardAudio (\<lambda>_. False) demo_audio zero_afwd))
         = Some [([1], 20 * millisecond), ([2, 3], 20 * millisecond)]"
proof -
  let ?sent = "af_sent (forwardAudio (\<lambda>_. False) demo_audio zero_afwd)"
  obtain pm calls where n: "NewPeerManager (\<lambda>_. None) 0 [] None '''' '''' '''' True = (Inr pm, calls)"
    by (simp add: NewPeerManager_def Let_def or_string_def setup_steps_def audio_steps_def video_steps_def)
  from opus_paced_exactly [OF n, of "\<lambda>_. False" demo_audio conv_zero]
  have "audioPump conv_zero pm ?sent = Some (map (\<lambda>d. (d, 20 * millisecond)) (map sa_Data ?sent))"
    by (simp add: Let_def comp_def)
  with n show ?thesis unfolding demo_audio_sent by simp
qed

end
