(* ===== verification/PortPool.thy ===== *)
theory PortPool
  imports Prelude
begin

text \<open>
  \<open>agent/internal/portpool/portpool.go\<close>: the pool of local TCP ports that all device sessions of
  an agent share, so that no two \<open>adb forward\<close> rules use the same port.  The mutex makes each
  operation atomic, so an operation is a function on the pool.

  The contract the sessions rely on is the locale \<open>resource_pool\<close>; the pool interprets it.
\<close>

section \<open>The pool\<close>

text \<open>\<open>pool_used\<close> is the Go map \<open>map[int]bool\<close>: a missing key reads \<open>false\<close>.\<close>

record pool =
  pool_start :: int
  pool_size :: int
  pool_used :: "int \<rightharpoonup> bool"

datatype pool_error = PoolExhausted

definition New_pool :: "int \<Rightarrow> int \<Rightarrow> pool" where
  "New_pool s n = \<lparr>pool_start = s, pool_size = n, pool_used = Map.empty\<rparr>"

definition in_use :: "pool \<Rightarrow> int \<Rightarrow> bool" where
  "in_use p port \<longleftrightarrow> pool_used p port = Some True"

text \<open>The loop of \<open>Acquire\<close> from offset \<open>i\<close> with \<open>k\<close> offsets left to try.\<close>

fun acquire_scan :: "pool \<Rightarrow> int \<Rightarrow> nat \<Rightarrow> int option" where
  "acquire_scan p i 0 = None"
| "acquire_scan p i (Suc k) =
     (let port = pool_start p + i
      in if \<not> in_use p port then Some port else acquire_scan p (i + 1) k)"

definition Acquire :: "pool \<Rightarrow> (pool_error + int) \<times> pool" where
  "Acquire p =
     (case acquire_scan p 0 (nat (pool_size p)) of
        Some port \<Rightarrow> (Inr port, p\<lparr>pool_used := (pool_used p)(port \<mapsto> True)\<rparr>)
      | None \<Rightarrow> (Inl PoolExhausted, p))"

definition Release :: "int \<Rightarrow> pool \<Rightarrow> pool" where
  "Release port p = p\<lparr>pool_used := (pool_used p)(port := None)\<rparr>"

text \<open>The abstract state: the ports held, and the ports the pool may hand out.\<close>

definition held :: "pool \<Rightarrow> int set" where
  "held p = {port. in_use p port}"

definition capacity :: "pool \<Rightarrow> int set" where
  "capacity p = {pool_start p ..< pool_start p + pool_size p}"

section \<open>The scan finds the lowest free port\<close>

lemma acquire_scan_Some:
  "acquire_scan p i k = Some port \<Longrightarrow>
     pool_start p + i \<le> port \<and> port < pool_start p + i + int k \<and> \<not> in_use p port
     \<and> (\<forall>q. pool_start p + i \<le> q \<and> q < port \<longrightarrow> in_use p q)"
proof (induction p i k rule: acquire_scan.induct)
  case (2 p i k)
  show ?case
  proof (cases "in_use p (pool_start p + i)")
    case True
    with 2 have IH: "pool_start p + (i + 1) \<le> port" "port < pool_start p + (i + 1) + int k"
      "\<not> in_use p port" and low: "\<And>q. pool_start p + (i + 1) \<le> q \<and> q < port \<Longrightarrow> in_use p q"
      by (auto simp: Let_def)
    have "in_use p q" if "pool_start p + i \<le> q" "q < port" for q
      using that True low [of q] by (cases "q = pool_start p + i") auto
    with IH show ?thesis by auto
  next
    case False
    with 2 have "port = pool_start p + i" by (simp add: Let_def)
    with False show ?thesis by auto
  qed
qed simp

lemma acquire_scan_None:
  "acquire_scan p i k = None \<Longrightarrow> pool_start p + i \<le> q \<Longrightarrow> q < pool_start p + i + int k \<Longrightarrow> in_use p q"
proof (induction p i k rule: acquire_scan.induct)
  case (2 p i k)
  then show ?case
    by (cases "q = pool_start p + i") (auto simp: Let_def split: if_splits)
qed simp

lemma held_simps [simp]:
  "held (New_pool s n) = {}"
  "held (Release port p) = held p - {port}"
  "held (p\<lparr>pool_used := (pool_used p)(port \<mapsto> True)\<rparr>) = insert port (held p)"
  by (auto simp: held_def in_use_def New_pool_def Release_def)

lemma capacity_simps [simp]:
  "capacity (New_pool s n) = {s ..< s + n}"
  "capacity (Release port p) = capacity p"
  "capacity (pool_used_update f p) = capacity p"
  by (auto simp: capacity_def New_pool_def Release_def)

lemma Acquire_Inr:
  assumes "Acquire p = (Inr port, p')"
  shows "port \<in> capacity p" "port \<notin> held p" "held p' = insert port (held p)" "capacity p' = capacity p"
    "\<forall>q \<in> capacity p. q < port \<longrightarrow> q \<in> held p"
  using assms acquire_scan_Some [of p 0 "nat (pool_size p)" port]
  by (auto simp: Acquire_def held_def [of p] capacity_def split: option.splits if_splits)

lemma Acquire_Inl:
  assumes "Acquire p = (Inl e, p')"
  shows "capacity p \<subseteq> held p" "p' = p"
  using assms acquire_scan_None [of p 0 "nat (pool_size p)"]
  by (auto simp: Acquire_def held_def capacity_def split: option.splits)

section \<open>The contract of a resource pool\<close>

text \<open>What a session may assume of the pool it takes its port from.\<close>

locale resource_pool =
  fixes acquire :: "'p \<Rightarrow> ('e + 'r) \<times> 'p"
    and release :: "'r \<Rightarrow> 'p \<Rightarrow> 'p"
    and taken :: "'p \<Rightarrow> 'r set"
    and avail :: "'p \<Rightarrow> 'r set"
  assumes acquire_avail: "acquire p = (Inr r, p') \<Longrightarrow> r \<in> avail p"
    and acquire_fresh: "acquire p = (Inr r, p') \<Longrightarrow> r \<notin> taken p"
    and acquire_taken: "acquire p = (Inr r, p') \<Longrightarrow> taken p' = insert r (taken p)"
    and acquire_keeps: "acquire p = (Inr r, p') \<Longrightarrow> avail p' = avail p"
    and acquire_full: "acquire p = (Inl e, p') \<Longrightarrow> avail p \<subseteq> taken p \<and> p' = p"
    and release_taken: "taken (release r p) = taken p - {r}"
    and release_keeps: "avail (release r p) = avail p"
begin

text \<open>A resource taken and given back leaves the pool's contents as they were.\<close>

lemma acquire_release: "acquire p = (Inr r, p') \<Longrightarrow> taken (release r p') = taken p"
  using acquire_taken acquire_fresh by (fastforce simp: release_taken)

lemma acquire_Inr_iff:
  "(\<exists>r p'. acquire p = (Inr r, p')) \<longleftrightarrow> \<not> avail p \<subseteq> taken p"
proof
  assume "\<exists>r p'. acquire p = (Inr r, p')"
  then show "\<not> avail p \<subseteq> taken p" using acquire_avail acquire_fresh by blast
next
  assume "\<not> avail p \<subseteq> taken p"
  then show "\<exists>r p'. acquire p = (Inr r, p')"
    using acquire_full [of p] by (cases "acquire p"; cases "fst (acquire p)") auto
qed

text \<open>
  Clients that give back only what they hold: an operation acquires, or releases the \<open>i\<close>-th
  resource outstanding (no such resource: nothing happens).  The state is the list of resources
  outstanding and the pool.
\<close>

fun client_step :: "nat option \<Rightarrow> 'r list \<times> 'p \<Rightarrow> 'r list \<times> 'p" where
  "client_step None (out, p) =
     (case acquire p of (Inr r, p') \<Rightarrow> (r # out, p') | (Inl e, p') \<Rightarrow> (out, p'))"
| "client_step (Some i) (out, p) =
     (if i < length out then (take i out @ drop (Suc i) out, release (out ! i) p) else (out, p))"

definition client_inv :: "'r set \<Rightarrow> 'r list \<times> 'p \<Rightarrow> bool" where
  "client_inv av s \<longleftrightarrow> distinct (fst s) \<and> set (fst s) = taken (snd s)
     \<and> avail (snd s) = av \<and> taken (snd s) \<subseteq> av"

lemma client_step_inv: "client_inv av s \<Longrightarrow> client_inv av (client_step ev s)"
proof (cases s)
  case (Pair out p)
  assume inv: "client_inv av s"
  show ?thesis
  proof (cases ev)
    case None
    obtain res p' where acq: "acquire p = (res, p')" by (cases "acquire p")
    show ?thesis
    proof (cases res)
      case (Inl e)
      with acq have "p' = p" using acquire_full by simp
      with Inl acq None Pair inv show ?thesis by simp
    next
      case (Inr r)
      with acq have "acquire p = (Inr r, p')" by simp
      note facts = acquire_avail [OF this] acquire_fresh [OF this] acquire_taken [OF this]
        acquire_keeps [OF this]
      from inv Pair facts show ?thesis
        by (simp add: None Inr acq client_inv_def)
    qed
  next
    case (Some i)
    have "distinct (take i out @ drop (Suc i) out)
        \<and> set (take i out @ drop (Suc i) out) = set out - {out ! i}"
      if d: "distinct out" and i: "i < length out"
    proof -
      have split: "take i out @ out ! i # drop (Suc i) out = out"
        using i by (rule id_take_nth_drop [symmetric])
      from d have "distinct (take i out @ out ! i # drop (Suc i) out)" by (simp only: split)
      moreover have "set out = set (take i out @ out ! i # drop (Suc i) out)" by (simp only: split)
      ultimately show ?thesis by auto
    qed
    with Pair Some inv show ?thesis
      by (fastforce simp: client_inv_def release_taken release_keeps)
  qed
qed

lemma client_run_inv:
  assumes "taken p = {}"
  shows "client_inv (avail p) (fold client_step evs ([], p))"
proof -
  have "client_inv (avail p) ([], p)" using assms by (simp add: client_inv_def)
  then show ?thesis
    by (induction evs arbitrary: p rule: rev_induct) (auto intro: client_step_inv)
qed

end

interpretation ports: resource_pool Acquire Release held capacity
  by unfold_locales (auto dest: Acquire_Inr Acquire_Inl)

section \<open>Properties\<close>

text \<open>
  Written out: what a client of the pool does over time, with the ports it has outstanding.
  \<open>None\<close> is a call of \<open>Acquire\<close>, \<open>Some i\<close> gives the \<open>i\<close>-th outstanding port back.
\<close>

definition pool_run :: "nat option list \<Rightarrow> pool \<Rightarrow> int list \<times> pool" where
  "pool_run evs p = fold ports.client_step evs ([], p)"

text \<open>
  C32. Starting from a new pool, whatever sequence of acquisitions and releases the sessions make,
  the ports outstanding are pairwise different, lie in the configured range, and are exactly the
  ports the pool counts as used: two sessions never share an \<open>adb forward\<close> port.
\<close>

theorem pool_ports_exclusive:
  "distinct (fst (pool_run evs (New_pool s n)))
   \<and> set (fst (pool_run evs (New_pool s n))) = held (snd (pool_run evs (New_pool s n)))
   \<and> set (fst (pool_run evs (New_pool s n))) \<subseteq> {s ..< s + n}"
  using ports.client_run_inv [of "New_pool s n" evs]
  by (simp add: ports.client_inv_def pool_run_def)

text \<open>
  \<open>Acquire\<close> fails exactly when every port of the range is used, changing nothing then;
  otherwise it returns the lowest free port of the range and marks that port only.
\<close>

theorem Acquire_spec:
  "Acquire p =
     (if capacity p \<subseteq> held p then (Inl PoolExhausted, p)
      else (let port = Min (capacity p - held p)
            in (Inr port, p\<lparr>pool_used := (pool_used p)(port \<mapsto> True)\<rparr>)))"
proof (cases "acquire_scan p 0 (nat (pool_size p))")
  case None
  then have "Acquire p = (Inl PoolExhausted, p)" by (simp add: Acquire_def)
  with Acquire_Inl [OF this] show ?thesis by simp
next
  case (Some port)
  then have acq: "Acquire p = (Inr port, p\<lparr>pool_used := (pool_used p)(port \<mapsto> True)\<rparr>)"
    by (simp add: Acquire_def)
  note facts = Acquire_Inr [OF acq]
  have "Min (capacity p - held p) = port"
  proof (rule Min_eqI)
    show "finite (capacity p - held p)" by (simp add: capacity_def)
  qed (use facts in \<open>auto simp: not_less [symmetric]\<close>)
  with acq facts show ?thesis by auto
qed

end
