(* ===== verification/Adb.thy ===== *)
theory Adb
  imports GoStrings
begin

text \<open>
  \<open>agent/internal/adb/adb.go\<close>: the client of the \<open>adb\<close> executable.

  The executable, the file system and the network are outside the repository: they are the fields
  of \<open>env\<close>, functions on a state \<open>'w\<close> of the world that every definition here takes as an
  argument.  Nothing is assumed of them.  An error keeps the command's output and drops the
  operating system's message.  Sleeping and logging have no effect on the model.
\<close>

datatype start_result = Started | StdoutPipeError | StderrPipeError | StartError

record 'w env =
  run_adb :: "string \<Rightarrow> string list \<Rightarrow> 'w \<Rightarrow> (bool \<times> string) \<times> 'w"
  spawn_adb :: "string \<Rightarrow> string list \<Rightarrow> 'w \<Rightarrow> start_result \<times> 'w"
  stat_size :: "string \<Rightarrow> 'w \<Rightarrow> int option"
  dial :: "int \<Rightarrow> 'w \<Rightarrow> bool \<times> 'w"
  deadline_passed :: "'w \<Rightarrow> bool"

datatype adb_error =
    ForwardFailed string | ForwardRemoveFailed string | PushFailed string | ShellFailed string
  | DevicesFailed string | ConnectFailed string
  | PushJar adb_error | StdoutPipe | StderrPipe | StartServerFailed

record Client = cl_path :: string

definition New_client :: "string \<Rightarrow> Client" where
  "New_client path = \<lparr>cl_path = (if path = '''' then ''adb'' else path)\<rparr>"

definition args :: "string \<Rightarrow> string list \<Rightarrow> string list" where
  "args serial extra = [''-s'', serial] @ extra"

text \<open>A command run for its success: \<open>None\<close> is a nil error.\<close>

definition command ::
  "'w env \<Rightarrow> Client \<Rightarrow> (string \<Rightarrow> adb_error) \<Rightarrow> string list \<Rightarrow> 'w \<Rightarrow> adb_error option \<times> 'w" where
  "command E c err as w =
     (let ((ok, out), w') = run_adb E (cl_path c) as w
      in (if ok then None else Some (err out), w'))"

definition Forward :: "'w env \<Rightarrow> Client \<Rightarrow> string \<Rightarrow> int \<Rightarrow> string \<Rightarrow> 'w \<Rightarrow> adb_error option \<times> 'w" where
  "Forward E c serial localPort remoteAbstract =
     command E c ForwardFailed
       (args serial [''forward'', ''tcp:'' @ show_int localPort, ''localabstract:'' @ remoteAbstract])"

definition ForwardRemove :: "'w env \<Rightarrow> Client \<Rightarrow> string \<Rightarrow> int \<Rightarrow> 'w \<Rightarrow> adb_error option \<times> 'w" where
  "ForwardRemove E c serial localPort w =
     (let ((ok, out), w') =
            run_adb E (cl_path c) (args serial [''forward'', ''--remove'', ''tcp:'' @ show_int localPort]) w
      in if \<not> ok then
           if Contains out ''does not exist'' then (None, w')
           else (Some (ForwardRemoveFailed out), w')
         else (None, w'))"

definition Push :: "'w env \<Rightarrow> Client \<Rightarrow> string \<Rightarrow> string \<Rightarrow> string \<Rightarrow> 'w \<Rightarrow> adb_error option \<times> 'w" where
  "Push E c serial local remote =
     command E c PushFailed (args serial [''push'', local, remote])"

definition Shell :: "'w env \<Rightarrow> Client \<Rightarrow> string \<Rightarrow> string \<Rightarrow> 'w \<Rightarrow> adb_error option \<times> 'w" where
  "Shell E c serial cmd = command E c ShellFailed (args serial [''shell'', cmd])"

definition Connect :: "'w env \<Rightarrow> Client \<Rightarrow> string \<Rightarrow> 'w \<Rightarrow> adb_error option \<times> 'w" where
  "Connect E c serial = command E c ConnectFailed [''connect'', serial]"

section \<open>The list of devices\<close>

text \<open>One line of \<open>adb devices\<close>: the serial of a device that is ready.\<close>

definition device_line :: "string \<Rightarrow> string option" where
  "device_line l =
     (let line = TrimSpace l
      in if HasSuffix line (CHR 0x09 # ''device'') \<or> HasSuffix line '' device''
         then (case Fields line of p # _ \<Rightarrow> Some p | [] \<Rightarrow> None)
         else None)"

definition Devices :: "'w env \<Rightarrow> Client \<Rightarrow> 'w \<Rightarrow> (adb_error + string list) \<times> 'w" where
  "Devices E c w =
     (let ((ok, out), w') = run_adb E (cl_path c) [''devices''] w
      in (if ok then Inr (List.map_filter device_line (split_on (CHR 0x0A) out))
          else Inl (DevicesFailed out), w'))"

section \<open>Starting the server\<close>

definition ShellOutput :: "'w env \<Rightarrow> Client \<Rightarrow> string \<Rightarrow> string \<Rightarrow> 'w \<Rightarrow> (string \<times> bool) \<times> 'w" where
  "ShellOutput E c serial cmd w =
     (let ((ok, out), w') = run_adb E (cl_path c) (args serial [''shell'', cmd]) w
      in ((TrimSpace out, ok), w'))"

definition jarUpToDate ::
  "'w env \<Rightarrow> Client \<Rightarrow> string \<Rightarrow> string \<Rightarrow> string \<Rightarrow> 'w \<Rightarrow> bool \<times> 'w" where
  "jarUpToDate E c serial local remote w =
     (case stat_size E local w of
        None \<Rightarrow> (False, w)
      | Some localSize \<Rightarrow>
          (let ((out, ok), w1) =
                 ShellOutput E c serial (''stat -c %s '' @ remote @ '' 2>/dev/null'') w
           in if \<not> ok \<or> out = '''' then (False, w1)
              else case ParseInt out of
                     None \<Rightarrow> (False, w1)
                   | Some remoteSize \<Rightarrow> (remoteSize = localSize, w1)))"

definition pgrep_server :: string where
  "pgrep_server = ''pgrep -f '' @ [CHR 0x27] @ ''app_process.*scrcpy'' @ [CHR 0x27] @ '' 2>/dev/null''"

definition pkill_server :: string where
  "pkill_server =
     ''pkill -f '' @ [CHR 0x27] @ ''app_process.*scrcpy'' @ [CHR 0x27] @ '' 2>/dev/null || true''"

text \<open>The polls \<open>for i := 0; i < 15; i++\<close>: the result is the state of the world after them.\<close>

fun poll_gone :: "'w env \<Rightarrow> Client \<Rightarrow> string \<Rightarrow> nat \<Rightarrow> 'w \<Rightarrow> 'w" where
  "poll_gone E c serial 0 w = w"
| "poll_gone E c serial (Suc n) w =
     (let ((out, ok), w') = ShellOutput E c serial pgrep_server w
      in if out = '''' then w' else poll_gone E c serial n w')"

definition killStaleServer :: "'w env \<Rightarrow> Client \<Rightarrow> string \<Rightarrow> 'w \<Rightarrow> 'w" where
  "killStaleServer E c serial w =
     (let ((out, ok), w1) = ShellOutput E c serial pgrep_server w
      in if out = '''' then w1
         else poll_gone E c serial 15 (snd (Shell E c serial pkill_server w1)))"

definition remoteJar :: string where
  "remoteJar = ''/data/local/tmp/scrcpy-server.jar''"

text \<open>The words of the command line, and the command.\<close>

record server_opts =
  so_jarPath :: string
  so_serverVersion :: string
  so_maxSize :: int
  so_videoBitRate :: int
  so_audioBitRate :: int
  so_videoCodec :: string
  so_audioCodec :: string
  so_audioEncoder :: string
  so_powerOn :: bool
  so_stayAwake :: bool
  so_audioEnabled :: bool
  so_videoKeyframeInterval :: int
  so_videoMaxFPS :: int

definition server_parts :: "server_opts \<Rightarrow> string list" where
  "server_parts opt =
     [''CLASSPATH='' @ remoteJar @ '' app_process /'',
      ''com.genymobile.scrcpy.Server '' @ so_serverVersion opt,
      ''tunnel_forward=true'', ''cleanup=false'',
      ''audio='' @ show_bool (so_audioEnabled opt),
      ''control=true'', ''send_frame_meta=true'', ''send_stream_meta=true'',
      ''video_codec='' @ so_videoCodec opt,
      ''max_size='' @ show_int (so_maxSize opt),
      ''video_bit_rate='' @ show_int (so_videoBitRate opt)]
     @ (if so_videoMaxFPS opt > 0 then [''max_fps='' @ show_int (so_videoMaxFPS opt)] else [])
     @ (if so_videoKeyframeInterval opt > 0
        then [''video_codec_options=i-frame-interval='' @ show_int (so_videoKeyframeInterval opt)] else [])
     @ (if so_audioEnabled opt
        then [''audio_codec='' @ so_audioCodec opt, ''audio_bit_rate='' @ show_int (so_audioBitRate opt)]
        else [])
     @ (if so_audioEncoder opt \<noteq> '''' \<and> so_audioEnabled opt
        then [''audio_encoder='' @ so_audioEncoder opt] else [])
     @ (if so_powerOn opt then [''power_on=true''] else [])
     @ (if so_stayAwake opt then [''stay_awake=true''] else [])"

text \<open>\<open>None\<close> is success: the process runs and its pipes are open.\<close>

definition StartServer ::
  "'w env \<Rightarrow> Client \<Rightarrow> string \<Rightarrow> server_opts \<Rightarrow> 'w \<Rightarrow> adb_error option \<times> 'w" where
  "StartServer E c serial opt w =
     (let (upToDate, w1) = jarUpToDate E c serial (so_jarPath opt) remoteJar w;
          (pushErr, w2) = (if upToDate then (None, w1) else Push E c serial (so_jarPath opt) remoteJar w1)
      in case pushErr of
           Some e \<Rightarrow> (Some (PushJar e), w2)
         | None \<Rightarrow>
             (let w3 = killStaleServer E c serial w2;
                  shellCmd = join '' '' (server_parts opt);
                  (r, w4) = spawn_adb E (cl_path c) [''-s'', serial, ''shell'', shellCmd] w3
              in (case r of
                    StdoutPipeError \<Rightarrow> Some StdoutPipe
                  | StderrPipeError \<Rightarrow> Some StderrPipe
                  | StartError \<Rightarrow> Some StartServerFailed
                  | Started \<Rightarrow> None, w4)))"


section \<open>What the list of devices means\<close>

text \<open>The output of \<open>adb devices\<close> for a list of serials and states.\<close>

definition word_text :: "string \<Rightarrow> bool" where
  "word_text s \<longleftrightarrow> s \<noteq> '''' \<and> list_all (\<lambda>c. \<not> is_space c) s"

definition devices_output :: "(string \<times> string) list \<Rightarrow> string" where
  "devices_output ds =
     join [CHR 0x0A] ([''List of devices attached''] @ map (\<lambda>(s, st). s @ CHR 0x09 # st) ds @ ['''', ''''])"

lemma is_space_chars [simp]: "is_space (CHR 0x09)" "is_space (CHR 0x0A)" "is_space (CHR '' '')"
  by (simp_all add: is_space_def)

lemma word_text_no_space: "word_text s \<Longrightarrow> is_space c \<Longrightarrow> c \<notin> set s"
  by (auto simp: word_text_def list_all_iff)

lemma dropWhile_word: "word_text s \<Longrightarrow> dropWhile is_space (s @ r) = s @ r"
  by (cases s) (auto simp: word_text_def)

lemma word_text_rev: "word_text (rev s) \<longleftrightarrow> word_text s"
  by (simp add: word_text_def)

lemma TrimSpace_words:
  assumes "word_text s" "word_text t"
  shows "TrimSpace (s @ CHR 0x09 # t) = s @ CHR 0x09 # t"
  using dropWhile_word [OF assms(1)] dropWhile_word [of "rev t" "CHR 0x09 # rev s"] assms
  by (simp add: TrimSpace_def trim_left_def word_text_rev)

lemma Fields_word:
  assumes "word_text s" "is_space c"
  shows "Fields (s @ c # r) = s # Fields (c # r)"
proof -
  have "takeWhile (\<lambda>c. \<not> is_space c) (s @ c # r) = s"
    "dropWhile (\<lambda>c. \<not> is_space c) (s @ c # r) = c # r"
    using assms by (simp_all add: word_text_def list_all_iff takeWhile_append dropWhile_append)
  moreover have "s @ c # r \<noteq> []" by simp
  ultimately show ?thesis
    by (subst Fields.simps) (simp add: dropWhile_word [OF assms(1)] Let_def)
qed

lemma suffix_tab_iff:
  assumes "word_text t"
  shows "suffix (CHR 0x09 # u) (s @ CHR 0x09 # t) \<and> CHR 0x09 \<notin> set u \<longleftrightarrow> u = t"
proof
  assume "suffix (CHR 0x09 # u) (s @ CHR 0x09 # t) \<and> CHR 0x09 \<notin> set u"
  then obtain p where "s @ CHR 0x09 # t = p @ CHR 0x09 # u" "CHR 0x09 \<notin> set u" by (auto simp: suffix_def)
  with word_text_no_space [OF assms is_space_chars(1)] show "u = t"
    by (auto simp: append_eq_append_conv2 Cons_eq_append_conv append_eq_Cons_conv)
next
  assume "u = t"
  with word_text_no_space [OF assms is_space_chars(1)]
  show "suffix (CHR 0x09 # u) (s @ CHR 0x09 # t) \<and> CHR 0x09 \<notin> set u" by (auto simp: suffix_def)
qed

lemma device_line_entry:
  assumes "word_text s" "word_text t"
  shows "device_line (s @ CHR 0x09 # t) = (if t = ''device'' then Some s else None)"
proof -
  have "CHR '' '' \<notin> set (s @ CHR 0x09 # t)"
    using word_text_no_space [OF assms(1) is_space_chars(3)]
      word_text_no_space [OF assms(2) is_space_chars(3)] by simp
  then have "\<not> suffix '' device'' (s @ CHR 0x09 # t)"
    by (auto dest: set_mono_suffix)
  moreover have "suffix (CHR 0x09 # ''device'') (s @ CHR 0x09 # t) \<longleftrightarrow> ''device'' = t"
    using suffix_tab_iff [OF assms(2), of "''device''" s] by simp
  ultimately show ?thesis
    using Fields_word [OF assms(1), of "CHR 0x09" t]
    by (auto simp: device_line_def TrimSpace_words [OF assms] HasSuffix_def Let_def)
qed

text \<open>
  \<open>Devices\<close> returns exactly the serials that adb lists in the state \<open>device\<close>, in adb's order:
  neither the heading, nor blank lines, nor offline and unauthorized devices.
\<close>

theorem Devices_ready:
  assumes "\<forall>(s, st) \<in> set ds. word_text s \<and> word_text st"
    and "run_adb E (cl_path c) [''devices''] w = ((True, devices_output ds), w')"
  shows "Devices E c w = (Inr (map fst (filter (\<lambda>(s, st). st = ''device'') ds)), w')"
proof -
  let ?lines = "[''List of devices attached''] @ map (\<lambda>(s, st). s @ CHR 0x09 # st) ds @ ['''', '''']"
  have nl: "\<forall>l \<in> set ?lines. CHR 0x0A \<notin> set l"
    using assms(1) word_text_no_space [OF _ is_space_chars(2)] by fastforce
  have split: "split_on (CHR 0x0A) (devices_output ds) = ?lines"
    unfolding devices_output_def by (rule split_join) (use nl in simp_all)
  have "List.map_filter device_line (map (\<lambda>(s, st). s @ CHR 0x09 # st) ds)
      = map fst (filter (\<lambda>(s, st). st = ''device'') ds)"
    using assms(1) by (induction ds) (auto simp: List.map_filter_simps device_line_entry)
  moreover have "device_line ''List of devices attached'' = None" "device_line '''' = None"
    by (simp_all add: device_line_def TrimSpace_def trim_left_def is_space_def HasSuffix_def
        suffix_def Let_def suffix_to_prefix)
  ultimately have "List.map_filter device_line ?lines
      = map fst (filter (\<lambda>(s, st). st = ''device'') ds)"
    by (simp add: List.map_filter_def)
  then show ?thesis by (simp add: Devices_def assms(2) split)
qed


text \<open>A world where adb lists one ready and one offline device and every call works.\<close>

definition demo_env :: "nat env" where
  "demo_env = \<lparr>
     run_adb = (\<lambda>path as w. ((True, devices_output [(''emu5554'', ''device''), (''usb1'', ''offline'')]), Suc w)),
     spawn_adb = (\<lambda>path as w. (Started, Suc w)), stat_size = (\<lambda>path w. None),
     dial = (\<lambda>port w. (True, Suc w)), deadline_passed = (\<lambda>w. 10 < w)\<rparr>"

lemma Devices_ready_witness:
  "Devices demo_env (New_client '''') 0 = (Inr [''emu5554''], 1)"
  using Devices_ready [of "[(''emu5554'', ''device''), (''usb1'', ''offline'')]" demo_env "New_client ''''" 0 1]
  by (simp add: demo_env_def word_text_def is_space_def)

end
