(* ===== verification/Session.thy ===== *)
theory Session
  imports PortPool Config Adb
begin

text \<open>
  The life of a device session, \<open>agent/internal/gateway/session.go\<close>: taking a port, forwarding it,
  starting the scrcpy server, connecting its streams, and giving everything back.

  A session acts on the \<open>world\<close>: the port pool, the TCP connections open and the part that \<open>env\<close>
  describes (\<open>adb\<close>, the network).  A connection is the number it was opened with.  The forwarder
  goroutines are theory \<open>Forwarding\<close>; here it matters that each closes its own channel when it
  returns, and that \<open>Release\<close> waits for all three channels to be closed.  Waiting for ever is \<open>None\<close>.
\<close>

datatype State =
  Created | PortAllocated | Forwarded | ServerRunning | Connected | Streaming | Error | Released

record session =
  ss_serial :: string
  ss_cfg :: ScrcpyConfig
  ss_state :: State
  ss_adbPort :: int
  ss_server :: bool
  ss_videoConn :: "nat option"
  ss_audioConn :: "nat option"
  ss_ctrlConn :: "nat option"
  ss_stopClosed :: bool
  ss_forwardersStarted :: bool
  ss_forwardPaused :: bool
  ss_died :: bool
  ss_videoCodec :: string
  ss_profileLevelID :: string

record 'w world =
  wd_pool :: pool
  wd_open :: "nat set"
  wd_next :: nat
  wd_ext :: 'w

datatype session_error =
    AllocatePort pool_error | AdbForward adb_error | ServerError adb_error | ConnectStreams

definition NewSession :: "string \<Rightarrow> ScrcpyConfig \<Rightarrow> session" where
  "NewSession serial cfg = \<lparr>
     ss_serial = serial, ss_cfg = cfg, ss_state = Created, ss_adbPort = 0, ss_server = False,
     ss_videoConn = None, ss_audioConn = None, ss_ctrlConn = None, ss_stopClosed = False,
     ss_forwardersStarted = False, ss_forwardPaused = False, ss_died = False,
     ss_videoCodec = sc_VideoCodec cfg, ss_profileLevelID = ''''\<rparr>"

definition setState :: "State \<Rightarrow> session \<Rightarrow> session" where
  "setState st s = s\<lparr>ss_state := st\<rparr>"

definition Alive :: "session \<Rightarrow> bool" where
  "Alive s \<longleftrightarrow> \<not> (ss_state s = Error \<or> ss_state s = Released) \<and> \<not> ss_died s"

definition SetForwardPaused :: "bool \<Rightarrow> session \<Rightarrow> session" where
  "SetForwardPaused paused s = s\<lparr>ss_forwardPaused := paused\<rparr>"

text \<open>The goroutines it starts are the forwarders; a second call does nothing.\<close>

definition StartForwarders :: "session \<Rightarrow> session" where
  "StartForwarders s =
     (if ss_forwardersStarted s then s else s\<lparr>ss_forwardersStarted := True\<rparr>)"

section \<open>The port and its forwarding\<close>

type_synonym 'w step = "session \<times> 'w world \<Rightarrow> session_error option \<times> session \<times> 'w world"

definition allocatePort :: "'w step" where
  "allocatePort = (\<lambda>(s, w).
     case Acquire (wd_pool w) of
       (Inl e, p) \<Rightarrow> (Some (AllocatePort e), s, w\<lparr>wd_pool := p\<rparr>)
     | (Inr port, p) \<Rightarrow>
         (None, setState PortAllocated (s\<lparr>ss_adbPort := port\<rparr>), w\<lparr>wd_pool := p\<rparr>))"

definition releasePort :: "session \<times> 'w world \<Rightarrow> session \<times> 'w world" where
  "releasePort = (\<lambda>(s, w).
     if ss_adbPort s \<noteq> 0
     then (s\<lparr>ss_adbPort := 0\<rparr>, w\<lparr>wd_pool := Release (ss_adbPort s) (wd_pool w)\<rparr>)
     else (s, w))"

definition setupForward :: "'w env \<Rightarrow> Client \<Rightarrow> 'w step" where
  "setupForward E c = (\<lambda>(s, w).
     let x1 = snd (ForwardRemove E c (ss_serial s) (ss_adbPort s) (wd_ext w));
         (err, x2) = Forward E c (ss_serial s) (ss_adbPort s) ''scrcpy'' x1;
         w' = w\<lparr>wd_ext := x2\<rparr>
     in case err of
          Some e \<Rightarrow> (Some (AdbForward e), s, w')
        | None \<Rightarrow> (None, setState Forwarded s, w'))"

text \<open>Three attempts at most, until one succeeds.\<close>

fun remove_attempts :: "'w env \<Rightarrow> Client \<Rightarrow> string \<Rightarrow> int \<Rightarrow> nat \<Rightarrow> 'w \<Rightarrow> 'w" where
  "remove_attempts E c serial port 0 x = x"
| "remove_attempts E c serial port (Suc n) x =
     (case ForwardRemove E c serial port x of
        (None, x') \<Rightarrow> x'
      | (Some e, x') \<Rightarrow> remove_attempts E c serial port n x')"

definition cleanupForward :: "'w env \<Rightarrow> Client \<Rightarrow> session \<times> 'w world \<Rightarrow> session \<times> 'w world" where
  "cleanupForward E c = (\<lambda>(s, w).
     (s, if ss_adbPort s \<noteq> 0
         then w\<lparr>wd_ext := remove_attempts E c (ss_serial s) (ss_adbPort s) 3 (wd_ext w)\<rparr> else w))"

section \<open>The server\<close>

definition opts_of :: "ScrcpyConfig \<Rightarrow> server_opts" where
  "opts_of cfg = \<lparr>
     so_jarPath = sc_JarPath cfg, so_serverVersion = sc_ServerVersion cfg,
     so_maxSize = sc_MaxSize cfg, so_videoBitRate = sc_VideoBitRate cfg,
     so_audioBitRate = sc_AudioBitRate cfg, so_videoCodec = sc_VideoCodec cfg,
     so_audioCodec = sc_AudioCodec cfg, so_audioEncoder = sc_AudioEncoder cfg,
     so_powerOn = sc_PowerOn cfg, so_stayAwake = sc_StayAwake cfg,
     so_audioEnabled = sc_AudioEnabled cfg,
     so_videoKeyframeInterval = sc_VideoKeyframeInterval cfg,
     so_videoMaxFPS = sc_VideoMaxFPS cfg\<rparr>"

text \<open>
  A round of the wait sleeps 200 ms, so at most 50 rounds begin within its ten seconds.
\<close>

fun waitForServerSocket :: "'w env \<Rightarrow> Client \<Rightarrow> string \<Rightarrow> nat \<Rightarrow> 'w \<Rightarrow> bool \<times> 'w" where
  "waitForServerSocket E c serial 0 x = (False, x)"
| "waitForServerSocket E c serial (Suc n) x =
     (if deadline_passed E x then (False, x)
      else let ((out, ok), x') =
                 ShellOutput E c serial
                   (''grep -c '' @ [CHR 0x27] @ ''@scrcpy'' @ [CHR 0x27] @ '' /proc/net/unix 2>/dev/null'') x
           in if ok \<and> out \<noteq> '''' \<and> out \<noteq> ''0'' then (True, x')
              else waitForServerSocket E c serial n x')"

definition startServer :: "'w env \<Rightarrow> Client \<Rightarrow> 'w step" where
  "startServer E c = (\<lambda>(s, w).
     case StartServer E c (ss_serial s) (opts_of (ss_cfg s)) (wd_ext w) of
       (Some e, x) \<Rightarrow> (Some (ServerError e), s, w\<lparr>wd_ext := x\<rparr>)
     | (None, x) \<Rightarrow>
         (let s' = setState ServerRunning (s\<lparr>ss_server := True\<rparr>);
              x' = snd (waitForServerSocket E c (ss_serial s) 50 x)
          in (None, s', w\<lparr>wd_ext := x'\<rparr>)))"

text \<open>Interrupts the server and waits for it to end.\<close>

definition cleanupServer :: "session \<times> 'w world \<Rightarrow> session \<times> 'w world" where
  "cleanupServer = (\<lambda>(s, w). (s\<lparr>ss_server := False\<rparr>, w))"

section \<open>The streams\<close>

definition dial_conn :: "'w env \<Rightarrow> int \<Rightarrow> 'w world \<Rightarrow> nat option \<times> 'w world" where
  "dial_conn E port w =
     (let (ok, x) = dial E port (wd_ext w)
      in if ok then (Some (wd_next w),
                     w\<lparr>wd_open := insert (wd_next w) (wd_open w), wd_next := Suc (wd_next w), wd_ext := x\<rparr>)
         else (None, w\<lparr>wd_ext := x\<rparr>))"

definition close_conn :: "nat option \<Rightarrow> 'w world \<Rightarrow> 'w world" where
  "close_conn i w = (case i of None \<Rightarrow> w | Some k \<Rightarrow> w\<lparr>wd_open := wd_open w - {k}\<rparr>)"

text \<open>The control connection, the last of an attempt: \<open>True\<close> when all are made.\<close>

definition connect_control :: "'w env \<Rightarrow> nat \<Rightarrow> nat option \<Rightarrow> session \<times> 'w world \<Rightarrow> bool \<times> session \<times> 'w world" where
  "connect_control E vc ac = (\<lambda>(s, w).
     case dial_conn E (ss_adbPort s) w of
       (None, w1) \<Rightarrow>
         (let w2 = close_conn (Some vc) w1;
              w3 = (if ac \<noteq> None then close_conn ac w2
                    else if ss_audioConn s \<noteq> None then close_conn (ss_audioConn s) w2 else w2)
          in (False, s\<lparr>ss_videoConn := None, ss_audioConn := None\<rparr>, w3))
     | (Some cc, w1) \<Rightarrow> (True, setState Connected (s\<lparr>ss_ctrlConn := Some cc\<rparr>), w1))"

definition connect_attempt :: "'w env \<Rightarrow> session \<times> 'w world \<Rightarrow> bool \<times> session \<times> 'w world" where
  "connect_attempt E = (\<lambda>(s, w).
     case dial_conn E (ss_adbPort s) w of
       (None, w1) \<Rightarrow> (False, s, w1)
     | (Some vc, w1) \<Rightarrow>
         (let s1 = s\<lparr>ss_videoConn := Some vc\<rparr>
          in if sc_AudioEnabled (ss_cfg s1) then
               (case dial_conn E (ss_adbPort s1) w1 of
                  (None, w2) \<Rightarrow> (False, s1\<lparr>ss_videoConn := None\<rparr>, close_conn (Some vc) w2)
                | (Some ac, w2) \<Rightarrow> connect_control E vc (Some ac) (s1\<lparr>ss_audioConn := Some ac\<rparr>, w2))
             else connect_control E vc None (s1\<lparr>ss_audioConn := None\<rparr>, w1)))"

fun connect_loop :: "'w env \<Rightarrow> nat \<Rightarrow> 'w step" where
  "connect_loop E 0 (s, w) = (Some ConnectStreams, s, w)"
| "connect_loop E (Suc n) (s, w) =
     (case connect_attempt E (s, w) of
        (True, s', w') \<Rightarrow> (None, s', w')
      | (False, s', w') \<Rightarrow> connect_loop E n (s', w'))"

definition connectStreams :: "'w env \<Rightarrow> 'w step" where
  "connectStreams E = connect_loop E 40"

section \<open>Start and Release\<close>

definition fail :: "session_error \<Rightarrow> session \<times> 'w world \<Rightarrow> session_error option \<times> session \<times> 'w world" where
  "fail e sw = (Some e, sw)"

text \<open>Each failure marks the session and undoes the steps before it, in reverse order.\<close>

definition Start :: "'w env \<Rightarrow> Client \<Rightarrow> 'w step" where
  "Start E c sw =
     (case allocatePort sw of
        (Some e, s, w) \<Rightarrow> fail e (setState Error s, w)
      | (None, sw1) \<Rightarrow>
     (case setupForward E c sw1 of
        (Some e, s, w) \<Rightarrow> fail e (releasePort (setState Error s, w))
      | (None, sw2) \<Rightarrow>
     (case startServer E c sw2 of
        (Some e, s, w) \<Rightarrow> fail e (releasePort (cleanupForward E c (setState Error s, w)))
      | (None, sw3) \<Rightarrow>
     (case connectStreams E sw3 of
        (Some e, s, w) \<Rightarrow>
          fail e (releasePort (cleanupForward E c (cleanupServer (setState Error s, w))))
      | (None, s, w) \<Rightarrow> (None, setState Streaming s, w)))))"

text \<open>
  \<open>Release\<close> waits for the forwarders (\<open>returns\<close>: they all return once their sockets are closed)
  and then for the three channels to be closed.  \<open>VideoCh\<close> and \<open>CtrlCh\<close> are closed by forwarders;
  \<open>AudioCh\<close> by the audio forwarder, which \<open>StartForwarders\<close> starts only when audio is enabled.
\<close>

definition channels_close :: "session \<Rightarrow> bool" where
  "channels_close s \<longleftrightarrow> ss_forwardersStarted s \<and> sc_AudioEnabled (ss_cfg s)"

definition Session_Release ::
  "bool \<Rightarrow> 'w env \<Rightarrow> Client \<Rightarrow> session \<times> 'w world \<Rightarrow> (session \<times> 'w world) option" where
  "Session_Release returns E c = (\<lambda>(s, w).
     if ss_state s = Released then Some (s, w)
     else
       let s1 = (setState Released s)\<lparr>ss_stopClosed := True\<rparr>;
           w1 = close_conn (ss_ctrlConn s1) (close_conn (ss_audioConn s1) (close_conn (ss_videoConn s1) w))
       in if ss_forwardersStarted s1 \<and> \<not> returns then None
          else let s2 = (if ss_forwardersStarted s1 then s1\<lparr>ss_died := True\<rparr> else s1)
               in if \<not> channels_close s2 then None
                  else Some (releasePort (cleanupForward E c (cleanupServer (s2, w1)))))"


section \<open>What a start leaves behind\<close>

text \<open>The part of the world that is not the outside.\<close>

definition resources :: "'w world \<Rightarrow> int set \<times> nat set" where
  "resources w = (held (wd_pool w), wd_open w)"

definition fresh_conns :: "'w world \<Rightarrow> bool" where
  "fresh_conns w \<longleftrightarrow> wd_open w \<subseteq> {..<wd_next w}"

lemma setupForward_keeps:
  "setupForward E c (s, w) = (err, s', w') \<Longrightarrow>
     wd_pool w' = wd_pool w \<and> wd_open w' = wd_open w \<and> wd_next w' = wd_next w
     \<and> s' = (if err = None then setState Forwarded s else s)"
  by (auto simp: setupForward_def Let_def split: prod.splits option.splits)

lemma startServer_keeps:
  "startServer E c (s, w) = (err, s', w') \<Longrightarrow>
     wd_pool w' = wd_pool w \<and> wd_open w' = wd_open w \<and> wd_next w' = wd_next w
     \<and> s' = (if err = None then setState ServerRunning (s\<lparr>ss_server := True\<rparr>) else s)"
  by (auto simp: startServer_def Let_def split: prod.splits option.splits)

lemma cleanupForward_keeps:
  "cleanupForward E c (s, w) = (s', w') \<Longrightarrow>
     wd_pool w' = wd_pool w \<and> wd_open w' = wd_open w \<and> s' = s"
  by (auto simp: cleanupForward_def split: if_splits)

text \<open>An attempt that fails closes what it opened; one that succeeds opened exactly the streams.\<close>

definition attempt_post :: "session \<Rightarrow> 'w world \<Rightarrow> bool \<times> session \<times> 'w world \<Rightarrow> bool" where
  "attempt_post s w r =
     (case r of (ok, s', w') \<Rightarrow>
        wd_pool w' = wd_pool w \<and> fresh_conns w' \<and> ss_adbPort s' = ss_adbPort s \<and> ss_cfg s' = ss_cfg s
        \<and> ss_server s' = ss_server s \<and> ss_forwardersStarted s' = ss_forwardersStarted s
        \<and> (if ok
           then \<exists>v cc. ss_videoConn s' = Some v \<and> ss_ctrlConn s' = Some cc
              \<and> (ss_audioConn s' \<noteq> None \<longleftrightarrow> sc_AudioEnabled (ss_cfg s))
              \<and> v \<noteq> cc \<and> Some v \<noteq> ss_audioConn s' \<and> Some cc \<noteq> ss_audioConn s'
              \<and> wd_open w' = wd_open w \<union> {v, cc} \<union> set_option (ss_audioConn s')
              \<and> ss_state s' = Connected
           else ss_videoConn s' = None \<and> ss_audioConn s' = None \<and> ss_ctrlConn s' = ss_ctrlConn s
              \<and> wd_open w' = wd_open w \<and> ss_state s' = ss_state s))"

lemma fresh_notin: "fresh_conns w \<Longrightarrow> wd_next w \<notin> wd_open w \<and> Suc (wd_next w) \<notin> wd_open w
    \<and> Suc (Suc (wd_next w)) \<notin> wd_open w"
  by (auto simp: fresh_conns_def dest: subsetD)

lemma connect_attempt_post:
  assumes "fresh_conns w" "ss_videoConn s = None" "ss_audioConn s = None"
  shows "attempt_post s w (connect_attempt E (s, w))"
  using fresh_notin [OF assms(1)] assms
  by (auto simp: attempt_post_def connect_attempt_def connect_control_def dial_conn_def close_conn_def
      setState_def fresh_conns_def Let_def split: prod.splits option.splits if_splits)

lemma connect_loop_post:
  assumes "fresh_conns w" "ss_videoConn s = None" "ss_audioConn s = None" "ss_ctrlConn s = None"
    and "connect_loop E n (s, w) = (err, s', w')"
  shows "attempt_post s w (err = None, s', w')"
  using assms
proof (induction n arbitrary: s w)
  case 0
  then show ?case by (auto simp: attempt_post_def)
next
  case (Suc n)
  obtain ok s1 w1 where a: "connect_attempt E (s, w) = (ok, s1, w1)" by (metis prod.exhaust)
  have post: "attempt_post s w (ok, s1, w1)"
    unfolding a [symmetric] using Suc.prems by (intro connect_attempt_post)
  show ?case
  proof (cases ok)
    case True
    with Suc.prems a post show ?thesis by simp
  next
    case False
    with post Suc.prems have "fresh_conns w1" "ss_videoConn s1 = None" "ss_audioConn s1 = None"
      "ss_ctrlConn s1 = None" by (simp_all add: attempt_post_def)
    with Suc.IH [of w1 s1] Suc.prems a False have "attempt_post s1 w1 (err = None, s', w')" by simp
    with post False show ?thesis by (cases err) (auto simp: attempt_post_def)
  qed
qed


lemmas Start_steps = allocatePort_def releasePort_def cleanupServer_def fail_def setState_def

lemma allocatePort_ok:
  "allocatePort (s, w) = (None, s', w') \<Longrightarrow>
     \<exists>port p. Acquire (wd_pool w) = (Inr port, p)
       \<and> s' = setState PortAllocated (s\<lparr>ss_adbPort := port\<rparr>) \<and> w' = w\<lparr>wd_pool := p\<rparr>"
  by (auto simp: allocatePort_def split: prod.splits sum.splits)

lemma allocatePort_full:
  "allocatePort (s, w) = (Some e, s', w') \<Longrightarrow> s' = s \<and> held (wd_pool w') = held (wd_pool w)
     \<and> wd_open w' = wd_open w"
  by (auto simp: allocatePort_def split: prod.splits sum.splits dest: Acquire_Inl(2))

text \<open>A session that starts has the connections its own configuration asks for.\<close>

lemma Start_streams:
  assumes "Start E c (NewSession serial cfg, w) = (None, s', w')" "fresh_conns w"
  shows "ss_audioConn s' \<noteq> None \<longleftrightarrow> sc_AudioEnabled cfg"
proof -
  obtain s1 w1 s2 w2 s3 w3 s4 where
    1: "allocatePort (NewSession serial cfg, w) = (None, s1, w1)" and
    2: "setupForward E c (s1, w1) = (None, s2, w2)" and
    3: "startServer E c (s2, w2) = (None, s3, w3)" and
    4: "connectStreams E (s3, w3) = (None, s4, w')" and s': "s' = setState Streaming s4"
    using assms(1) by (auto simp: Start_def fail_def split: prod.splits option.splits)
  obtain port p where s1: "s1 = setState PortAllocated ((NewSession serial cfg)\<lparr>ss_adbPort := port\<rparr>)"
    and w1: "w1 = w\<lparr>wd_pool := p\<rparr>"
    using allocatePort_ok [OF 1] by auto
  note k = setupForward_keeps [OF 2] startServer_keeps [OF 3]
  have "fresh_conns w3" "ss_videoConn s3 = None" "ss_audioConn s3 = None" "ss_ctrlConn s3 = None"
    and cfg: "ss_cfg s3 = cfg"
    using k s1 w1 assms(2) by (simp_all add: fresh_conns_def setState_def NewSession_def)
  from connect_loop_post [OF this(1-4) 4 [unfolded connectStreams_def]]
  show ?thesis unfolding attempt_post_def by (auto simp: s' setState_def cfg)
qed

text \<open>The outcome of a start, seen from the world it began in.\<close>

definition start_post :: "ScrcpyConfig \<Rightarrow> 'w world \<Rightarrow> session_error option \<times> session \<times> 'w world \<Rightarrow> bool" where
  "start_post cfg w r = (case r of
      (Some e, s', w') \<Rightarrow> ss_state s' = Error \<and> ss_adbPort s' = 0 \<and> \<not> ss_server s'
        \<and> resources w' = resources w
    | (None, s', w') \<Rightarrow> ss_state s' = Streaming \<and> ss_server s'
        \<and> ss_adbPort s' \<in> capacity (wd_pool w) - held (wd_pool w)
        \<and> (\<exists>v cc a. ss_videoConn s' = Some v \<and> ss_ctrlConn s' = Some cc \<and> ss_audioConn s' = a
             \<and> (a \<noteq> None \<longleftrightarrow> sc_AudioEnabled cfg)
             \<and> resources w' = (insert (ss_adbPort s') (held (wd_pool w)),
                                wd_open w \<union> {v, cc} \<union> set_option a)))"

lemma start_post_served:
  assumes 1: "allocatePort (NewSession serial cfg, w) = (None, s1, w1)"
    and acq: "Acquire (wd_pool w) = (Inr port, p)" and fresh: "fresh_conns w" and nz: "port \<noteq> 0"
    and s1: "s1 = setState PortAllocated ((NewSession serial cfg)\<lparr>ss_adbPort := port\<rparr>)" and w1: "w1 = w\<lparr>wd_pool := p\<rparr>"
    and 2: "setupForward E c (s1, w1) = (None, s2, w2)" and 3: "startServer E c (s2, w2) = (None, s3, w3)"
  shows "start_post cfg w (Start E c (NewSession serial cfg, w))"
proof -
  note port = Acquire_Inr [OF acq] and k2 = setupForward_keeps [OF 2] and k3 = startServer_keeps [OF 3]
  obtain r4 s4 w4 where 4: "connectStreams E (s3, w3) = (r4, s4, w4)" by (metis prod.exhaust)
  have "fresh_conns w3" using fresh w1 k2 k3 by (simp add: fresh_conns_def)
  moreover have "ss_videoConn s3 = None" "ss_audioConn s3 = None" "ss_ctrlConn s3 = None"
    using k2 k3 s1 by (simp_all add: setState_def NewSession_def)
  ultimately have post: "attempt_post s3 w3 (r4 = None, s4, w4)"
    using 4 unfolding connectStreams_def by (intro connect_loop_post)
  have s3: "ss_adbPort s3 = port" "ss_cfg s3 = cfg" "ss_server s3"
    using k2 k3 s1 by (simp_all add: setState_def NewSession_def)
  have pool: "wd_pool w4 = p" "wd_open w3 = wd_open w"
    using post k2 k3 w1 by (simp_all add: attempt_post_def)
  have eq: "Start E c (NewSession serial cfg, w) = (case r4 of
      Some e \<Rightarrow> fail e (releasePort (cleanupForward E c (cleanupServer (setState Error s4, w4))))
    | None \<Rightarrow> (None, setState Streaming s4, w4))"
    using 1 2 3 4 by (simp add: Start_def split: option.splits)
  show ?thesis
  proof (cases r4)
    case (Some e)
    obtain s5 w5 where 5:
      "cleanupForward E c ((setState Error s4)\<lparr>ss_server := False\<rparr>, w4) = (s5, w5)" by fastforce
    note k5 = cleanupForward_keeps [OF 5]
    from Some post 5 k5 s3 pool nz ports.acquire_release [OF acq] show ?thesis
      by (simp add: start_post_def eq Start_steps resources_def attempt_post_def)
  next
    case None
    with post s3 pool port show ?thesis
      by (auto simp: start_post_def eq setState_def resources_def attempt_post_def)
  qed
qed

text \<open>
  C15. Starting a session is all or nothing.  If it fails, at whichever step, the session is in
  state \<open>Error\<close> without a port or a server process, the port pool holds what it held before and no
  connection is left open.  If it succeeds, the session is streaming on a port nobody else holds,
  with a video and a control connection, and an audio connection exactly when audio is enabled.
\<close>

theorem Start_all_or_nothing:
  assumes "fresh_conns w" "0 \<notin> capacity (wd_pool w)"
  shows "case Start E c (NewSession serial cfg, w) of
      (Some e, s', w') \<Rightarrow> ss_state s' = Error \<and> ss_adbPort s' = 0 \<and> \<not> ss_server s'
        \<and> resources w' = resources w
    | (None, s', w') \<Rightarrow> ss_state s' = Streaming \<and> ss_server s'
        \<and> ss_adbPort s' \<in> capacity (wd_pool w) - held (wd_pool w)
        \<and> (\<exists>v cc a. ss_videoConn s' = Some v \<and> ss_ctrlConn s' = Some cc \<and> ss_audioConn s' = a
             \<and> (a \<noteq> None \<longleftrightarrow> sc_AudioEnabled cfg)
             \<and> resources w' = (insert (ss_adbPort s') (held (wd_pool w)),
                                wd_open w \<union> {v, cc} \<union> set_option a))"
proof -
  let ?s = "NewSession serial cfg"
  have "start_post cfg w (Start E c (?s, w))"
  proof (cases "fst (allocatePort (?s, w))")
    case (Some e)
    then obtain s1 w1 where 1: "allocatePort (?s, w) = (Some e, s1, w1)" by (metis prod.collapse)
    with allocatePort_full [OF 1] show ?thesis
      by (simp add: start_post_def Start_def Start_steps resources_def NewSession_def)
  next
    case None
    then obtain s1 w1 where 1: "allocatePort (?s, w) = (None, s1, w1)" by (metis prod.collapse)
    from allocatePort_ok [OF 1] obtain port p where acq: "Acquire (wd_pool w) = (Inr port, p)"
      and s1: "s1 = setState PortAllocated (?s\<lparr>ss_adbPort := port\<rparr>)" and w1: "w1 = w\<lparr>wd_pool := p\<rparr>"
      by auto
    have nz: "port \<noteq> 0" using Acquire_Inr(1) [OF acq] assms(2) by auto
    note given_back = ports.acquire_release [OF acq]
    obtain r2 s2 w2 where 2: "setupForward E c (s1, w1) = (r2, s2, w2)" by (metis prod.exhaust)
    obtain r3 s3 w3 where 3: "startServer E c (s2, w2) = (r3, s3, w3)" by (metis prod.exhaust)
    obtain s4 w4 where 4: "cleanupForward E c (setState Error s3, w3) = (s4, w4)" by fastforce
    note k = setupForward_keeps [OF 2] startServer_keeps [OF 3] cleanupForward_keeps [OF 4]
    consider "r2 \<noteq> None" | "r2 = None" "r3 \<noteq> None" | "r2 = None" "r3 = None" by blast
    then show ?thesis
    proof cases
      case 1
      with k s1 w1 nz given_back \<open>allocatePort (?s, w) = (None, s1, w1)\<close> 2 show ?thesis
        by (auto simp: start_post_def Start_def Start_steps resources_def NewSession_def)
    next
      case 2
      with k s1 w1 nz given_back 1 \<open>setupForward E c (s1, w1) = (r2, s2, w2)\<close> 3 4 show ?thesis
        by (auto simp: start_post_def Start_def Start_steps resources_def NewSession_def)
    next
      case served: 3
      with 2 3 show ?thesis by (intro start_post_served [OF 1 acq assms(1) nz s1 w1]) simp_all
    qed
  qed
  then show ?thesis by (simp add: start_post_def)
qed


text \<open>A world with two ports.\<close>

definition demo_world :: "nat world" where
  "demo_world = \<lparr>wd_pool = New_pool 30000 2, wd_open = {}, wd_next = 0, wd_ext = 0\<rparr>"

lemma Start_all_or_nothing_witness:
  "case Start demo_env (New_client '''') (NewSession ''emu5554'' zero_ScrcpyConfig, demo_world) of
      (Some e, s', w') \<Rightarrow> ss_state s' = Error \<and> ss_adbPort s' = 0 \<and> \<not> ss_server s'
        \<and> resources w' = resources demo_world
    | (None, s', w') \<Rightarrow> ss_state s' = Streaming \<and> ss_server s'
        \<and> ss_adbPort s' \<in> capacity (wd_pool demo_world) - held (wd_pool demo_world)
        \<and> (\<exists>v cc a. ss_videoConn s' = Some v \<and> ss_ctrlConn s' = Some cc \<and> ss_audioConn s' = a
             \<and> (a \<noteq> None \<longleftrightarrow> sc_AudioEnabled zero_ScrcpyConfig)
             \<and> resources w' = (insert (ss_adbPort s') (held (wd_pool demo_world)),
                                wd_open demo_world \<union> {v, cc} \<union> set_option a))"
  by (rule Start_all_or_nothing) (simp_all add: demo_world_def fresh_conns_def)

section \<open>Release\<close>

definition conns :: "session \<Rightarrow> nat set" where
  "conns s = set_option (ss_videoConn s) \<union> set_option (ss_audioConn s) \<union> set_option (ss_ctrlConn s)"

lemma close_conn_keeps [simp]:
  "wd_pool (close_conn i w) = wd_pool w" "wd_open (close_conn i w) = wd_open w - set_option i"
  by (cases i; simp add: close_conn_def)+

lemma cleanupForward_fields [simp]:
  "fst (cleanupForward E c (s, w)) = s" "wd_pool (snd (cleanupForward E c (s, w))) = wd_pool w"
  "wd_open (snd (cleanupForward E c (s, w))) = wd_open w"
  by (simp_all add: cleanupForward_def)


text \<open>A start never starts the forwarders.\<close>

lemma connect_attempt_forwarders:
  "connect_attempt E (s, w) = (ok, s', w') \<Longrightarrow> ss_forwardersStarted s' = ss_forwardersStarted s"
  by (auto simp: connect_attempt_def connect_control_def setState_def Let_def
      split: prod.splits option.splits if_splits)

lemma connect_loop_forwarders:
  "connect_loop E n (s, w) = (err, s', w') \<Longrightarrow> ss_forwardersStarted s' = ss_forwardersStarted s"
proof (induction n arbitrary: s w)
  case (Suc n)
  obtain ok s1 w1 where a: "connect_attempt E (s, w) = (ok, s1, w1)" by (metis prod.exhaust)
  from connect_attempt_forwarders [OF a] Suc a show ?case by (cases ok) auto
qed simp

lemma Start_forwarders:
  assumes "Start E c (s, w) = (err, s', w')"
  shows "ss_forwardersStarted s' = ss_forwardersStarted s \<and> (err \<noteq> None \<longrightarrow> ss_state s' = Error)"
proof -
  obtain r1 s1 w1 where al: "allocatePort (s, w) = (r1, s1, w1)" by (metis prod.exhaust)
  obtain r2 s2 w2 where su: "setupForward E c (s1, w1) = (r2, s2, w2)" by (metis prod.exhaust)
  obtain r3 s3 w3 where st: "startServer E c (s2, w2) = (r3, s3, w3)" by (metis prod.exhaust)
  obtain r4 s4 w4 where co: "connectStreams E (s3, w3) = (r4, s4, w4)" by (metis prod.exhaust)
  have f1: "ss_forwardersStarted s1 = ss_forwardersStarted s"
    using al by (auto simp: allocatePort_def setState_def split: prod.splits sum.splits)
  have f2: "ss_forwardersStarted s2 = ss_forwardersStarted s"
    using setupForward_keeps [OF su] f1 by (simp add: setState_def)
  have f3: "ss_forwardersStarted s3 = ss_forwardersStarted s"
    using startServer_keeps [OF st] f2 by (simp add: setState_def)
  have f4: "ss_forwardersStarted s4 = ss_forwardersStarted s"
    using co f3 by (simp add: connectStreams_def connect_loop_forwarders)
  have rel: "ss_forwardersStarted (fst (releasePort sw)) = ss_forwardersStarted (fst sw)"
    "ss_state (fst (releasePort sw)) = ss_state (fst sw)" for sw :: "session \<times> 'a world"
    by (cases sw; simp add: releasePort_def)+
  note eq = Start_def al fail_def
  consider e where "r1 = Some e" | e where "r1 = None" "r2 = Some e"
    | e where "r1 = None" "r2 = None" "r3 = Some e"
    | "r1 = None" "r2 = None" "r3 = None" by (cases r1; cases r2; cases r3) auto
  then show ?thesis
  proof cases
    case (1 e)
    with assms f1 show ?thesis by (auto simp: eq setState_def)
  next
    case (2 e)
    with assms su have "s' = fst (releasePort (setState Error s2, w2))"
      by (simp add: eq)
    with rel [of "(setState Error s2, w2)"] f2 show ?thesis by (simp add: setState_def)
  next
    case (3 e)
    with assms su st
    have "s' = fst (releasePort (cleanupForward E c (setState Error s3, w3)))"
      by (simp add: eq)
    with rel [of "cleanupForward E c (setState Error s3, w3)"] f3 show ?thesis
      by (simp add: setState_def)
  next
    case 4
    show ?thesis
    proof (cases r4)
      case None
      with 4 assms su st co f4 show ?thesis
        by (auto simp: eq setState_def)
    next
      case (Some e)
      with 4 assms su st co
      have "s' = fst (releasePort (cleanupForward E c (cleanupServer (setState Error s4, w4))))"
        by (simp add: eq)
      with rel [of "cleanupForward E c (cleanupServer (setState Error s4, w4))"] f4 show ?thesis
        by (simp add: setState_def cleanupServer_def)
    qed
  qed
qed


section \<open>Small accessors\<close>

text \<open>\<open>WaitProfileLevelID\<close>: the probed value, or the fallback when the wait times out first.\<close>

definition WaitProfileLevelID :: "bool \<Rightarrow> session \<Rightarrow> string" where
  "WaitProfileLevelID ready s = (if ready then ss_profileLevelID s else ''42e01f'')"

definition show_State :: "State \<Rightarrow> string" where
  "show_State st =
     (case st of Created \<Rightarrow> ''Created'' | PortAllocated \<Rightarrow> ''PortAllocated''
      | Forwarded \<Rightarrow> ''Forwarded'' | ServerRunning \<Rightarrow> ''ServerRunning''
      | Connected \<Rightarrow> ''Connected'' | Streaming \<Rightarrow> ''Streaming'' | Error \<Rightarrow> ''Error''
      | Released \<Rightarrow> ''Released'')"

record Info =
  in_Serial :: string
  in_State :: string
  in_ADBPort :: int
  in_ProfileLevelID :: string
  in_VideoCodec :: string

definition Session_Info :: "session \<Rightarrow> Info" where
  "Session_Info s = \<lparr>in_Serial = ss_serial s, in_State = show_State (ss_state s),
     in_ADBPort = ss_adbPort s, in_ProfileLevelID = ss_profileLevelID s,
     in_VideoCodec = ss_videoCodec s\<rparr>"

text \<open>The serial of a session never changes.\<close>

lemma connect_attempt_serial:
  "connect_attempt E (s, w) = (ok, s', w') \<Longrightarrow> ss_serial s' = ss_serial s"
  by (auto simp: connect_attempt_def connect_control_def setState_def Let_def
      split: prod.splits option.splits if_splits)

lemma connect_loop_serial:
  "connect_loop E n (s, w) = (err, s', w') \<Longrightarrow> ss_serial s' = ss_serial s"
proof (induction n arbitrary: s w)
  case (Suc n)
  obtain ok s1 w1 where a: "connect_attempt E (s, w) = (ok, s1, w1)" by (metis prod.exhaust)
  from connect_attempt_serial [OF a] Suc a show ?case by (cases ok) auto
qed simp

lemma Start_serial:
  assumes "Start E c (s, w) = (None, s', w')"
  shows "ss_serial s' = ss_serial s \<and> ss_state s' = Streaming"
proof -
  obtain r1 s1 w1 where al: "allocatePort (s, w) = (r1, s1, w1)" by (metis prod.exhaust)
  obtain r2 s2 w2 where su: "setupForward E c (s1, w1) = (r2, s2, w2)" by (metis prod.exhaust)
  obtain r3 s3 w3 where st: "startServer E c (s2, w2) = (r3, s3, w3)" by (metis prod.exhaust)
  obtain r4 s4 w4 where co: "connectStreams E (s3, w3) = (r4, s4, w4)" by (metis prod.exhaust)
  have "ss_serial s1 = ss_serial s"
    using al by (auto simp: allocatePort_def setState_def split: prod.splits sum.splits)
  then have "ss_serial s2 = ss_serial s" using setupForward_keeps [OF su] by (simp add: setState_def)
  then have "ss_serial s3 = ss_serial s" using startServer_keeps [OF st] by (simp add: setState_def)
  moreover have "ss_serial s4 = ss_serial s3"
    using co unfolding connectStreams_def by (rule connect_loop_serial)
  ultimately have s4: "ss_serial s4 = ss_serial s" by simp
  have r: "r1 = None" "r2 = None" "r3 = None" "r4 = None"
    using assms al su st co by (auto simp: Start_def fail_def split: option.splits)
  with assms al su st co have "s' = setState Streaming s4" by (simp add: Start_def)
  with s4 show ?thesis by (simp add: setState_def)
qed

lemma releasePort_fields [simp]:
  "ss_serial (fst (releasePort (s, w))) = ss_serial s" "ss_state (fst (releasePort (s, w))) = ss_state s"
  by (simp_all add: releasePort_def)

lemma Session_Release_serial:
  assumes "Session_Release returns E c (s, w) = Some (s', w')"
  shows "ss_serial s' = ss_serial s \<and> ss_state s' = Released"
proof (cases "ss_state s = Released")
  case True
  with assms show ?thesis by (simp add: Session_Release_def)
next
  case False
  let ?s2 = "((setState Released s)\<lparr>ss_stopClosed := True, ss_died := True, ss_server := False\<rparr>)"
  let ?w1 = "close_conn (ss_ctrlConn s) (close_conn (ss_audioConn s) (close_conn (ss_videoConn s) w))"
  obtain w3 where 3: "cleanupForward E c (?s2, ?w1) = (?s2, w3)" by (auto simp: cleanupForward_def)
  from False assms have "releasePort (cleanupForward E c (?s2, ?w1)) = (s', w')"
    by (simp add: Session_Release_def Let_def channels_close_def cleanupServer_def setState_def
        split: if_splits)
  with 3 have "s' = fst (releasePort (?s2, w3))" by simp
  then show ?thesis by (simp add: setState_def)
qed

end
