(* ===== verification/Manager.thy ===== *)
theory Manager
  imports Session
begin

text \<open>
  \<open>agent/internal/gateway/manager.go\<close>: the sessions of a device agent, one per device serial, and
  the pool of warm sessions, which stay alive for a while after the browser left.

  Sessions are shared objects: the manager maps a serial to a reference, and \<open>mg_heap\<close> holds the
  session behind it.  A warm timer is armed until it fires or is stopped; when it fires, its
  callback runs in a goroutine of its own, so \<open>mg_fired\<close> holds the callbacks that have been
  started but do not have the lock yet.  An operation that waits for ever is \<open>None\<close>.
\<close>

record 'w mgr =
  mg_cfg :: ScrcpyConfig
  mg_sessions :: "string \<rightharpoonup> nat"
  mg_warmTimers :: "string \<rightharpoonup> nat"
  mg_heap :: "nat \<Rightarrow> session"
  mg_next :: nat
  mg_armed :: "nat \<rightharpoonup> string"
  mg_nextTimer :: nat
  mg_fired :: "string list"
  mg_world :: "'w world"

definition NewManager :: "ScrcpyConfig \<Rightarrow> 'w world \<Rightarrow> 'w mgr" where
  "NewManager cfg w = \<lparr>
     mg_cfg = cfg, mg_sessions = Map.empty, mg_warmTimers = Map.empty,
     mg_heap = (\<lambda>_. NewSession '''' cfg), mg_next = 0, mg_armed = Map.empty, mg_nextTimer = 0,
     mg_fired = [], mg_world = w\<rparr>"

text \<open>\<open>Timer.Stop\<close> disarms a timer; it does not stop a callback that has been started.\<close>

definition cancelWarmTimer :: "string \<Rightarrow> 'w mgr \<Rightarrow> 'w mgr" where
  "cancelWarmTimer serial m =
     (case mg_warmTimers m serial of
        Some t \<Rightarrow> m\<lparr>mg_armed := (mg_armed m)(t := None),
                    mg_warmTimers := (mg_warmTimers m)(serial := None)\<rparr>
      | None \<Rightarrow> m)"

definition forget :: "string \<Rightarrow> 'w mgr \<Rightarrow> 'w mgr" where
  "forget serial m = m\<lparr>mg_sessions := (mg_sessions m)(serial := None)\<rparr>"

text \<open>The release of the session behind a reference.\<close>

definition release_ref :: "bool \<Rightarrow> 'w env \<Rightarrow> Client \<Rightarrow> nat \<Rightarrow> 'w mgr \<Rightarrow> 'w mgr option" where
  "release_ref returns E c r m =
     (case Session_Release returns E c (mg_heap m r, mg_world m) of
        None \<Rightarrow> None
      | Some (s, w) \<Rightarrow> Some (m\<lparr>mg_heap := (mg_heap m)(r := s), mg_world := w\<rparr>))"

text \<open>The cold start at the end of \<open>Acquire\<close>.\<close>

definition create_session ::
  "bool \<Rightarrow> 'w env \<Rightarrow> Client \<Rightarrow> string \<Rightarrow> 'w mgr \<Rightarrow> ((session_error + nat \<times> bool) \<times> 'w mgr) option" where
  "create_session returns E c serial m =
     (let r = mg_next m
      in case Start E c (NewSession serial (mg_cfg m), mg_world m) of
           (Some e, s, w) \<Rightarrow>
             (case Session_Release returns E c (s, w) of
                None \<Rightarrow> None
              | Some (s', w') \<Rightarrow> Some (Inl e, m\<lparr>mg_heap := (mg_heap m)(r := s'), mg_next := Suc r, mg_world := w'\<rparr>))
         | (None, s, w) \<Rightarrow>
             Some (Inr (r, False),
                   m\<lparr>mg_heap := (mg_heap m)(r := s), mg_next := Suc r, mg_world := w,
                     mg_sessions := (mg_sessions m)(serial \<mapsto> r)\<rparr>))"

definition mgr_Acquire ::
  "bool \<Rightarrow> 'w env \<Rightarrow> Client \<Rightarrow> string \<Rightarrow> 'w mgr \<Rightarrow> ((session_error + nat \<times> bool) \<times> 'w mgr) option" where
  "mgr_Acquire returns E c serial m =
     (case mg_sessions m serial of
        Some r \<Rightarrow>
          if Alive (mg_heap m r) then Some (Inr (r, True), cancelWarmTimer serial m)
          else Option.bind (release_ref returns E c r (cancelWarmTimer serial (forget serial m)))
                 (create_session returns E c serial)
      | None \<Rightarrow> create_session returns E c serial m)"

definition mgr_Release :: "bool \<Rightarrow> 'w env \<Rightarrow> Client \<Rightarrow> string \<Rightarrow> 'w mgr \<Rightarrow> 'w mgr option" where
  "mgr_Release returns E c serial m =
     (case mg_sessions m serial of
        Some r \<Rightarrow> release_ref returns E c r (cancelWarmTimer serial (forget serial m))
      | None \<Rightarrow> Some (cancelWarmTimer serial m))"

definition ReleaseDeferred :: "bool \<Rightarrow> 'w env \<Rightarrow> Client \<Rightarrow> string \<Rightarrow> 'w mgr \<Rightarrow> 'w mgr option" where
  "ReleaseDeferred returns E c serial m =
     (case mg_sessions m serial of
        None \<Rightarrow> Some m
      | Some r \<Rightarrow>
          if \<not> Alive (mg_heap m r) then
            release_ref returns E c r (cancelWarmTimer serial (forget serial m))
          else
            (let m1 = cancelWarmTimer serial
                        (m\<lparr>mg_heap := (mg_heap m)(r := SetForwardPaused True (mg_heap m r))\<rparr>);
                 t = mg_nextTimer m1
             in Some (m1\<lparr>mg_armed := (mg_armed m1)(t \<mapsto> serial), mg_nextTimer := Suc t,
                         mg_warmTimers := (mg_warmTimers m1)(serial \<mapsto> t)\<rparr>)))"

text \<open>The callback of a warm timer: it forgets the session before it looks at \<open>stillWarm\<close>.\<close>

definition expireWarm :: "bool \<Rightarrow> 'w env \<Rightarrow> Client \<Rightarrow> string \<Rightarrow> 'w mgr \<Rightarrow> 'w mgr option" where
  "expireWarm returns E c serial m =
     (let stillWarm = mg_warmTimers m serial \<noteq> None;
          s = mg_sessions m serial;
          m1 = forget serial (m\<lparr>mg_warmTimers := (mg_warmTimers m)(serial := None)\<rparr>)
      in case s of
           None \<Rightarrow> Some m1
         | Some r \<Rightarrow> if \<not> stillWarm then Some m1 else release_ref returns E c r m1)"

definition mgr_Get :: "string \<Rightarrow> 'w mgr \<Rightarrow> nat option" where
  "mgr_Get serial m = mg_sessions m serial"

text \<open>A Go map is ranged over in no particular order: the result is a set.\<close>

definition mgr_List :: "'w mgr \<Rightarrow> Info set" where
  "mgr_List m = (\<lambda>r. Session_Info (mg_heap m r)) ` ran (mg_sessions m)"

section \<open>Timers of the runtime\<close>

text \<open>A timer that fires starts its callback; a started callback gets the lock.\<close>

definition timer_fires :: "nat \<Rightarrow> 'w mgr \<Rightarrow> 'w mgr" where
  "timer_fires t m =
     (case mg_armed m t of
        None \<Rightarrow> m
      | Some serial \<Rightarrow> m\<lparr>mg_armed := (mg_armed m)(t := None), mg_fired := mg_fired m @ [serial]\<rparr>)"

definition callback_runs :: "bool \<Rightarrow> 'w env \<Rightarrow> Client \<Rightarrow> 'w mgr \<Rightarrow> 'w mgr option" where
  "callback_runs returns E c m =
     (case mg_fired m of
        [] \<Rightarrow> Some m
      | serial # rest \<Rightarrow> expireWarm returns E c serial (m\<lparr>mg_fired := rest\<rparr>))"

lemmas mgr_defs = mgr_Acquire_def mgr_Release_def ReleaseDeferred_def expireWarm_def
  create_session_def release_ref_def cancelWarmTimer_def forget_def timer_fires_def callback_runs_def

lemma cancelWarmTimer_keeps [simp]:
  "mg_sessions (cancelWarmTimer serial m) = mg_sessions m"
  "mg_heap (cancelWarmTimer serial m) = mg_heap m"
  "mg_next (cancelWarmTimer serial m) = mg_next m"
  "mg_world (cancelWarmTimer serial m) = mg_world m"
  "mg_cfg (cancelWarmTimer serial m) = mg_cfg m"
  "mg_fired (cancelWarmTimer serial m) = mg_fired m"
  "mg_nextTimer (cancelWarmTimer serial m) = mg_nextTimer m"
  "mg_warmTimers (cancelWarmTimer serial m) = (mg_warmTimers m)(serial := None)"
  by (auto simp: cancelWarmTimer_def split: option.splits)

section \<open>Failures\<close>

text \<open>
  C20. A cold start that fails is never reported: \<open>Acquire\<close> releases the session whose forwarders
  were never started, which waits for ever.
\<close>

theorem failed_Acquire_blocks:
  assumes "mg_sessions m serial = None"
    and "Start E c (NewSession serial (mg_cfg m), mg_world m) = (Some e, s, w)"
  shows "mgr_Acquire returns E c serial m = None"
proof -
  have s: "\<not> ss_forwardersStarted s" "ss_state s = Error"
    using Start_forwarders [OF assms(2)] by (simp_all add: NewSession_def)
  then have "Session_Release returns E c (s, w) = None"
    by (simp add: Session_Release_def Let_def channels_close_def setState_def)
  with assms show ?thesis by (simp add: mgr_Acquire_def create_session_def)
qed

text \<open>The second session when the pool has one port: the pool is exhausted.\<close>

lemma failed_Acquire_blocks_witness:
  "mgr_Acquire True demo_env (New_client '''') ''usb1''
     (NewManager zero_ScrcpyConfig (demo_world\<lparr>wd_pool := New_pool 30000 0\<rparr>)) = None"
  by (rule failed_Acquire_blocks [of _ _ _ _ "AllocatePort PoolExhausted"])
    (simp_all add: NewManager_def Start_def allocatePort_def Acquire_def New_pool_def fail_def)

text \<open>
  C18. A session that is acquired again just after its warm timer fired is lost: the timer's
  callback, which can no longer be stopped, takes it out of the map although it is not warm any
  more, and does not release it.  The session stays alive with its port and its server; no later
  \<open>Release\<close> reaches it.
\<close>

theorem reacquired_session_lost:
  assumes "mg_sessions m serial = Some r" "Alive (mg_heap m r)"
    and "mg_warmTimers m serial = Some t" "mg_armed m t = Some serial" "mg_fired m = []"
  shows "\<exists>m1 m2. mgr_Acquire returns E c serial (timer_fires t m) = Some (Inr (r, True), m1)
     \<and> callback_runs returns E c m1 = Some m2
     \<and> mg_heap m2 r = mg_heap m r \<and> mg_world m2 = mg_world m
     \<and> mgr_Get serial m2 = None \<and> mgr_Release returns E c serial m2 = Some m2"
proof -
  let ?m1 = "cancelWarmTimer serial (timer_fires t m)"
  have f: "timer_fires t m = m\<lparr>mg_armed := (mg_armed m)(t := None), mg_fired := [serial]\<rparr>"
    using assms by (simp add: timer_fires_def)
  have "mgr_Acquire returns E c serial (timer_fires t m) = Some (Inr (r, True), ?m1)"
    using assms by (simp add: mgr_Acquire_def f)
  moreover obtain m2 where m2: "callback_runs returns E c ?m1 = Some m2"
    and "mg_heap m2 r = mg_heap m r" "mg_world m2 = mg_world m" "mg_sessions m2 serial = None"
      "mg_warmTimers m2 serial = None"
    using assms by (simp add: callback_runs_def expireWarm_def f forget_def Let_def)
  ultimately show ?thesis
    by (auto simp: mgr_Get_def mgr_Release_def cancelWarmTimer_def)
qed


text \<open>One streaming session that was just left by its browser.\<close>

definition warm_demo :: "nat mgr" where
  "warm_demo = (NewManager zero_ScrcpyConfig demo_world)\<lparr>
     mg_sessions := [''emu5554'' \<mapsto> 0], mg_next := 1,
     mg_heap := (\<lambda>_. setState Streaming (NewSession ''emu5554'' zero_ScrcpyConfig)),
     mg_warmTimers := [''emu5554'' \<mapsto> 0], mg_armed := [0 \<mapsto> ''emu5554''], mg_nextTimer := 1\<rparr>"

lemma reacquired_session_lost_witness:
  "\<exists>m1 m2. mgr_Acquire True demo_env (New_client '''') ''emu5554'' (timer_fires 0 warm_demo)
        = Some (Inr (0, True), m1)
     \<and> callback_runs True demo_env (New_client '''') m1 = Some m2
     \<and> mgr_Get ''emu5554'' m2 = None \<and> Alive (mg_heap m2 0)"
proof -
  have "Alive (mg_heap warm_demo 0)"
    by (simp add: warm_demo_def Alive_def setState_def NewSession_def)
  moreover from this obtain m1 m2 where
    "mgr_Acquire True demo_env (New_client '''') ''emu5554'' (timer_fires 0 warm_demo)
        = Some (Inr (0, True), m1)"
    "callback_runs True demo_env (New_client '''') m1 = Some m2"
    "mg_heap m2 0 = mg_heap warm_demo 0" "mgr_Get ''emu5554'' m2 = None"
    using reacquired_session_lost [of warm_demo "''emu5554''" 0 0 True demo_env "New_client ''''"]
    by (auto simp: warm_demo_def NewManager_def)
  ultimately show ?thesis by auto
qed

section \<open>When the callbacks are prompt\<close>

text \<open>
  Events of a manager whose timer callbacks get the lock as they fire.  A session may die at any
  time, and its forwarders be started.
\<close>

datatype mgr_event =
  EAcquire string | ERelease string | EDeferred string | EExpire nat | EDie nat | EForward nat

fun mgr_step :: "bool \<Rightarrow> 'w env \<Rightarrow> Client \<Rightarrow> mgr_event \<Rightarrow> 'w mgr \<Rightarrow> 'w mgr option" where
  "mgr_step returns E c (EAcquire serial) m = map_option snd (mgr_Acquire returns E c serial m)"
| "mgr_step returns E c (ERelease serial) m = mgr_Release returns E c serial m"
| "mgr_step returns E c (EDeferred serial) m = ReleaseDeferred returns E c serial m"
| "mgr_step returns E c (EExpire t) m = callback_runs returns E c (timer_fires t m)"
| "mgr_step returns E c (EDie r) m =
     Some (m\<lparr>mg_heap := (mg_heap m)(r := (mg_heap m r)\<lparr>ss_died := True\<rparr>)\<rparr>)"
| "mgr_step returns E c (EForward r) m =
     Some (m\<lparr>mg_heap := (mg_heap m)(r := StartForwarders (mg_heap m r))\<rparr>)"

text \<open>
  The map holds exactly the sessions not released, each under its own serial; the armed timers are
  exactly the warm ones, and each belongs to a session of the map.
\<close>

definition mgr_inv :: "'w mgr \<Rightarrow> bool" where
  "mgr_inv m \<longleftrightarrow>
     (\<forall>serial r. mg_sessions m serial = Some r \<longrightarrow>
        r < mg_next m \<and> ss_serial (mg_heap m r) = serial \<and> ss_state (mg_heap m r) \<noteq> Released)
     \<and> (\<forall>r < mg_next m. ss_state (mg_heap m r) \<noteq> Released \<longrightarrow>
          mg_sessions m (ss_serial (mg_heap m r)) = Some r)
     \<and> (\<forall>t serial. mg_armed m t = Some serial \<longleftrightarrow> mg_warmTimers m serial = Some t)
     \<and> (\<forall>t serial. mg_armed m t = Some serial \<longrightarrow> t < mg_nextTimer m)
     \<and> dom (mg_warmTimers m) \<subseteq> dom (mg_sessions m)
     \<and> mg_fired m = []"

lemma mgr_invI:
  assumes "\<And>serial r. mg_sessions m serial = Some r \<Longrightarrow>
      r < mg_next m \<and> ss_serial (mg_heap m r) = serial \<and> ss_state (mg_heap m r) \<noteq> Released"
    and "\<And>r. r < mg_next m \<Longrightarrow> ss_state (mg_heap m r) \<noteq> Released \<Longrightarrow>
      mg_sessions m (ss_serial (mg_heap m r)) = Some r"
    and "\<And>t serial. mg_armed m t = Some serial \<longleftrightarrow> mg_warmTimers m serial = Some t"
    and "\<And>t serial. mg_armed m t = Some serial \<Longrightarrow> t < mg_nextTimer m"
    and "dom (mg_warmTimers m) \<subseteq> dom (mg_sessions m)" "mg_fired m = []"
  shows "mgr_inv m"
  using assms unfolding mgr_inv_def by blast

lemma mgr_invD:
  assumes "mgr_inv m"
  shows "mg_sessions m serial = Some r \<Longrightarrow>
      r < mg_next m \<and> ss_serial (mg_heap m r) = serial \<and> ss_state (mg_heap m r) \<noteq> Released"
    and "r < mg_next m \<Longrightarrow> ss_state (mg_heap m r) \<noteq> Released \<Longrightarrow>
      mg_sessions m (ss_serial (mg_heap m r)) = Some r"
    and "mg_armed m t = Some serial \<longleftrightarrow> mg_warmTimers m serial = Some t"
    and "mg_armed m t = Some serial \<Longrightarrow> t < mg_nextTimer m"
    and "dom (mg_warmTimers m) \<subseteq> dom (mg_sessions m)" "mg_fired m = []"
  using assms unfolding mgr_inv_def by blast+

lemma cancel_armed:
  "mg_armed (cancelWarmTimer serial m) =
     (case mg_warmTimers m serial of None \<Rightarrow> mg_armed m | Some t \<Rightarrow> (mg_armed m)(t := None))"
  by (simp add: cancelWarmTimer_def split: option.splits)

text \<open>Cancelling a timer keeps the invariant; a session of the map may be replaced in place.\<close>

lemma mgr_inv_cancel:
  assumes "mgr_inv m"
  shows "mgr_inv (cancelWarmTimer serial m)"
proof (rule mgr_invI)
  show "mg_armed (cancelWarmTimer serial m) t = Some s
      \<longleftrightarrow> mg_warmTimers (cancelWarmTimer serial m) s = Some t" for t s
    using mgr_invD(3) [OF assms] by (auto simp: cancel_armed split: option.splits) (metis option.inject)+
  show "t < mg_nextTimer (cancelWarmTimer serial m)"
    if "mg_armed (cancelWarmTimer serial m) t = Some s" for t s
    using that mgr_invD(4) [OF assms] by (auto simp: cancel_armed split: option.splits if_splits)
qed (use mgr_invD [OF assms] in auto)

lemma mgr_inv_update:
  assumes "mgr_inv m" "ss_serial s = ss_serial (mg_heap m r)"
    and "ss_state s = Released \<longleftrightarrow> ss_state (mg_heap m r) = Released"
  shows "mgr_inv (m\<lparr>mg_heap := (mg_heap m)(r := s)\<rparr>)"
  using assms by (intro mgr_invI) (auto dest: mgr_invD split: if_splits)

lemma mgr_inv_world [simp]: "mgr_inv (m\<lparr>mg_world := w\<rparr>) = mgr_inv m"
  by (simp add: mgr_inv_def)

text \<open>Releasing the session of a serial whose timer is gone.\<close>

lemma mgr_inv_released:
  assumes "mgr_inv m" "mg_sessions m serial = Some r" "mg_warmTimers m serial = None"
    and "release_ref returns E c r (forget serial m) = Some m'"
  shows "mgr_inv m'" "mg_sessions m' = (mg_sessions m)(serial := None)"
proof -
  obtain s w where sw: "Session_Release returns E c (mg_heap m r, mg_world m) = Some (s, w)"
    and m': "m' = (forget serial m)\<lparr>mg_heap := (mg_heap m)(r := s), mg_world := w\<rparr>"
    using assms(4) by (auto simp: release_ref_def forget_def split: option.splits)
  have s: "ss_serial s = ss_serial (mg_heap m r)" "ss_state s = Released"
    using Session_Release_serial [OF sw] by auto
  note inv = mgr_invD [OF assms(1)]
  show "mg_sessions m' = (mg_sessions m)(serial := None)" by (simp add: m' forget_def)
  show "mgr_inv m'"
  proof (rule mgr_invI)
    fix x q assume "mg_sessions m' x = Some q"
    then have "mg_sessions m x = Some q" "x \<noteq> serial" by (auto simp: m' forget_def split: if_splits)
    moreover from this have "q \<noteq> r" using inv(1) [of x q] inv(1) [OF assms(2)] by auto
    ultimately show "q < mg_next m' \<and> ss_serial (mg_heap m' q) = x \<and> ss_state (mg_heap m' q) \<noteq> Released"
      using inv(1) [of x q] by (simp add: m' forget_def)
  next
    fix q assume "q < mg_next m'" "ss_state (mg_heap m' q) \<noteq> Released"
    then have q: "q < mg_next m" "q \<noteq> r" "ss_state (mg_heap m q) \<noteq> Released"
      using s by (auto simp: m' forget_def split: if_splits)
    from inv(2) [OF q(1,3)] q(2) assms(2) have "ss_serial (mg_heap m q) \<noteq> serial" by auto
    with inv(2) [OF q(1,3)] q show "mg_sessions m' (ss_serial (mg_heap m' q)) = Some q"
      by (simp add: m' forget_def)
  qed (use inv assms(3) in \<open>auto simp: m' forget_def\<close>)
qed


lemma mgr_inv_create:
  assumes "mgr_inv m" "mg_sessions m serial = None"
    and "create_session returns E c serial m = Some (res, m')"
  shows "mgr_inv m'"
proof -
  note inv = mgr_invD [OF assms(1)]
  obtain err s w where st: "Start E c (NewSession serial (mg_cfg m), mg_world m) = (err, s, w)"
    by (metis prod.exhaust)
  have fresh: "mg_sessions m x \<noteq> Some (mg_next m)" for x using inv(1) by blast
  show ?thesis
  proof (cases err)
    case None
    with st Start_serial [of E c "NewSession serial (mg_cfg m)" "mg_world m" s w]
    have s: "ss_serial s = serial" "ss_state s = Streaming" by (simp_all add: NewSession_def)
    have m': "m' = m\<lparr>mg_heap := (mg_heap m)(mg_next m := s), mg_next := Suc (mg_next m),
        mg_world := w, mg_sessions := (mg_sessions m)(serial \<mapsto> mg_next m)\<rparr>"
      using assms(3) st None by (simp add: create_session_def Let_def)
    show ?thesis
    proof (rule mgr_invI)
      fix x q assume "mg_sessions m' x = Some q"
      with fresh [of x] show "q < mg_next m' \<and> ss_serial (mg_heap m' q) = x
          \<and> ss_state (mg_heap m' q) \<noteq> Released"
        using inv(1) [of x q] s by (auto simp: m' less_Suc_eq split: if_splits)
    next
      fix q assume "q < mg_next m'" "ss_state (mg_heap m' q) \<noteq> Released"
      then show "mg_sessions m' (ss_serial (mg_heap m' q)) = Some q"
        using inv(2) [of q] s assms(2) by (auto simp: m' less_Suc_eq split: if_splits)
    qed (use inv in \<open>auto simp: m'\<close>)
  next
    case (Some e)
    with assms(3) st obtain s' w' where r: "Session_Release returns E c (s, w) = Some (s', w')"
      and m': "m' = m\<lparr>mg_heap := (mg_heap m)(mg_next m := s'), mg_next := Suc (mg_next m), mg_world := w'\<rparr>"
      by (auto simp: create_session_def Let_def split: option.splits)
    have s': "ss_state s' = Released" using Session_Release_serial [OF r] by simp
    show ?thesis
    proof (rule mgr_invI)
      fix x q assume "mg_sessions m' x = Some q"
      with fresh [of x] show "q < mg_next m' \<and> ss_serial (mg_heap m' q) = x
          \<and> ss_state (mg_heap m' q) \<noteq> Released"
        using inv(1) [of x q] by (auto simp: m')
    next
      fix q assume "q < mg_next m'" "ss_state (mg_heap m' q) \<noteq> Released"
      then show "mg_sessions m' (ss_serial (mg_heap m' q)) = Some q"
        using inv(2) [of q] s' by (auto simp: m' less_Suc_eq split: if_splits)
    qed (use inv in \<open>auto simp: m'\<close>)
  qed
qed

text \<open>The release of a mapped session, as \<open>Acquire\<close>, \<open>Release\<close> and \<open>ReleaseDeferred\<close> do it.\<close>

lemma mgr_inv_drop:
  assumes "mgr_inv m" "mg_sessions m serial = Some r"
    and "release_ref returns E c r (cancelWarmTimer serial (forget serial m)) = Some m'"
  shows "mgr_inv m'" "mg_sessions m' serial = None"
proof -
  have "cancelWarmTimer serial (forget serial m) = forget serial (cancelWarmTimer serial m)"
    by (simp add: cancelWarmTimer_def forget_def split: option.splits)
  with assms(3) have rel: "release_ref returns E c r (forget serial (cancelWarmTimer serial m)) = Some m'"
    by simp
  show "mgr_inv m'" "mg_sessions m' serial = None"
    using mgr_inv_released [OF mgr_inv_cancel [OF assms(1)] _ _ rel] assms(2) by simp_all
qed

lemma mgr_inv_Acquire:
  assumes "mgr_inv m" "mgr_Acquire returns E c serial m = Some (res, m')"
  shows "mgr_inv m'"
proof (cases "mg_sessions m serial")
  case None
  with assms mgr_inv_create show ?thesis by (auto simp: mgr_Acquire_def)
next
  case (Some r)
  show ?thesis
  proof (cases "Alive (mg_heap m r)")
    case True
    with Some assms show ?thesis by (auto simp: mgr_Acquire_def intro: mgr_inv_cancel)
  next
    case False
    with Some assms(2) obtain m1 where
      m1: "release_ref returns E c r (cancelWarmTimer serial (forget serial m)) = Some m1"
      and cr: "create_session returns E c serial m1 = Some (res, m')"
      by (auto simp: mgr_Acquire_def bind_eq_Some_conv)
    show ?thesis
      by (rule mgr_inv_create [OF mgr_inv_drop [OF assms(1) Some m1] cr])
  qed
qed

lemma mgr_inv_Release:
  assumes "mgr_inv m" "mgr_Release returns E c serial m = Some m'"
  shows "mgr_inv m'"
  using assms mgr_inv_drop [OF assms(1)]
  by (auto simp: mgr_Release_def split: option.splits intro: mgr_inv_cancel)

lemma mgr_inv_Deferred:
  assumes "mgr_inv m" "ReleaseDeferred returns E c serial m = Some m'"
  shows "mgr_inv m'"
proof (cases "mg_sessions m serial")
  case None
  with assms show ?thesis by (simp add: ReleaseDeferred_def)
next
  case (Some r)
  show ?thesis
  proof (cases "Alive (mg_heap m r)")
    case False
    with Some assms mgr_inv_drop [OF assms(1) Some] show ?thesis by (simp add: ReleaseDeferred_def)
  next
    case True
    define m1 where "m1 = cancelWarmTimer serial
        (m\<lparr>mg_heap := (mg_heap m)(r := SetForwardPaused True (mg_heap m r))\<rparr>)"
    have "mgr_inv m1"
      unfolding m1_def using assms(1)
      by (intro mgr_inv_cancel mgr_inv_update) (simp_all add: SetForwardPaused_def)
    note inv = mgr_invD [OF this]
    have none: "mg_warmTimers m1 serial = None" "mg_sessions m1 serial = Some r"
      by (simp_all add: m1_def Some)
    have fresh: "mg_armed m1 (mg_nextTimer m1) = None"
      using inv(4) [of "mg_nextTimer m1"] by (cases "mg_armed m1 (mg_nextTimer m1)") auto
    have fresh': "mg_warmTimers m1 x \<noteq> Some (mg_nextTimer m1)" for x
      using inv(3) [of "mg_nextTimer m1" x] fresh by auto
    have m': "m' = m1\<lparr>mg_armed := (mg_armed m1)(mg_nextTimer m1 \<mapsto> serial),
        mg_nextTimer := Suc (mg_nextTimer m1),
        mg_warmTimers := (mg_warmTimers m1)(serial \<mapsto> mg_nextTimer m1)\<rparr>"
      using assms(2) Some True by (simp add: ReleaseDeferred_def Let_def m1_def)
    show ?thesis
    proof (rule mgr_invI)
      fix t x show "mg_armed m' t = Some x \<longleftrightarrow> mg_warmTimers m' x = Some t"
        using inv(3) [of t x] fresh' [of x] none(1) inv(3) [of t serial] by (auto simp: m')
      show "t < mg_nextTimer m'" if "mg_armed m' t = Some x"
        using that inv(4) [of t x] by (auto simp: m' split: if_splits)
    qed (use inv none in \<open>auto simp: m'\<close>)
  qed
qed

lemma mgr_inv_Expire:
  assumes "mgr_inv m" "callback_runs returns E c (timer_fires t m) = Some m'"
  shows "mgr_inv m'"
proof (cases "mg_armed m t")
  case None
  with assms mgr_invD(6) [OF assms(1)] show ?thesis by (simp add: callback_runs_def timer_fires_def)
next
  case (Some serial)
  note inv = mgr_invD [OF assms(1)]
  have warm: "mg_warmTimers m serial = Some t" using inv(3) Some by simp
  then obtain r where r: "mg_sessions m serial = Some r" using inv(5) by blast
  have c: "cancelWarmTimer serial m = m\<lparr>mg_armed := (mg_armed m)(t := None),
      mg_warmTimers := (mg_warmTimers m)(serial := None)\<rparr>"
    by (simp add: cancelWarmTimer_def warm)
  have nf: "m\<lparr>mg_armed := a, mg_fired := [], mg_warmTimers := b\<rparr> = m\<lparr>mg_armed := a, mg_warmTimers := b\<rparr>"
    for a b using inv(6) by (cases m) simp
  have "release_ref returns E c r (forget serial (cancelWarmTimer serial m)) = Some m'"
    using assms(2) inv(6) warm r Some
    by (simp add: callback_runs_def timer_fires_def expireWarm_def Let_def c nf)
  from mgr_inv_released(1) [OF mgr_inv_cancel [OF assms(1)] _ _ this] r show ?thesis by simp
qed

lemma mgr_inv_step:
  assumes "mgr_inv m" "mgr_step returns E c e m = Some m'"
  shows "mgr_inv m'"
proof (cases e)
  case (EDie r)
  with assms show ?thesis by (auto intro: mgr_inv_update)
next
  case (EForward r)
  with assms show ?thesis by (auto intro!: mgr_inv_update simp: StartForwarders_def split: if_splits)
qed (use assms in \<open>auto intro: mgr_inv_Acquire mgr_inv_Release mgr_inv_Deferred mgr_inv_Expire\<close>)

text \<open>An event with the circumstances of its step.\<close>

fun mgr_event_step ::
  "bool \<times> 'w env \<times> Client \<times> mgr_event \<Rightarrow> 'w mgr option \<Rightarrow> 'w mgr option" where
  "mgr_event_step (returns, E, c, e) m = Option.bind m (mgr_step returns E c e)"

definition opt_inv :: "('a \<Rightarrow> bool) \<Rightarrow> 'a option \<Rightarrow> bool" where
  "opt_inv P x \<longleftrightarrow> (case x of None \<Rightarrow> True | Some y \<Rightarrow> P y)"

interpretation manager: invariant_system "\<lambda>m. \<exists>cfg w. m = Some (NewManager cfg w)" mgr_event_step
  "opt_inv mgr_inv"
proof
  show "opt_inv mgr_inv m" if "\<exists>cfg w. m = Some (NewManager cfg w)" for m :: "'a mgr option"
    using that by (auto simp: opt_inv_def NewManager_def intro!: mgr_invI)
  show "opt_inv mgr_inv (mgr_event_step e m)" if "opt_inv mgr_inv m"
    for e :: "bool \<times> 'a env \<times> Client \<times> mgr_event" and m
    using that by (cases e; cases m)
      (auto simp: opt_inv_def split: option.splits dest: mgr_inv_step)
qed


end
