(* ===== verification/Utf8.thy ===== *)
theory Utf8
  imports Prelude "HOL-Library.Sublist"
begin

text \<open>
  Go's \<open>unicode/utf8.Valid\<close> (the encoding of the Unicode standard: no overlong forms, no
  surrogates, nothing above \<open>U+10FFFF\<close>) and the truncation of \<open>BuildInjectText\<close>, which drops
  bytes from the end until what is left is valid.
\<close>

definition cont :: "byte \<Rightarrow> byte \<Rightarrow> byte \<Rightarrow> bool" where
  "cont lo hi b \<longleftrightarrow> lo \<le> b \<and> b \<le> hi"

definition second_lo :: "byte \<Rightarrow> byte" where
  "second_lo b0 = (if b0 = 0xE0 then 0xA0 else if b0 = 0xF0 then 0x90 else 0x80)"

definition second_hi :: "byte \<Rightarrow> byte" where
  "second_hi b0 = (if b0 = 0xED then 0x9F else if b0 = 0xF4 then 0x8F else 0xBF)"

text \<open>The length of the rune a slice begins with, if it begins with one.\<close>

fun rune_len :: "bytes \<Rightarrow> nat option" where
  "rune_len [] = None"
| "rune_len (b0 # r) =
     (if b0 < 0x80 then Some 1
      else if 0xC2 \<le> b0 \<and> b0 \<le> 0xDF then
        (case r of b1 # _ \<Rightarrow> if cont 0x80 0xBF b1 then Some 2 else None | _ \<Rightarrow> None)
      else if 0xE0 \<le> b0 \<and> b0 \<le> 0xEF then
        (case r of b1 # b2 # _ \<Rightarrow>
           if cont (second_lo b0) (second_hi b0) b1 \<and> cont 0x80 0xBF b2 then Some 3 else None
         | _ \<Rightarrow> None)
      else if 0xF0 \<le> b0 \<and> b0 \<le> 0xF4 then
        (case r of b1 # b2 # b3 # _ \<Rightarrow>
           if cont (second_lo b0) (second_hi b0) b1 \<and> cont 0x80 0xBF b2 \<and> cont 0x80 0xBF b3
           then Some 4 else None
         | _ \<Rightarrow> None)
      else None)"

lemma rune_len_bounds: "rune_len bs = Some n \<Longrightarrow> 0 < n \<and> n \<le> 4 \<and> n \<le> length bs"
  by (cases bs) (auto split: if_splits list.splits)

lemma rune_len_append: "rune_len bs = Some n \<Longrightarrow> rune_len (bs @ r) = Some n"
  by (cases bs) (auto split: if_splits list.splits)

lemma rune_len_take: "rune_len bs = Some n \<Longrightarrow> n \<le> m \<Longrightarrow> rune_len (take m bs) = Some n"
proof -
  assume bs: "rune_len bs = Some n" and m: "n \<le> m"
  obtain b0 r where "bs = b0 # r" using bs by (cases bs) auto
  with bs m show ?thesis
    by (cases m) (auto simp: take_Cons' split: if_splits list.splits)
qed

function utf8_valid :: "bytes \<Rightarrow> bool" where
  "utf8_valid bs =
     (bs = [] \<or> (case rune_len bs of None \<Rightarrow> False | Some n \<Rightarrow> utf8_valid (drop n bs)))"
  by pat_completeness auto
termination
  by (relation "measure length") (auto dest: rune_len_bounds)

declare utf8_valid.simps [simp del]

lemma utf8_valid_Nil [simp]: "utf8_valid []"
  by (simp add: utf8_valid.simps)

lemma utf8_valid_rune: "rune_len bs = Some n \<Longrightarrow> utf8_valid bs \<longleftrightarrow> utf8_valid (drop n bs)"
proof -
  assume n: "rune_len bs = Some n"
  then have "bs \<noteq> []" by auto
  with n show ?thesis by (subst utf8_valid.simps) simp
qed

lemma utf8_valid_cases:
  assumes "utf8_valid bs" and "bs \<noteq> []"
  obtains n where "rune_len bs = Some n" "utf8_valid (drop n bs)"
  using assms by (auto simp: utf8_valid.simps [of bs] split: option.splits)

lemma utf8_valid_append: "utf8_valid a \<Longrightarrow> utf8_valid (a @ b) \<longleftrightarrow> utf8_valid b"
proof (induction a rule: length_induct)
  case (1 a)
  show ?case
  proof (cases "a = []")
    case False
    from "1.prems" False obtain n where n: "rune_len a = Some n" "utf8_valid (drop n a)"
      by (rule utf8_valid_cases)
    from rune_len_bounds [OF n(1)] have "n \<le> length a" "length (drop n a) < length a"
      using False by auto
    then have "drop n (a @ b) = drop n a @ b" by simp
    with utf8_valid_rune [OF rune_len_append [OF n(1), of b]]
    have "utf8_valid (a @ b) \<longleftrightarrow> utf8_valid (drop n a @ b)" by simp
    moreover have "utf8_valid (drop n a @ b) \<longleftrightarrow> utf8_valid b"
      using "1.IH" \<open>length (drop n a) < length a\<close> n(2) by blast
    ultimately show ?thesis by simp
  qed simp
qed

text \<open>A cut of valid text has a boundary at most three bytes before it.\<close>

lemma utf8_boundary_near:
  "utf8_valid bs \<Longrightarrow> m \<le> length bs \<Longrightarrow> \<exists>k \<le> m. m \<le> k + 3 \<and> utf8_valid (take k bs)"
proof (induction bs arbitrary: m rule: length_induct)
  case (1 bs)
  show ?case
  proof (cases "m \<le> 3")
    case True
    then show ?thesis by (intro exI [of _ 0]) simp
  next
    case False
    with "1.prems" have "bs \<noteq> []" by auto
    with "1.prems"(1) obtain n where n: "rune_len bs = Some n" "utf8_valid (drop n bs)"
      by (rule utf8_valid_cases)
    note b = rune_len_bounds [OF n(1)]
    show ?thesis
    proof (cases "n \<le> m")
      case le: True
      have "length (drop n bs) < length bs" "m - n \<le> length (drop n bs)"
        using b "1.prems" by auto
      with "1.IH" n(2) obtain k where k: "k \<le> m - n" "m - n \<le> k + 3" "utf8_valid (take k (drop n bs))"
        by blast
      have "rune_len (take (n + k) bs) = Some n" using n(1) by (rule rune_len_take) simp
      from utf8_valid_rune [OF this] k(3) have "utf8_valid (take (n + k) bs)"
        by (simp add: drop_take)
      with k le show ?thesis by (intro exI [of _ "n + k"]) auto
    next
      case gt: False
      with b False show ?thesis by (intro exI [of _ 0]) simp
    qed
  qed
qed

section \<open>Truncation at a rune boundary\<close>

text \<open>The loop \<open>for len(encoded) > 0 && !utf8.Valid(encoded)\<close>.\<close>

function trim_utf8 :: "bytes \<Rightarrow> bytes" where
  "trim_utf8 encoded =
     (if encoded \<noteq> [] \<and> \<not> utf8_valid encoded then trim_utf8 (butlast encoded) else encoded)"
  by pat_completeness auto
termination
  by (relation "measure length") auto

declare trim_utf8.simps [simp del]

lemma trim_utf8_valid: "utf8_valid (trim_utf8 bs)"
  by (induction bs rule: trim_utf8.induct) (subst trim_utf8.simps, auto)

lemma trim_utf8_prefix: "prefix (trim_utf8 bs) bs"
proof (induction bs rule: trim_utf8.induct)
  case (1 bs)
  then show ?case
    by (subst trim_utf8.simps) (auto intro: prefix_order.trans prefixeq_butlast)
qed

lemma trim_utf8_longest: "k \<le> length bs \<Longrightarrow> utf8_valid (take k bs) \<Longrightarrow> k \<le> length (trim_utf8 bs)"
proof (induction bs rule: trim_utf8.induct)
  case (1 bs)
  show ?case
  proof (cases "bs \<noteq> [] \<and> \<not> utf8_valid bs")
    case True
    with "1.prems" have "k \<noteq> length bs" by auto
    with "1.prems" have "k \<le> length (butlast bs)" by simp
    moreover from this have "take k (butlast bs) = take k bs"
      using True by (cases bs rule: rev_cases) simp_all
    ultimately show ?thesis
      using "1.IH" [OF True] "1.prems" True by (subst trim_utf8.simps) simp
  next
    case False
    then have "trim_utf8 bs = bs" by (subst trim_utf8.simps) auto
    with "1.prems" show ?thesis by simp
  qed
qed

end
