(* ===== verification/Control.thy ===== *)
theory Control
  imports GoBytes GoFloat Utf8
begin

text \<open>
  \<open>agent/internal/gateway/control.go\<close>: the messages the agent writes to the scrcpy control
  socket and the parser of the messages the device sends back.

  A Go string is its bytes.  The builders return the bytes they write; \<open>BuildUhidInput\<close> can panic,
  which is \<open>None\<close>.  The parser is \<open>None\<close> where a slice expression panics.
\<close>

section \<open>Message codes\<close>

definition msgInjectKeycode :: byte where "msgInjectKeycode = 0x00"
definition msgInjectText :: byte where "msgInjectText = 0x01"
definition msgInjectTouchEvent :: byte where "msgInjectTouchEvent = 0x02"
definition msgInjectScrollEvent :: byte where "msgInjectScrollEvent = 0x03"
definition msgBackOrScreenOn :: byte where "msgBackOrScreenOn = 0x04"
definition msgExpandNotificationPanel :: byte where "msgExpandNotificationPanel = 0x05"
definition msgExpandSettingsPanel :: byte where "msgExpandSettingsPanel = 0x06"
definition msgCollapsePanels :: byte where "msgCollapsePanels = 0x07"
definition msgGetClipboard :: byte where "msgGetClipboard = 0x08"
definition msgSetClipboard :: byte where "msgSetClipboard = 0x09"
definition msgSetDisplayPower :: byte where "msgSetDisplayPower = 0x0A"
definition msgRotateDevice :: byte where "msgRotateDevice = 0x0B"
definition msgUhidCreate :: byte where "msgUhidCreate = 0x0C"
definition msgUhidInput :: byte where "msgUhidInput = 0x0D"
definition msgUhidDestroy :: byte where "msgUhidDestroy = 0x0E"
definition msgOpenHardKeyboardSettings :: byte where "msgOpenHardKeyboardSettings = 0x0F"
definition msgStartApp :: byte where "msgStartApp = 0x10"
definition msgResetVideo :: byte where "msgResetVideo = 0x11"
definition msgCameraSetTorch :: byte where "msgCameraSetTorch = 0x12"
definition msgCameraZoomIn :: byte where "msgCameraZoomIn = 0x13"
definition msgCameraZoomOut :: byte where "msgCameraZoomOut = 0x14"
definition msgResizeDisplay :: byte where "msgResizeDisplay = 0x15"
definition msgStartAudio :: byte where "msgStartAudio = 0x16"
definition msgRequestKeyframe :: byte where "msgRequestKeyframe = 0x17"
definition msgChangeBitrate :: byte where "msgChangeBitrate = 0x18"

lemmas msg_codes =
  msgInjectKeycode_def msgInjectText_def msgInjectTouchEvent_def msgInjectScrollEvent_def
  msgBackOrScreenOn_def msgExpandNotificationPanel_def msgExpandSettingsPanel_def
  msgCollapsePanels_def msgGetClipboard_def msgSetClipboard_def msgSetDisplayPower_def
  msgRotateDevice_def msgUhidCreate_def msgUhidInput_def msgUhidDestroy_def
  msgOpenHardKeyboardSettings_def msgStartApp_def msgResetVideo_def msgCameraSetTorch_def
  msgCameraZoomIn_def msgCameraZoomOut_def msgResizeDisplay_def msgStartAudio_def
  msgRequestKeyframe_def msgChangeBitrate_def

definition PointerIDMouse :: u64 where "PointerIDMouse = 0xFFFFFFFFFFFFFFFF"
definition PointerIDGenericFinger :: u64 where "PointerIDGenericFinger = 0xFFFFFFFFFFFFFFFE"
definition PointerIDVirtualFinger :: u64 where "PointerIDVirtualFinger = 0xFFFFFFFFFFFFFFFD"

section \<open>Fixed-point fields\<close>

definition u16fp :: "conv \<Rightarrow> f64 \<Rightarrow> u16" where
  "u16fp cv pressure =
     (if f64_le pressure (Fin 0) then 0
      else if f64_le (Fin 1) pressure then 0xFFFF
      else to_word (cv_u16 cv) (f64_scale 65535 pressure))"

definition i16Scroll :: "conv \<Rightarrow> f64 \<Rightarrow> 16 word" where
  "i16Scroll cv scroll =
     (let v = to_i64 (cv_i64 cv) (f64_scale 2048 scroll);
          v1 = (if v > 32767 then 32767 else v);
          v2 = (if v1 < - 32768 then - 32768 else v1)
      in word_of_int v2)"

text \<open>The clamp keeps the value in \<open>int16\<close>, so the conversion does not wrap.\<close>

lemma i16Scroll_sint:
  "sint (i16Scroll cv scroll)
     = max (- 32768) (min 32767 (to_i64 (cv_i64 cv) (f64_scale 2048 scroll)))"
proof -
  have "sint (word_of_int v :: 16 word) = v" if "- 32768 \<le> v" "v \<le> 32767" for v :: int
    using that by (simp add: sint_sbintrunc' signed_take_bit_int_eq_self)
  then show ?thesis by (auto simp: i16Scroll_def Let_def)
qed

section \<open>Builders\<close>

definition BuildInjectKeycode :: "u32 \<Rightarrow> u32 \<Rightarrow> u32 \<Rightarrow> u32 \<Rightarrow> bytes" where
  "BuildInjectKeycode action keycode repeat metastate =
     [msgInjectKeycode, ucast action] @ put_u32 keycode @ put_u32 repeat @ put_u32 metastate"

definition inject_text_payload :: "bytes \<Rightarrow> bytes" where
  "inject_text_payload text =
     (if length text > 300 then trim_utf8 (take 300 text) else text)"

definition BuildInjectText :: "bytes \<Rightarrow> bytes" where
  "BuildInjectText text =
     (let encoded = inject_text_payload text
      in [msgInjectText] @ put_u32 (of_nat (length encoded)) @ encoded)"

definition BuildInjectTouch ::
  "conv \<Rightarrow> byte \<Rightarrow> u64 \<Rightarrow> u32 \<Rightarrow> u32 \<Rightarrow> u16 \<Rightarrow> u16 \<Rightarrow> f64 \<Rightarrow> u32 \<Rightarrow> u32 \<Rightarrow> bytes" where
  "BuildInjectTouch cv action pointerID x y width height pressure actionButton buttons =
     [msgInjectTouchEvent, action] @ put_u64 pointerID @ put_u32 x @ put_u32 y
       @ put_u16 width @ put_u16 height @ put_u16 (u16fp cv pressure)
       @ put_u32 actionButton @ put_u32 buttons"

definition BuildInjectScroll ::
  "conv \<Rightarrow> u32 \<Rightarrow> u32 \<Rightarrow> u16 \<Rightarrow> u16 \<Rightarrow> f64 \<Rightarrow> f64 \<Rightarrow> u32 \<Rightarrow> bytes" where
  "BuildInjectScroll cv x y width height hscroll vscroll buttons =
     [msgInjectScrollEvent] @ put_u32 x @ put_u32 y @ put_u16 width @ put_u16 height
       @ put_u16 (i16Scroll cv hscroll) @ put_u16 (i16Scroll cv vscroll) @ put_u32 buttons"

definition BuildBackOrScreenOn :: "byte \<Rightarrow> bytes" where
  "BuildBackOrScreenOn action = [msgBackOrScreenOn, action]"

definition BuildExpandNotificationPanel :: bytes where
  "BuildExpandNotificationPanel = [msgExpandNotificationPanel]"

definition BuildExpandSettingsPanel :: bytes where
  "BuildExpandSettingsPanel = [msgExpandSettingsPanel]"

definition BuildCollapsePanels :: bytes where
  "BuildCollapsePanels = [msgCollapsePanels]"

definition BuildRotateDevice :: bytes where
  "BuildRotateDevice = [msgRotateDevice]"

definition BuildResetVideo :: bytes where
  "BuildResetVideo = [msgResetVideo]"

definition BuildOpenHardKeyboardSettings :: bytes where
  "BuildOpenHardKeyboardSettings = [msgOpenHardKeyboardSettings]"

definition BuildRequestKeyframe :: bytes where
  "BuildRequestKeyframe = [msgRequestKeyframe]"

definition BuildChangeBitrate :: "int \<Rightarrow> bytes" where
  "BuildChangeBitrate bitrate = [msgChangeBitrate] @ put_u32 (word_of_int bitrate)"

definition BuildGetClipboard :: "byte \<Rightarrow> bytes" where
  "BuildGetClipboard copyKey = [msgGetClipboard, copyKey]"

definition BuildSetClipboard :: "u64 \<Rightarrow> bool \<Rightarrow> bytes \<Rightarrow> bytes" where
  "BuildSetClipboard sequence paste text =
     (let encoded = (if length text > 262130 then take 262130 text else text);
          p = (if paste then 1 else 0)
      in [msgSetClipboard] @ put_u64 sequence @ [p] @ put_u32 (of_nat (length encoded)) @ encoded)"

definition BuildSetDisplayPower :: "bool \<Rightarrow> bytes" where
  "BuildSetDisplayPower on = [msgSetDisplayPower, if on then 1 else 0]"

definition BuildStartApp :: "bytes \<Rightarrow> bytes" where
  "BuildStartApp name =
     (let encoded = (if length name > 255 then take 255 name else name)
      in [msgStartApp, of_nat (length encoded)] @ encoded)"

definition BuildUhidCreate :: "u16 \<Rightarrow> u16 \<Rightarrow> u16 \<Rightarrow> bytes \<Rightarrow> bytes \<Rightarrow> bytes" where
  "BuildUhidCreate dev vendor product name reportDesc =
     (let encoded = (if length name > 255 then take 255 name else name)
      in [msgUhidCreate] @ put_u16 dev @ put_u16 vendor @ put_u16 product
           @ [of_nat (length encoded)] @ encoded
           @ put_u16 (of_nat (length reportDesc)) @ reportDesc)"

text \<open>
  \<open>BuildUhidInput\<close> makes a slice of \<open>4 + len(data)\<close> bytes, writes a header of five and copies the
  data behind it: the slice \<open>b[3:5]\<close> panics when there are only four bytes, and \<open>copy\<close> writes
  only what fits.
\<close>

definition BuildUhidInput :: "u16 \<Rightarrow> bytes \<Rightarrow> bytes option" where
  "BuildUhidInput dev dat =
     (let total = 4 + length dat;
          header = [msgUhidInput] @ put_u16 dev @ put_u16 (of_nat (length dat))
      in if total < length header then None
         else Some (header @ take (total - length header) dat))"

definition BuildUhidDestroy :: "u16 \<Rightarrow> bytes" where
  "BuildUhidDestroy dev = [msgUhidDestroy] @ put_u16 dev"

definition BuildStartAudio :: bytes where
  "BuildStartAudio = [msgStartAudio]"

definition BuildCameraSetTorch :: "bool \<Rightarrow> bytes" where
  "BuildCameraSetTorch on = [msgCameraSetTorch, if on then 1 else 0]"

definition BuildCameraZoomIn :: bytes where
  "BuildCameraZoomIn = [msgCameraZoomIn]"

definition BuildCameraZoomOut :: bytes where
  "BuildCameraZoomOut = [msgCameraZoomOut]"

definition BuildResizeDisplay :: "u16 \<Rightarrow> u16 \<Rightarrow> bytes" where
  "BuildResizeDisplay width height = [msgResizeDisplay] @ put_u16 width @ put_u16 height"

lemmas build_defs =
  BuildInjectKeycode_def BuildInjectText_def BuildInjectTouch_def BuildInjectScroll_def
  BuildBackOrScreenOn_def BuildExpandNotificationPanel_def BuildExpandSettingsPanel_def
  BuildCollapsePanels_def BuildRotateDevice_def BuildResetVideo_def
  BuildOpenHardKeyboardSettings_def BuildRequestKeyframe_def BuildChangeBitrate_def
  BuildGetClipboard_def BuildSetClipboard_def BuildSetDisplayPower_def BuildStartApp_def
  BuildUhidCreate_def BuildUhidDestroy_def BuildStartAudio_def BuildCameraSetTorch_def
  BuildCameraZoomIn_def BuildCameraZoomOut_def BuildResizeDisplay_def

text \<open>
  \<open>ParsePointerID\<close>: for a negative \<open>v\<close> the sum is taken in \<open>int64\<close>, from left to right.
\<close>

definition ParsePointerID :: "int \<Rightarrow> u64" where
  "ParsePointerID v =
     (if v < 0 then
        word_of_int (wrap64 (wrap64 (wrap64 (wrap64 (v + (2 ^ 63 - 1)) + 1) + (2 ^ 63 - 1)) + 1))
      else word_of_int v)"


section \<open>Framing of the control stream\<close>

text \<open>
  The device reads the stream message by message: \<open>frame_len\<close> is the length its reader takes for
  the message a slice begins with (\<open>None\<close> when the slice does not hold its header, or its type is
  unknown).
\<close>

definition fixed_len :: "byte \<Rightarrow> nat option" where
  "fixed_len t =
     (if t = msgInjectKeycode then Some 14
      else if t = msgInjectTouchEvent then Some 32
      else if t = msgInjectScrollEvent then Some 21
      else if t = msgUhidDestroy then Some 3
      else if t \<in> {msgResizeDisplay, msgChangeBitrate} then Some 5
      else if t \<in> {msgBackOrScreenOn, msgGetClipboard, msgSetDisplayPower, msgCameraSetTorch}
        then Some 2
      else if t \<in> {msgExpandNotificationPanel, msgExpandSettingsPanel, msgCollapsePanels,
                   msgRotateDevice, msgOpenHardKeyboardSettings, msgResetVideo, msgCameraZoomIn,
                   msgCameraZoomOut, msgStartAudio, msgRequestKeyframe}
        then Some 1
      else None)"

fun frame_len :: "bytes \<Rightarrow> nat option" where
  "frame_len [] = None"
| "frame_len (t # r) =
     (if t = msgInjectText then map_option (\<lambda>n. 5 + unat n) (get_u32 r)
      else if t = msgSetClipboard then map_option (\<lambda>n. 14 + unat n) (get_u32 (drop 9 r))
      else if t = msgStartApp then (case r of n # _ \<Rightarrow> Some (2 + unat n) | [] \<Rightarrow> None)
      else if t = msgUhidInput then map_option (\<lambda>n. 5 + unat n) (get_u16 (drop 2 r))
      else if t = msgUhidCreate then
        (case drop 6 r of
           n # r' \<Rightarrow> map_option (\<lambda>k. 10 + unat n + unat k) (get_u16 (drop (unat n) r'))
         | [] \<Rightarrow> None)
      else fixed_len t)"

text \<open>The messages the builders make, \<open>BuildUhidInput\<close> apart.\<close>

inductive built :: "conv \<Rightarrow> bytes \<Rightarrow> bool" for cv :: conv where
  built_Keycode: "built cv (BuildInjectKeycode a k n m)"
| built_Text: "built cv (BuildInjectText t)"
| built_Touch: "built cv (BuildInjectTouch cv act pid x y w h p ab b)"
| built_Scroll: "built cv (BuildInjectScroll cv x y w h hs vs b)"
| built_Back: "built cv (BuildBackOrScreenOn act)"
| built_Notification: "built cv BuildExpandNotificationPanel"
| built_Settings: "built cv BuildExpandSettingsPanel"
| built_Collapse: "built cv BuildCollapsePanels"
| built_Rotate: "built cv BuildRotateDevice"
| built_ResetVideo: "built cv BuildResetVideo"
| built_HardKeyboard: "built cv BuildOpenHardKeyboardSettings"
| built_Keyframe: "built cv BuildRequestKeyframe"
| built_Bitrate: "built cv (BuildChangeBitrate rate)"
| built_GetClipboard: "built cv (BuildGetClipboard key)"
| built_SetClipboard: "built cv (BuildSetClipboard sq paste t)"
| built_Power: "built cv (BuildSetDisplayPower on)"
| built_StartApp: "built cv (BuildStartApp name)"
| built_UhidCreate: "length desc < 2 ^ 16 \<Longrightarrow> built cv (BuildUhidCreate dev vendor product name desc)"
| built_UhidDestroy: "built cv (BuildUhidDestroy dev)"
| built_StartAudio: "built cv BuildStartAudio"
| built_Torch: "built cv (BuildCameraSetTorch on)"
| built_ZoomIn: "built cv BuildCameraZoomIn"
| built_ZoomOut: "built cv BuildCameraZoomOut"
| built_Resize: "built cv (BuildResizeDisplay w h)"

lemma unat_word_of_length: "n < 2 ^ LENGTH('a) \<Longrightarrow> unat (of_nat n :: 'a::len word) = n"
  by (simp add: unat_of_nat take_bit_eq_mod)

lemma inject_text_length: "length (inject_text_payload t) \<le> 300"
  using prefix_length_le [OF trim_utf8_prefix [of "take 300 t"]]
  by (auto simp: inject_text_payload_def)

lemma frame_Text: "frame_len (BuildInjectText t @ r) = Some (length (BuildInjectText t))"
  using inject_text_length [of t]
  by (simp add: BuildInjectText_def Let_def codec unat_word_of_length)

lemma frame_SetClipboard:
  "frame_len (BuildSetClipboard q p t @ r) = Some (length (BuildSetClipboard q p t))"
  by (simp add: BuildSetClipboard_def Let_def codec unat_word_of_length msg_codes)

lemma frame_StartApp: "frame_len (BuildStartApp t @ r) = Some (length (BuildStartApp t))"
  by (simp add: BuildStartApp_def Let_def unat_word_of_length msg_codes)

lemma frame_UhidCreate:
  "length desc < 2 ^ 16 \<Longrightarrow>
   frame_len (BuildUhidCreate dev v p t desc @ r) = Some (length (BuildUhidCreate dev v p t desc))"
  by (simp add: BuildUhidCreate_def Let_def unat_word_of_length msg_codes codec)

lemma built_frame: "built cv m \<Longrightarrow> frame_len (m @ r) = Some (length m)"
proof (induction rule: built.induct)
  case (built_Text t) show ?case by (rule frame_Text)
next
  case (built_SetClipboard q p t) show ?case by (rule frame_SetClipboard)
next
  case (built_StartApp t) show ?case by (rule frame_StartApp)
next
  case built_UhidCreate then show ?case by (rule frame_UhidCreate)
qed (simp_all add: build_defs msg_codes fixed_len_def)

lemma frame_len_pos: "frame_len bs = Some n \<Longrightarrow> 0 < n"
  by (cases bs) (auto simp: fixed_len_def split: if_splits list.splits)

function frames :: "bytes \<Rightarrow> bytes list \<times> bytes" where
  "frames bs =
     (case frame_len bs of
        None \<Rightarrow> ([], bs)
      | Some n \<Rightarrow> if n \<le> length bs then map_prod (Cons (take n bs)) id (frames (drop n bs))
                 else ([], bs))"
  by pat_completeness auto
termination
  by (relation "measure length") (auto dest: frame_len_pos)

declare frames.simps [simp del]

lemma frames_built: "built cv m \<Longrightarrow> frames (m @ r) = map_prod (Cons m) id (frames r)"
  by (subst frames.simps) (simp add: built_frame)

lemma frames_concat: "\<forall>m \<in> set ms. built cv m \<Longrightarrow> frames (concat ms @ r) = map_prod ((@) ms) id (frames r)"
  by (induction ms) (auto simp: frames_built map_prod_def split: prod.splits)




section \<open>What the fields carry\<close>

text \<open>
  The text of an inject-text message: at most 300 bytes; valid UTF-8 stays valid, it is a
  prefix of the text asked for, and at most three bytes are lost to the rune boundary; a text of
  up to 300 bytes is unchanged.
\<close>

theorem BuildInjectText_spec:
  "\<exists>encoded. BuildInjectText text = msgInjectText # put_u32 (of_nat (length encoded)) @ encoded
     \<and> length encoded \<le> 300 \<and> prefix encoded text
     \<and> (length text \<le> 300 \<longrightarrow> encoded = text)
     \<and> (utf8_valid text \<longrightarrow> utf8_valid encoded \<and> min 297 (length text) \<le> length encoded)"
proof (intro exI conjI impI)
  let ?e = "inject_text_payload text"
  show "BuildInjectText text = msgInjectText # put_u32 (of_nat (length ?e)) @ ?e"
    by (simp add: BuildInjectText_def Let_def)
  show "length ?e \<le> 300" by (rule inject_text_length)
  show "prefix ?e text"
    using trim_utf8_prefix [of "take 300 text"] take_is_prefix [of 300 "text"]
    by (auto simp: inject_text_payload_def intro: prefix_order.trans)
  show "?e = text" if "length text \<le> 300" using that by (simp add: inject_text_payload_def)
  assume v: "utf8_valid text"
  then show "utf8_valid ?e" by (simp add: inject_text_payload_def trim_utf8_valid)
  show "min 297 (length text) \<le> length ?e"
  proof (cases "length text > 300")
    case True
    with v obtain k where k: "k \<le> 300" "300 \<le> k + 3" "utf8_valid (take k text)"
      using utf8_boundary_near [of "text" 300] by auto
    with True have "k \<le> length (trim_utf8 (take 300 text))"
      by (intro trim_utf8_longest) (simp_all add: min_def)
    with k True show ?thesis by (simp add: inject_text_payload_def)
  qed (simp add: inject_text_payload_def)
qed

lemma utf8_valid_replicate: "utf8_valid r \<Longrightarrow> utf8_valid (concat (replicate n r))"
  by (induction n) (simp_all add: utf8_valid_append)

text \<open>One ASCII letter and 150 two-byte letters: the cut at 300 bytes falls inside the last.\<close>

lemma BuildInjectText_spec_witness:
  "\<exists>encoded. BuildInjectText (0x41 # concat (replicate 150 [0xC3, 0xA9]))
       = msgInjectText # put_u32 (of_nat (length encoded)) @ encoded
     \<and> utf8_valid encoded \<and> length encoded \<le> 300 \<and> 297 \<le> length encoded"
proof -
  have "utf8_valid [0xC3, 0xA9]" by (simp add: utf8_valid.simps cont_def)
  from utf8_valid_replicate [OF this, of 150]
  have "utf8_valid (0x41 # concat (replicate 150 [0xC3, 0xA9]))"
    by (simp only: utf8_valid_rune [of "0x41 # _" 1, simplified])
  moreover have "length (concat (replicate n [0xC3, 0xA9 :: byte])) = 2 * n" for n
    by (induction n) simp_all
  ultimately show ?thesis
    using BuildInjectText_spec [of "0x41 # concat (replicate 150 [0xC3, 0xA9])"] by auto
qed

text \<open>
  Every field of a touch message stands at its offset of the scrcpy layout, so the device
  reads back the action, the pointer, the position, the screen size and the buttons it was sent.
\<close>

theorem BuildInjectTouch_layout:
  "let b = BuildInjectTouch cv action pointerID x y width height pressure actionButton buttons
   in length b = 32 \<and> b ! 0 = msgInjectTouchEvent \<and> b ! 1 = action
    \<and> get_u64 (drop 2 b) = Some pointerID
    \<and> get_u32 (drop 10 b) = Some x \<and> get_u32 (drop 14 b) = Some y
    \<and> get_u16 (drop 18 b) = Some width \<and> get_u16 (drop 20 b) = Some height
    \<and> get_u16 (drop 22 b) = Some (u16fp cv pressure)
    \<and> get_u32 (drop 24 b) = Some actionButton \<and> get_u32 (drop 28 b) = Some buttons"
  by (simp add: BuildInjectTouch_def Let_def codec)

text \<open>
  \<open>BuildUhidInput\<close> is broken for every input: with no data it panics, and otherwise the
  message announces all the data and holds all but its last byte.
\<close>

theorem BuildUhidInput_truncates:
  "BuildUhidInput dev [] = None
   \<and> BuildUhidInput dev (dat @ [x])
       = Some ([msgUhidInput] @ put_u16 dev @ put_u16 (of_nat (Suc (length dat))) @ dat)"
  by (simp add: BuildUhidInput_def Let_def)

text \<open>
  \<open>ParsePointerID\<close> is the two's-complement reading of its argument: each \<open>int64\<close> is read
  back as itself, and the three reserved identifiers are -1, -2 and -3.
\<close>

theorem ParsePointerID_twos_complement:
  "ParsePointerID v = word_of_int v
   \<and> ParsePointerID (- 1) = PointerIDMouse
   \<and> ParsePointerID (- 2) = PointerIDGenericFinger
   \<and> ParsePointerID (- 3) = PointerIDVirtualFinger"
proof -
  have w: "word_of_int (wrap64 x) = (word_of_int x :: u64)" for x
  proof (rule bit_word_eqI)
    fix n assume "n < LENGTH(64)"
    then have "n < 63 \<or> n = 63" by (simp, arith)
    then show "bit (word_of_int (wrap64 x) :: u64) n = bit (word_of_int x :: u64) n"
      by (auto simp: wrap64_def bit_simps bit_signed_take_bit_iff min_def)
  qed
  have "ParsePointerID u = word_of_int u" for u
  proof -
    have "(word_of_int (u + 2 * 2 ^ 63) :: u64) = word_of_int u + of_nat (2 ^ 64)" by simp
    then show ?thesis
      unfolding ParsePointerID_def by (simp add: w wi_hom_syms)
  qed
  then show ?thesis
    by (simp add: PointerIDMouse_def PointerIDGenericFinger_def PointerIDVirtualFinger_def)
qed

end
