(* ===== verification/Messages.thy ===== *)
theory Messages
  imports GoFloat
begin

text \<open>
  \<open>pkg/common/messages.go\<close>: the envelope of every WebSocket message between browser, signaling
  server and agent, and the JSON values in its open fields.
\<close>

text \<open>A decoded JSON value; a \<open>map[string]any\<close> is the list of its entries.\<close>

datatype json =
    JNull | JBool bool | JNum f64 | JStr string | JArr "json list" | JObj "(string \<times> json) list"

type_synonym json_map = "(string \<times> json) list"

definition json_get :: "json_map \<Rightarrow> string \<Rightarrow> json option" where
  "json_get m k = map_of m k"

record SessionDesc =
  sd_SDP :: string
  sd_Type :: string

record IceCandidate =
  ic_Candidate :: string
  ic_SDPMid :: "string option"
  ic_SDPMLineIndex :: "u16 option"

record IceServerEntry =
  ise_URLs :: "string list"
  ise_Username :: string
  ise_Credential :: string
  ise_CredentialType :: string

record WsMsg =
  ws_Type :: string
  ws_Offer :: "SessionDesc option"
  ws_Answer :: "SessionDesc option"
  ws_Candidate :: "IceCandidate option"
  ws_PCID :: string
  ws_Message :: string
  ws_Data :: "json_map option"
  ws_ServiceID :: string
  ws_InstanceID :: string
  ws_DeviceSerial :: string
  ws_IceServers :: "IceServerEntry list"
  ws_TTL :: int
  ws_SessionID :: string
  ws_RelayID :: string
  ws_Payload :: "json_map option"

text \<open>\<open>common.WsMsg{Type: t}\<close>: every other field has its zero value.\<close>

definition msg_of_type :: "string \<Rightarrow> WsMsg" where
  "msg_of_type t = \<lparr>
     ws_Type = t, ws_Offer = None, ws_Answer = None, ws_Candidate = None, ws_PCID = '''',
     ws_Message = '''', ws_Data = None, ws_ServiceID = '''', ws_InstanceID = '''',
     ws_DeviceSerial = '''', ws_IceServers = [], ws_TTL = 0, ws_SessionID = '''',
     ws_RelayID = '''', ws_Payload = None\<rparr>"

definition TypeOffer :: string where "TypeOffer = ''offer''"
definition TypeAnswer :: string where "TypeAnswer = ''answer''"
definition TypeIceCandidate :: string where "TypeIceCandidate = ''ice_candidate''"
definition TypeError :: string where "TypeError = ''error''"
definition TypePing :: string where "TypePing = ''ping''"
definition TypePong :: string where "TypePong = ''pong''"
definition TypeFirstFrame :: string where "TypeFirstFrame = ''first_frame''"
definition TypeDecoderStats :: string where "TypeDecoderStats = ''decoder_stats''"
definition TypeDecoderStatus :: string where "TypeDecoderStatus = ''decoder_status''"
definition TypeResetVideo :: string where "TypeResetVideo = ''reset_video''"
definition TypeStreamDead :: string where "TypeStreamDead = ''stream_dead''"
definition TypeQueryStatus :: string where "TypeQueryStatus = ''query_status''"
definition TypeStatusResp :: string where "TypeStatusResp = ''status_resp''"
definition TypePreempted :: string where "TypePreempted = ''preempted''"
definition TypeRegister :: string where "TypeRegister = ''register''"
definition TypeIceServers :: string where "TypeIceServers = ''ice_servers''"
definition TypeBound :: string where "TypeBound = ''bound''"
definition TypeUnbound :: string where "TypeUnbound = ''unbound''"
definition TypeAgentStatus :: string where "TypeAgentStatus = ''agent_status''"

lemmas msg_types =
  TypeOffer_def TypeAnswer_def TypeIceCandidate_def TypeError_def TypePing_def TypePong_def
  TypeFirstFrame_def TypeDecoderStats_def TypeDecoderStatus_def TypeResetVideo_def
  TypeStreamDead_def TypeQueryStatus_def TypeStatusResp_def TypePreempted_def TypeRegister_def
  TypeIceServers_def TypeBound_def TypeUnbound_def TypeAgentStatus_def

end
