(* ===== verification/Dispatch.thy ===== *)
theory Dispatch
  imports Control Messages
begin

text \<open>
  The control messages of a session (\<open>dispatchControl\<close> and the JSON getters of
  \<open>agent/controller.go\<close>, \<open>toControlData\<close> of \<open>agent/host/grpc.go\<close>): what the browser's data channel
  and the platform's \<open>SendControl\<close> call make the agent write to scrcpy.

  The getters read values as \<open>encoding/json\<close> decodes them: a number is a \<open>float64\<close>.  A \<open>nil\<close> map is
  \<open>None\<close>.  The debug hooks are \<open>nil\<close>, as in every build of the repository.
\<close>

section \<open>JSON getters\<close>

definition getUint64PointerID :: "conv \<Rightarrow> json_map option \<Rightarrow> string \<Rightarrow> u64" where
  "getUint64PointerID cv m key =
     (case m of
        None \<Rightarrow> PointerIDGenericFinger
      | Some m' \<Rightarrow>
          (case json_get m' key of
             Some (JNum val) \<Rightarrow> word_of_int (to_i64 (cv_i64 cv) val)
           | _ \<Rightarrow> PointerIDGenericFinger))"

definition getFloat64 :: "json_map option \<Rightarrow> string \<Rightarrow> f64" where
  "getFloat64 m key =
     (case m of
        None \<Rightarrow> Fin 0
      | Some m' \<Rightarrow>
          (case json_get m' key of
             Some (JNum val) \<Rightarrow> val
           | Some (JBool val) \<Rightarrow> if val then Fin 1 else Fin 0
           | _ \<Rightarrow> Fin 0))"

definition toUint32 :: "conv \<Rightarrow> json \<Rightarrow> u32 option" where
  "toUint32 cv v = (case v of JNum val \<Rightarrow> Some (to_word (cv_u32 cv) val) | _ \<Rightarrow> None)"

text \<open>\<open>d, _ := ctrl["data"].(map[string]any)\<close> and \<open>s, _ := d[key].(string)\<close>.\<close>

definition data_of :: "json_map option \<Rightarrow> json_map option" where
  "data_of ctrl =
     (case ctrl of
        None \<Rightarrow> None
      | Some m \<Rightarrow> (case json_get m ''data'' of Some (JObj d) \<Rightarrow> Some d | _ \<Rightarrow> None))"

definition getString :: "json_map option \<Rightarrow> string \<Rightarrow> string" where
  "getString m key =
     (case m of
        None \<Rightarrow> ''''
      | Some m' \<Rightarrow> (case json_get m' key of Some (JStr s) \<Rightarrow> s | _ \<Rightarrow> ''''))"

definition bytes_of :: "string \<Rightarrow> bytes" where
  "bytes_of s = map of_char s"

section \<open>Dispatching a control message\<close>

text \<open>
  \<open>Send b\<close> is handed to \<open>sendCtrl\<close>, \<open>Quality level\<close> is queued for the session's goroutine,
  \<open>Unknown\<close> is logged only.
\<close>

datatype ctl_action = Send bytes | Quality string | Unknown

definition dispatchControl :: "conv \<Rightarrow> string \<Rightarrow> json_map option \<Rightarrow> ctl_action" where
  "dispatchControl cv msgType ctrl =
     (let d = data_of ctrl;
          num = getFloat64 d;
          num8 = (\<lambda>key. to_word (cv_u8 cv) (num key));
          num16 = (\<lambda>key. to_word (cv_u16 cv) (num key));
          num32 = (\<lambda>key. to_word (cv_u32 cv) (num key))
      in if msgType = ''inject_touch'' then
           Send (BuildInjectTouch cv (num8 ''action'') (getUint64PointerID cv d ''pointer_id'')
             (num32 ''x'') (num32 ''y'') (num16 ''width'') (num16 ''height'') (num ''pressure'')
             (num32 ''action_button'') (num32 ''buttons''))
         else if msgType = ''inject_scroll'' then
           Send (BuildInjectScroll cv (num32 ''x'') (num32 ''y'') (num16 ''width'') (num16 ''height'')
             (num ''hscroll'') (num ''vscroll'') (num32 ''buttons''))
         else if msgType = ''inject_keycode'' then
           Send (BuildInjectKeycode (num32 ''action'') (num32 ''keycode'') (num32 ''repeat'')
             (num32 ''metastate''))
         else if msgType = ''inject_text'' then
           Send (BuildInjectText (bytes_of (getString d ''text'')))
         else if msgType = ''back_or_screen_on'' then Send (BuildBackOrScreenOn (num8 ''action''))
         else if msgType = ''set_clipboard'' then
           Send (BuildSetClipboard (to_word (cv_u64 cv) (num ''sequence''))
             (f64_nonzero (num ''paste'')) (bytes_of (getString d ''text'')))
         else if msgType = ''set_display_power'' then
           Send (BuildSetDisplayPower (f64_nonzero (num ''on'')))
         else if msgType = ''rotate_device'' then Send BuildRotateDevice
         else if msgType = ''collapse_panels'' then Send BuildCollapsePanels
         else if msgType = ''expand_notification'' \<or> msgType = ''inject_notification'' then
           Send BuildExpandNotificationPanel
         else if msgType = ''expand_settings'' then Send BuildExpandSettingsPanel
         else if msgType = ''get_clipboard'' then Send (BuildGetClipboard (num8 ''copy_key''))
         else if msgType = ''open_hard_keyboard_settings'' then Send BuildOpenHardKeyboardSettings
         else if msgType = ''reset_video'' then Send BuildResetVideo
         else if msgType = ''set_quality'' then Quality (getString d ''level'')
         else Unknown)"

text \<open>
  \<open>toControlData\<close> turns the platform's \<open>map<string,string>\<close> into the dispatcher's argument; the
  argument \<open>parse_float\<close> is \<open>strconv.ParseFloat\<close>, \<open>None\<close> for its error.
\<close>

definition toControlData :: "(string \<Rightarrow> f64 option) \<Rightarrow> (string \<times> string) list \<Rightarrow> json_map" where
  "toControlData parse_float m =
     map (\<lambda>(k, v). (k, case parse_float v of Some f \<Rightarrow> JNum f | None \<Rightarrow> JStr v)) m"

lemma json_get_Nil [simp]: "json_get [] key = None"
  by (simp add: json_get_def)

lemma data_of_Nil [simp]: "data_of (Some []) = None"
  by (simp add: data_of_def)

lemma getters_None [simp]:
  "getFloat64 None key = Fin 0" "getString None key = ''''"
  "getUint64PointerID cv None key = PointerIDGenericFinger"
  by (simp_all add: getFloat64_def getString_def getUint64PointerID_def)

section \<open>What is sent is a scrcpy message\<close>

text \<open>
  Whatever the browser puts into a control message, with fields missing, of the wrong type or out
  of range, the agent sends one complete message that the framing of the control stream accepts,
  changes the quality, or ignores it.  It cannot bring the stream out of step.
\<close>

theorem dispatch_well_framed:
  "case dispatchControl cv msgType ctrl of
     Send b \<Rightarrow> built cv b \<and> frame_len (b @ rest) = Some (length b)
   | Quality level \<Rightarrow> msgType = ''set_quality''
   | Unknown \<Rightarrow> True"
proof -
  have "case dispatchControl cv msgType ctrl of
      Send b \<Rightarrow> built cv b | Quality level \<Rightarrow> msgType = ''set_quality'' | Unknown \<Rightarrow> True"
    by (simp add: dispatchControl_def Let_def built.intros)
  then show ?thesis by (auto split: ctl_action.splits intro: built_frame)
qed

section \<open>The platform's control messages\<close>

text \<open>The bytes of a zero field.\<close>

lemma zero_fields [simp]:
  "put_u16 0 = replicate 2 0" "put_u32 0 = replicate 4 0" "put_u64 0 = replicate 8 0"
  by (simp_all add: put_u16_def put_u32_def put_u64_def numeral_nat)

lemma to_word_zero [simp]: "to_word impl (Fin 0) = 0"
  by (simp add: to_word_def)

lemma replicate_22: "replicate 4 x @ replicate 4 x @ replicate 2 x @ replicate 2 x @ replicate 2 x
    @ replicate 4 x @ replicate 4 x = replicate 22 x"
  by (simp flip: replicate_add)

lemma replicate_13: "replicate 8 x @ x # replicate 4 x = replicate 13 x"
  using replicate_add [of 8 5 x] by (simp add: numeral_nat)

lemma map_of_map_snd: "map_of (map (\<lambda>(k, v). (k, f v)) m) key = map_option f (map_of m key)"
  by (induction m) auto

lemma toControlData_get:
  "json_get (toControlData pf m) key =
     map_option (\<lambda>v. case pf v of Some f \<Rightarrow> JNum f | None \<Rightarrow> JStr v) (map_of m key)"
  by (simp add: json_get_def toControlData_def map_of_map_snd)

lemma data_of_toControlData [simp]: "data_of (Some (toControlData pf m)) = None"
  by (auto simp: data_of_def toControlData_get split: option.splits)

lemma dispatch_data_of:
  "data_of ctrl = data_of ctrl' \<Longrightarrow> dispatchControl cv msgType ctrl = dispatchControl cv msgType ctrl'"
  by (simp add: dispatchControl_def)

text \<open>
  C17. A control message of the platform loses its data.  \<open>toControlData\<close> builds a flat map of
  numbers and strings, and the dispatcher reads the fields from a map under the key \<open>data\<close>: every
  message is dispatched as if it carried no field at all.  Whatever the platform sends, a touch is a
  touch-down at (0, 0) of a screen of size 0, a text injection injects no text, and a clipboard is
  cleared.
\<close>

theorem platform_control_ignores_data:
  "dispatchControl cv msgType (Some (toControlData pf m)) = dispatchControl cv msgType (Some [])
   \<and> dispatchControl cv ''inject_touch'' (Some (toControlData pf m)) =
       Send ([msgInjectTouchEvent, 0] @ put_u64 PointerIDGenericFinger @ replicate 22 0)
   \<and> dispatchControl cv ''inject_text'' (Some (toControlData pf m)) =
       Send (msgInjectText # replicate 4 0)
   \<and> dispatchControl cv ''set_clipboard'' (Some (toControlData pf m)) =
       Send (msgSetClipboard # replicate 13 0)"
proof -
  let ?d = "\<lambda>t. dispatchControl cv t (Some (toControlData pf m))"
  have "?d t = dispatchControl cv t (Some [])" for t
    by (rule dispatch_data_of) simp
  moreover have "dispatchControl cv ''inject_touch'' (Some []) =
      Send ([msgInjectTouchEvent, 0] @ put_u64 PointerIDGenericFinger @ replicate 22 0)"
    by (simp add: dispatchControl_def BuildInjectTouch_def u16fp_def replicate_22)
  moreover have "dispatchControl cv ''inject_text'' (Some []) = Send (msgInjectText # replicate 4 0)"
    by (simp add: dispatchControl_def BuildInjectText_def inject_text_payload_def bytes_of_def
        zero_fields)
  moreover have "dispatchControl cv ''set_clipboard'' (Some []) = Send (msgSetClipboard # replicate 13 0)"
    by (simp add: dispatchControl_def BuildSetClipboard_def f64_nonzero_def bytes_of_def
        zero_fields replicate_13)
  ultimately show ?thesis by simp
qed

end
