(* ===== verification/ConfigStore.thy ===== *)
theory ConfigStore
  imports Config
begin

text \<open>
  \<open>agent/configstore.go\<close>: the store of the global configuration (an atomic pointer) and of the
  per-device overrides (a map under a mutex).  Every operation of the store is atomic.

  A controller reads its device's configuration through the store; what it may rely on while the
  platform reloads the global configuration or prepares other devices is the locale
  \<open>device_config\<close>.
\<close>

section \<open>Defaults of an injected configuration\<close>

definition applyDefaults :: "AgentConfig \<Rightarrow> AgentConfig" where
  "applyDefaults cfg = cfg\<lparr>
     ac_SignalingURL := or_str ''ws://127.0.0.1:8080'' (ac_SignalingURL cfg),
     ac_ServiceID := or_str ''default'' (ac_ServiceID cfg),
     ac_Scrcpy := scrcpy_defaults (ac_Scrcpy cfg),
     ac_STUNServers := or_list default_stun (ac_STUNServers cfg),
     ac_QoSIntervalMS := or_int 2000 (ac_QoSIntervalMS cfg)\<rparr>"

lemma scrcpy_defaults_idem [simp]: "scrcpy_defaults (scrcpy_defaults s) = scrcpy_defaults s"
  by (simp add: scrcpy_defaults_def)

lemma applyDefaults_idem [simp]: "applyDefaults (applyDefaults c) = applyDefaults c"
  by (simp add: applyDefaults_def)

section \<open>The store\<close>

record ConfigStore =
  cs_global :: "AgentConfig option"
  cs_device :: "string \<rightharpoonup> DeviceConfig"

definition NewConfigStore :: "AgentConfig option \<Rightarrow> ConfigStore" where
  "NewConfigStore initial =
     \<lparr>cs_global = (case initial of None \<Rightarrow> None | Some c \<Rightarrow> Some (applyDefaults c)),
      cs_device = Map.empty\<rparr>"

definition SetGlobal :: "AgentConfig \<Rightarrow> ConfigStore \<Rightarrow> ConfigStore" where
  "SetGlobal cfg s = s\<lparr>cs_global := Some (applyDefaults cfg)\<rparr>"

definition Global :: "ConfigStore \<Rightarrow> AgentConfig option" where
  "Global s = cs_global s"

definition SetDeviceOverrides :: "string \<Rightarrow> DeviceConfig option \<Rightarrow> ConfigStore \<Rightarrow> ConfigStore" where
  "SetDeviceOverrides serial d s =
     (case d of
        None \<Rightarrow> s\<lparr>cs_device := (cs_device s)(serial := None)\<rparr>
      | Some cp \<Rightarrow> s\<lparr>cs_device := (cs_device s)(serial \<mapsto> cp)\<rparr>)"

definition ClearDeviceOverrides :: "string \<Rightarrow> ConfigStore \<Rightarrow> ConfigStore" where
  "ClearDeviceOverrides serial s = s\<lparr>cs_device := (cs_device s)(serial := None)\<rparr>"

definition ForDevice :: "string \<Rightarrow> ConfigStore \<Rightarrow> AgentConfig option" where
  "ForDevice serial s =
     (case cs_global s of
        None \<Rightarrow> None
      | Some g \<Rightarrow>
          (case cs_device s serial of
             None \<Rightarrow> Some g
           | Some over \<Rightarrow>
               Some (g\<lparr>ac_Scrcpy := MergeDeviceConfig (ac_Scrcpy g) (Some over)\<rparr>)))"

lemma ClearDeviceOverrides_eq: "ClearDeviceOverrides serial s = SetDeviceOverrides serial None s"
  by (simp add: ClearDeviceOverrides_def SetDeviceOverrides_def)

lemma store_simps [simp]:
  "cs_global (SetDeviceOverrides serial d s) = cs_global s"
  "cs_device (SetDeviceOverrides serial d s) = (cs_device s)(serial := d)"
  "cs_global (SetGlobal cfg s) = Some (applyDefaults cfg)"
  "cs_device (SetGlobal cfg s) = cs_device s"
  "cs_global (ClearDeviceOverrides serial s) = cs_global s"
  "cs_device (ClearDeviceOverrides serial s) = (cs_device s)(serial := None)"
  by (cases d; simp add: SetDeviceOverrides_def SetGlobal_def ClearDeviceOverrides_def)+

lemma ForDevice_eq:
  "ForDevice serial s =
     map_option (\<lambda>g. g\<lparr>ac_Scrcpy := MergeDeviceConfig (ac_Scrcpy g) (cs_device s serial)\<rparr>) (cs_global s)"
  by (simp add: ForDevice_def MergeDeviceConfig_def split: option.splits)

section \<open>The contract a controller relies on\<close>

text \<open>
  \<open>effective k s\<close> is what the device \<open>k\<close> reads; \<open>inject\<close> sets or clears (\<open>None\<close>) the overrides
  of one device, \<open>reload\<close> replaces the global configuration.
\<close>

locale device_config =
  fixes effective :: "'k \<Rightarrow> 's \<Rightarrow> 'c option"
    and inject :: "'k \<Rightarrow> 'd option \<Rightarrow> 's \<Rightarrow> 's"
    and reload :: "'g \<Rightarrow> 's \<Rightarrow> 's"
    and view :: "'g \<Rightarrow> 'd option \<Rightarrow> 'c"
    and overrides :: "'k \<Rightarrow> 's \<Rightarrow> 'd option"
  assumes inject_effective_other: "k \<noteq> k' \<Longrightarrow> effective k (inject k' d s) = effective k s"
    and inject_overrides: "overrides k (inject k' d s) = (if k = k' then d else overrides k s)"
    and reload_overrides: "overrides k (reload g s) = overrides k s"
    and reload_effective: "effective k (reload g s) = Some (view g (overrides k s))"
    and inject_reload: "inject k d (reload g s) = reload g (inject k d s)"
begin

lemma effective_after: "effective k (inject k d (reload g s)) = Some (view g d)"
  by (simp add: inject_reload reload_effective inject_overrides)

text \<open>Preparing, resetting and releasing other devices never changes what a device reads.\<close>

lemma isolation:
  "(\<And>k' d. (k', d) \<in> set ops \<Longrightarrow> k' \<noteq> k) \<Longrightarrow>
     effective k (fold (\<lambda>(k', d). inject k' d) ops s) = effective k s"
proof (induction ops arbitrary: s)
  case Nil
  then show ?case by simp
next
  case (Cons op ops)
  obtain k' d where op: "op = (k', d)" by (cases op)
  with Cons.prems have "k \<noteq> k'" by fastforce
  moreover have "effective k (fold (\<lambda>(k', d). inject k' d) ops (inject k' d s)) = effective k (inject k' d s)"
    using Cons.prems by (intro Cons.IH) (auto simp: op)
  ultimately show ?case by (simp add: op inject_effective_other)
qed

end

definition effective_view :: "AgentConfig \<Rightarrow> DeviceConfig option \<Rightarrow> AgentConfig" where
  "effective_view cfg d =
     (let g = applyDefaults cfg in g\<lparr>ac_Scrcpy := MergeDeviceConfig (ac_Scrcpy g) d\<rparr>)"

interpretation store: device_config ForDevice SetDeviceOverrides SetGlobal effective_view
    "\<lambda>k s. cs_device s k"
proof
  show "SetDeviceOverrides k d (SetGlobal g s) = SetGlobal g (SetDeviceOverrides k d s)" for k d g s
    by (simp add: SetDeviceOverrides_def SetGlobal_def split: option.splits)
qed (auto simp: ForDevice_eq effective_view_def Let_def)

section \<open>Properties\<close>

text \<open>
  A configuration injected by the platform gets the defaults of the legacy YAML loader: on
  every configuration \<open>applyDefaults\<close> agrees with the defaults of \<open>LoadAgent\<close> in all fields but
  the instance id, which only the legacy single-instance mode has.
\<close>

theorem applyDefaults_is_LoadAgent:
  "LoadAgent_defaults cfg = (applyDefaults cfg)\<lparr>ac_InstanceID := or_str ''default'' (ac_InstanceID cfg)\<rparr>"
  by (cases cfg) (simp add: LoadAgent_defaults_def applyDefaults_def)

text \<open>
  What a device reads after the platform has injected \<open>d\<close> for it, at any later time: the
  latest global configuration with defaults, overlaid by exactly the fields \<open>d\<close> sets, whatever
  was done to other devices in between.
\<close>

theorem ForDevice_history:
  assumes "\<forall>(k, d') \<in> set ops. k \<noteq> serial"
  shows "ForDevice serial
           (fold (\<lambda>(k, d'). SetDeviceOverrides k d') ops
             (SetDeviceOverrides serial d (SetGlobal cfg s)))
         = Some ((applyDefaults cfg)\<lparr>
             ac_Scrcpy := MergeDeviceConfig (ac_Scrcpy (applyDefaults cfg)) d\<rparr>)"
proof -
  have "ForDevice serial (fold (\<lambda>(k, d'). SetDeviceOverrides k d') ops
          (SetDeviceOverrides serial d (SetGlobal cfg s)))
      = ForDevice serial (SetDeviceOverrides serial d (SetGlobal cfg s))"
    using assms by (intro store.isolation) auto
  also have "\<dots> = Some (effective_view cfg d)" by (rule store.effective_after)
  finally show ?thesis by (simp add: effective_view_def Let_def)
qed

theorem ForDevice_history_witness:
  "ForDevice ''emu''
     (fold (\<lambda>(k, d'). SetDeviceOverrides k d') [(''usb'', None)]
       (SetDeviceOverrides ''emu'' None (SetGlobal zero_AgentConfig (NewConfigStore None))))
   = Some ((applyDefaults zero_AgentConfig)\<lparr>
       ac_Scrcpy := MergeDeviceConfig (ac_Scrcpy (applyDefaults zero_AgentConfig)) None\<rparr>)"
  by (rule ForDevice_history) simp

end
