(* ===== verification/Bitrate.thy ===== *)
theory Bitrate
  imports Dispatch ConfigStore
begin

text \<open>
  The encoder bitrate of a session (\<open>agent/controller.go\<close>): the quality tiers, and the ladder that
  lowers the bitrate when the browser reports loss and restores it when the network stays quiet.

  The functions work on \<open>ladder\<close>, the bitrate fields of \<open>SessionCtx\<close>; \<open>lastBitrateDropPct\<close> is
  written and never read, and left out.  \<open>now\<close> is the clock, read once per event.
\<close>

section \<open>State\<close>

record ladder =
  ld_initialBitrate :: int
  ld_lastBitrate :: int
  ld_lastBitrateChange :: time
  ld_lastLossLowTime :: time
  ld_minBitrate :: int

definition bitrateHysteresis :: duration where "bitrateHysteresis = 30 * second"
definition bitrateRecoveryStale :: duration where "bitrateRecoveryStale = 30 * second"

section \<open>Quality tiers\<close>

definition tierBitrate :: "AgentConfig \<Rightarrow> string \<Rightarrow> int" where
  "tierBitrate cfg level =
     (let scfg = ac_Scrcpy cfg
      in if level = ''clear'' then
           (if sc_ClearBitrate scfg > 0 then sc_ClearBitrate scfg else 2000000)
         else if level = ''hd'' then
           (if sc_HDBitrate scfg > 0 then sc_HDBitrate scfg else 6000000)
         else sc_VideoBitRate scfg)"

text \<open>\<open>quality\<close> is the controller's \<open>qualityBitrate\<close>.\<close>

definition currentQualityBitrate :: "int \<Rightarrow> AgentConfig \<Rightarrow> int" where
  "currentQualityBitrate quality cfg =
     (if quality > 0 then quality else sc_VideoBitRate (ac_Scrcpy cfg))"

text \<open>The ladder of a new session context (\<open>newSessionCtx\<close>).\<close>

definition new_ladder :: "int \<Rightarrow> AgentConfig \<Rightarrow> ladder" where
  "new_ladder quality cfg =
     (let m = sc_MinVideoBitRate (ac_Scrcpy cfg);
          minBitrate = (if m \<le> 0 then 400000 else m);
          bitrate = currentQualityBitrate quality cfg
      in \<lparr>ld_initialBitrate = bitrate, ld_lastBitrate = bitrate, ld_lastBitrateChange = 0,
          ld_lastLossLowTime = 0, ld_minBitrate = minBitrate\<rparr>)"

text \<open>
  What a change of the bitrate does besides updating the ladder: a message for scrcpy and the
  bitrate for the peer's FEC evaluator.
\<close>

datatype rate_out = RateCtl bytes | RatePeer int

text \<open>\<open>applyQuality\<close>: the new \<open>qualityBitrate\<close>, the ladder and the outputs.\<close>

definition applyQuality ::
  "AgentConfig \<Rightarrow> string \<Rightarrow> time \<Rightarrow> ladder \<Rightarrow> int \<times> ladder \<times> rate_out list" where
  "applyQuality cfg level now l =
     (let bitrate = tierBitrate cfg level
      in (bitrate,
          l\<lparr>ld_initialBitrate := bitrate, ld_lastBitrate := bitrate, ld_lastBitrateChange := now\<rparr>,
          [RateCtl (BuildChangeBitrate bitrate), RatePeer bitrate]))"

section \<open>The ladder\<close>

definition bitrateStep :: "f64 \<Rightarrow> ladder \<Rightarrow> int" where
  "bitrateStep lossRate l =
     (if ld_initialBitrate l = 0 then 8000000
      else
        let target =
              (if f64_less (Fin 10) lossRate then go_div (ld_initialBitrate l) 4
               else if f64_less (Fin 5) lossRate then go_div (ld_initialBitrate l) 2
               else if f64_less (Fin 2) lossRate then go_div (wrap64 (ld_initialBitrate l * 3)) 4
               else ld_initialBitrate l)
        in if target < ld_minBitrate l then ld_minBitrate l else target)"

text \<open>
  \<open>maybeAdjustBitrate\<close> for a context whose session is there; \<open>None\<close> instead of the outputs is a
  return before the bitrate changes.
\<close>

definition track_quiet :: "f64 \<Rightarrow> time \<Rightarrow> ladder \<Rightarrow> ladder" where
  "track_quiet lossRate now l =
     (if f64_less lossRate (Fin 2) then
        (if ld_lastLossLowTime l = 0 then l\<lparr>ld_lastLossLowTime := now\<rparr> else l)
      else l\<lparr>ld_lastLossLowTime := 0\<rparr>)"

definition adjust :: "f64 \<Rightarrow> time \<Rightarrow> ladder \<Rightarrow> ladder \<times> rate_out list" where
  "adjust lossRate now l0 =
     (let l = track_quiet lossRate now l0;
          prev = ld_lastBitrate l;
          target = bitrateStep lossRate l
      in if target = prev then (l, [])
         else if target < prev \<and> time_sub now (ld_lastBitrateChange l) < bitrateHysteresis then (l, [])
         else if target > prev \<and> prev \<noteq> 0
                 \<and> (ld_lastLossLowTime l = 0
                    \<or> time_sub now (ld_lastLossLowTime l) < bitrateRecoveryStale) then (l, [])
         else (l\<lparr>ld_lastBitrate := target, ld_lastBitrateChange := now, ld_lastLossLowTime := 0\<rparr>,
               [RateCtl (BuildChangeBitrate target), RatePeer target]))"

text \<open>The events of one session: a \<open>decoder_status\<close> of the browser, a \<open>set_quality\<close>.\<close>

datatype rate_event = Status "json_map option" | SetTier AgentConfig string

definition maybeAdjustBitrate :: "json_map option \<Rightarrow> time \<Rightarrow> ladder \<Rightarrow> ladder \<times> rate_out list" where
  "maybeAdjustBitrate dat now l = adjust (getFloat64 dat ''lossRate'') now l"

fun rate_step :: "rate_event \<Rightarrow> time \<Rightarrow> ladder \<Rightarrow> ladder \<times> rate_out list" where
  "rate_step (Status dat) now l = maybeAdjustBitrate dat now l"
| "rate_step (SetTier cfg level) now l = snd (applyQuality cfg level now l)"

section \<open>Bounds of the ladder\<close>

text \<open>A ladder as the configuration makes it: a positive tier of at most 32 bits, a floor.\<close>

definition ladder_ok :: "ladder \<Rightarrow> bool" where
  "ladder_ok l \<longleftrightarrow> 0 < ld_initialBitrate l \<and> ld_initialBitrate l < 2 ^ 61 \<and> 0 < ld_minBitrate l"

lemma bitrateStep_cases:
  assumes "ladder_ok l"
  shows "bitrateStep loss l = max (ld_minBitrate l)
    (if f64_less (Fin 10) loss then ld_initialBitrate l div 4
     else if f64_less (Fin 5) loss then ld_initialBitrate l div 2
     else if f64_less (Fin 2) loss then ld_initialBitrate l * 3 div 4
     else ld_initialBitrate l)"
  using assms by (auto simp: bitrateStep_def ladder_ok_def Let_def max_def)

lemma bitrateStep_bounds:
  assumes "ladder_ok l"
  shows "ld_minBitrate l \<le> bitrateStep loss l"
    "bitrateStep loss l \<le> max (ld_minBitrate l) (ld_initialBitrate l)"
  using assms by (auto simp: bitrateStep_cases ladder_ok_def max_def)

lemma f64_less_trans_Fin: "f64_less (Fin a) x \<Longrightarrow> b \<le> a \<Longrightarrow> f64_less (Fin b) x"
  by (cases x) auto

lemma f64_less_chain: "f64_less (Fin a) x \<Longrightarrow> f64_le x y \<Longrightarrow> f64_less (Fin a) y"
  by (cases x; cases y) auto

lemma bitrateStep_antimono:
  assumes "ladder_ok l" "f64_le x y"
  shows "bitrateStep y l \<le> bitrateStep x l"
proof -
  note * = f64_less_chain [OF _ assms(2)]
  have "0 < ld_initialBitrate l" using assms(1) by (simp add: ladder_ok_def)
  then show ?thesis
    using *[of 10] *[of 5] *[of 2] unfolding bitrateStep_cases [OF assms(1)]
    by (auto simp: max_def)
qed

lemma track_quiet_fields [simp]:
  "ld_initialBitrate (track_quiet x now l) = ld_initialBitrate l"
  "ld_lastBitrate (track_quiet x now l) = ld_lastBitrate l"
  "ld_lastBitrateChange (track_quiet x now l) = ld_lastBitrateChange l"
  "ld_minBitrate (track_quiet x now l) = ld_minBitrate l"
  "ladder_ok (track_quiet x now l) = ladder_ok l"
  "bitrateStep y (track_quiet x now l) = bitrateStep y l"
  by (auto simp: track_quiet_def ladder_ok_def bitrateStep_def Let_def)

lemma track_quiet_low:
  "ld_lastLossLowTime (track_quiet x now l) =
     (if f64_less x (Fin 2) then (if ld_lastLossLowTime l = 0 then now else ld_lastLossLowTime l) else 0)"
  by (auto simp: track_quiet_def)

lemma adjust_fields [simp]:
  "ld_initialBitrate (fst (adjust x now l)) = ld_initialBitrate l"
  "ld_minBitrate (fst (adjust x now l)) = ld_minBitrate l"
  "ladder_ok (fst (adjust x now l)) = ladder_ok l"
  by (auto simp: adjust_def Let_def ladder_ok_def)

section \<open>Runs of the ladder\<close>

text \<open>
  A run is a list of timed events.  \<open>rate_marks\<close> lists its changes of the bitrate: the time, the
  bitrate, and whether the ladder made it (and not the user).
\<close>

fun rate_run :: "ladder \<Rightarrow> (time \<times> rate_event) list \<Rightarrow> ladder" where
  "rate_run l [] = l"
| "rate_run l ((t, e) # es) = rate_run (fst (rate_step e t l)) es"

fun rate_marks :: "ladder \<Rightarrow> (time \<times> rate_event) list \<Rightarrow> (bool \<times> time \<times> int) list" where
  "rate_marks l [] = []"
| "rate_marks l ((t, e) # es) =
     (let (l', out) = rate_step e t l
      in (if out = [] then [] else [(case e of Status _ \<Rightarrow> True | SetTier _ _ \<Rightarrow> False, t, ld_lastBitrate l')])
         @ rate_marks l' es)"

fun paced :: "time \<Rightarrow> (bool \<times> time \<times> int) list \<Rightarrow> bool" where
  "paced u [] = True"
| "paced u ((auto, t, _) # ms) = ((auto \<longrightarrow> bitrateHysteresis \<le> t - u) \<and> paced t ms)"

text \<open>A tier switch to a configuration whose tiers lie between the floor and \<open>hi\<close>.\<close>

definition tier_ok :: "int \<Rightarrow> int \<Rightarrow> rate_event \<Rightarrow> bool" where
  "tier_ok lo hi e =
     (case e of Status _ \<Rightarrow> True
      | SetTier cfg level \<Rightarrow> lo \<le> tierBitrate cfg level \<and> tierBitrate cfg level \<le> hi)"

text \<open>What holds of the ladder while the clock stands at \<open>now\<close>.\<close>

definition ladder_inv :: "int \<Rightarrow> time \<Rightarrow> ladder \<Rightarrow> bool" where
  "ladder_inv hi now l \<longleftrightarrow>
     ladder_ok l \<and> ld_minBitrate l \<le> ld_initialBitrate l \<and> ld_initialBitrate l \<le> hi
     \<and> ld_minBitrate l \<le> ld_lastBitrate l \<and> ld_lastBitrate l \<le> ld_initialBitrate l
     \<and> ld_lastBitrateChange l \<le> now
     \<and> (ld_lastLossLowTime l = 0
        \<or> ld_lastLossLowTime l \<le> now
          \<and> (ld_lastBitrateChange l \<le> ld_lastLossLowTime l
             \<or> ld_lastBitrate l = ld_initialBitrate l))"

lemma ladder_inv_later: "ladder_inv hi t l \<Longrightarrow> t \<le> u \<Longrightarrow> ladder_inv hi u l"
  by (auto simp: ladder_inv_def)

lemma ladder_inv_quiet:
  assumes "ladder_inv hi now l"
  shows "ladder_inv hi now (track_quiet x now l)"
  using assms by (auto simp: ladder_inv_def track_quiet_low)

lemma ladder_inv_target:
  assumes "ladder_inv hi now l"
  shows "ld_minBitrate l \<le> bitrateStep x l" "bitrateStep x l \<le> ld_initialBitrate l"
  using assms bitrateStep_bounds [of l x] by (auto simp: ladder_inv_def)

text \<open>The three ways \<open>adjust\<close> can go.\<close>

lemma adjust_cases:
  obtains (keep) "adjust x now l = (track_quiet x now l, [])"
  | (change) "adjust x now l =
        ((track_quiet x now l)\<lparr>ld_lastBitrate := bitrateStep x l, ld_lastBitrateChange := now,
           ld_lastLossLowTime := 0\<rparr>,
         [RateCtl (BuildChangeBitrate (bitrateStep x l)), RatePeer (bitrateStep x l)])"
      "bitrateStep x l < ld_lastBitrate l \<and> bitrateHysteresis \<le> time_sub now (ld_lastBitrateChange l)
       \<or> ld_lastBitrate l < bitrateStep x l
         \<and> (ld_lastBitrate l = 0
            \<or> ld_lastLossLowTime (track_quiet x now l) \<noteq> 0
              \<and> bitrateRecoveryStale \<le> time_sub now (ld_lastLossLowTime (track_quiet x now l)))"
proof -
  note * = adjust_def [of x now l, unfolded Let_def, simplified]
  show thesis
  proof (cases "adjust x now l = (track_quiet x now l, [])")
    case False
    then show thesis
      by (intro change) (auto simp: * split: if_splits)
  qed (rule keep)
qed

lemma adjust_inv:
  assumes inv: "ladder_inv hi now l" and pos: "0 < now"
  shows "ladder_inv hi now (fst (adjust x now l))"
  using ladder_inv_quiet [OF inv, of x] ladder_inv_target [OF inv, of x] inv
  by (cases x now l rule: adjust_cases) (auto simp: ladder_inv_def ladder_ok_def)

text \<open>An automatic change comes at least 30 s after the last change of the bitrate.\<close>

lemma adjust_paced:
  assumes inv: "ladder_inv hi now l" and out: "snd (adjust x now l) \<noteq> []"
  shows "bitrateHysteresis \<le> now - ld_lastBitrateChange l"
proof (cases x now l rule: adjust_cases)
  case change
  let ?q = "track_quiet x now l"
  have pos: "0 < ld_lastBitrate l" using inv by (auto simp: ladder_inv_def ladder_ok_def)
  from change(2) show ?thesis
  proof (elim disjE conjE)
    assume "bitrateHysteresis \<le> time_sub now (ld_lastBitrateChange l)"
    then show ?thesis by (rule time_sub_ge) (simp add: bitrateHysteresis_def)
  next
    assume up: "ld_lastBitrate l < bitrateStep x l" "ld_lastLossLowTime ?q \<noteq> 0"
      and "bitrateRecoveryStale \<le> time_sub now (ld_lastLossLowTime ?q)"
    then have "bitrateRecoveryStale \<le> now - ld_lastLossLowTime ?q"
      by (intro time_sub_ge) (simp_all add: bitrateRecoveryStale_def)
    moreover have "ld_lastBitrateChange l \<le> ld_lastLossLowTime ?q"
      using ladder_inv_quiet [OF inv, of x] ladder_inv_target(2) [OF inv, of x] up
      by (auto simp: ladder_inv_def)
    ultimately show ?thesis by (simp add: bitrateRecoveryStale_def bitrateHysteresis_def)
  qed (use pos in simp)
qed (use out in simp)

lemma SetTier_inv:
  assumes "ladder_inv hi now l" "tier_ok (ld_minBitrate l) hi (SetTier cfg level)" "hi < 2 ^ 61"
  shows "ladder_inv hi now (fst (rate_step (SetTier cfg level) now l))"
  using assms by (auto simp: ladder_inv_def ladder_ok_def tier_ok_def applyQuality_def Let_def)

lemma rate_step_min [simp]:
  "ld_minBitrate (fst (rate_step e now l)) = ld_minBitrate l"
  by (cases e) (simp_all add: maybeAdjustBitrate_def applyQuality_def Let_def)

lemma rate_step_inv:
  assumes "ladder_inv hi now l" "tier_ok (ld_minBitrate l) hi e" "hi < 2 ^ 61" "0 < now"
  shows "ladder_inv hi now (fst (rate_step e now l))"
  using assms SetTier_inv by (cases e) (auto simp: maybeAdjustBitrate_def adjust_inv)

lemma rate_step_stamp:
  assumes "snd (rate_step e now l) \<noteq> []"
  shows "ld_lastBitrateChange (fst (rate_step e now l)) = now"
  using assms
proof (cases e)
  case (Status dat)
  with assms show ?thesis
    by (cases "getFloat64 dat ''lossRate''" now l rule: adjust_cases)
      (auto simp: maybeAdjustBitrate_def)
qed (simp add: applyQuality_def Let_def)

lemma rate_step_idle:
  assumes "snd (rate_step e now l) = []"
  shows "ld_lastBitrateChange (fst (rate_step e now l)) = ld_lastBitrateChange l"
  using assms
proof (cases e)
  case (Status dat)
  with assms show ?thesis
    by (cases "getFloat64 dat ''lossRate''" now l rule: adjust_cases)
      (auto simp: maybeAdjustBitrate_def)
qed (simp add: applyQuality_def Let_def)

section \<open>The ladder changes slowly and stays in range\<close>

definition run_ok :: "int \<Rightarrow> int \<Rightarrow> (time \<times> rate_event) list \<Rightarrow> bool" where
  "run_ok lo hi es \<longleftrightarrow> sorted (map fst es) \<and> list_all (\<lambda>(t, e). 0 < t \<and> tier_ok lo hi e) es"

lemma run_ok_Cons:
  "run_ok lo hi ((t, e) # es) \<longleftrightarrow>
     0 < t \<and> tier_ok lo hi e \<and> list_all (\<lambda>(u, _). t \<le> u) es \<and> run_ok lo hi es"
  by (auto simp: run_ok_def list_all_iff)

lemma rate_marks_paced:
  assumes "run_ok (ld_minBitrate l) hi es" "hi < 2 ^ 61"
    and "ladder_inv hi now l" "list_all (\<lambda>(u, _). now \<le> u) es"
  shows "paced (ld_lastBitrateChange l) (rate_marks l es)
    \<and> list_all (\<lambda>(_, _, r). ld_minBitrate l \<le> r \<and> r \<le> hi) (rate_marks l es)"
  using assms
proof (induction es arbitrary: l now)
  case (Cons te es)
  obtain t e where te: "te = (t, e)" by (cases te)
  obtain l' out where step: "rate_step e t l = (l', out)" by (cases "rate_step e t l")
  from Cons.prems te have t: "0 < t" "now \<le> t" and ok: "tier_ok (ld_minBitrate l) hi e"
    and later: "list_all (\<lambda>(u, _). t \<le> u) es" and rest: "run_ok (ld_minBitrate l) hi es"
    by (auto simp: run_ok_Cons)
  have inv: "ladder_inv hi t l" using Cons.prems(3) t(2) by (rule ladder_inv_later)
  then have inv': "ladder_inv hi t l'"
    using rate_step_inv [OF inv ok \<open>hi < 2 ^ 61\<close> t(1)] step by simp
  have min: "ld_minBitrate l' = ld_minBitrate l" using rate_step_min [of e t l] step by simp
  have IH: "paced (ld_lastBitrateChange l') (rate_marks l' es)
    \<and> list_all (\<lambda>(_, _, r). ld_minBitrate l' \<le> r \<and> r \<le> hi) (rate_marks l' es)"
    using Cons.IH [of l' t] rest \<open>hi < 2 ^ 61\<close> inv' later by (simp add: min)
  show ?case
  proof (cases "out = []")
    case True
    then have "ld_lastBitrateChange l' = ld_lastBitrateChange l"
      using rate_step_idle [of e t l] step by simp
    with True IH show ?thesis by (simp add: te step min)
  next
    case False
    then have "ld_lastBitrateChange l' = t" using rate_step_stamp [of e t l] step by simp
    moreover have "bitrateHysteresis \<le> t - ld_lastBitrateChange l" if "e = Status dat" for dat
      using adjust_paced [OF inv, of "getFloat64 dat ''lossRate''"] False step that
      by (simp add: maybeAdjustBitrate_def)
    moreover have "ld_minBitrate l \<le> ld_lastBitrate l' \<and> ld_lastBitrate l' \<le> hi"
      using inv' min by (auto simp: ladder_inv_def)
    ultimately show ?thesis using IH False by (auto simp: te step min split: rate_event.splits)
  qed
qed simp

lemma new_ladder_inv:
  assumes "ld_minBitrate (new_ladder q cfg) \<le> ld_initialBitrate (new_ladder q cfg)"
    and "ld_initialBitrate (new_ladder q cfg) \<le> hi" "hi < 2 ^ 61"
  shows "ladder_inv hi 0 (new_ladder q cfg)"
  using assms by (auto simp: ladder_inv_def ladder_ok_def new_ladder_def Let_def split: if_splits)

text \<open>
  C16. In every run of a session, whatever loss the browser reports and however often the user
  switches the tier, each change the ladder makes by itself comes at least 30 s after the previous
  change of the bitrate, the user's included, and every bitrate it commands lies between the
  configured floor and the highest tier.  (The tiers must not lie below the floor.)
\<close>

theorem ladder_paced_and_bounded:
  assumes "run_ok (ld_minBitrate (new_ladder q cfg)) hi es" "hi < 2 ^ 61"
    and "ld_minBitrate (new_ladder q cfg) \<le> ld_initialBitrate (new_ladder q cfg)"
    and "ld_initialBitrate (new_ladder q cfg) \<le> hi"
  shows "paced 0 (rate_marks (new_ladder q cfg) es)
    \<and> list_all (\<lambda>(_, _, r). ld_minBitrate (new_ladder q cfg) \<le> r \<and> r \<le> hi)
        (rate_marks (new_ladder q cfg) es)"
proof -
  have "ladder_inv hi 0 (new_ladder q cfg)" using assms by (intro new_ladder_inv)
  moreover have "list_all (\<lambda>(u, _). 0 \<le> u) es"
    using assms(1) by (auto simp: run_ok_def list_all_iff)
  moreover have "ld_lastBitrateChange (new_ladder q cfg) = 0" by (simp add: new_ladder_def Let_def)
  ultimately show ?thesis
    using rate_marks_paced [OF assms(1,2)] by metis
qed

text \<open>A run with a burst of loss, a switch of the tier and a recovery.\<close>

definition demo_cfg :: AgentConfig where
  "demo_cfg = zero_AgentConfig\<lparr>ac_Scrcpy := zero_ScrcpyConfig\<lparr>sc_VideoBitRate := 8000000\<rparr>\<rparr>"

definition loss :: "rat \<Rightarrow> rate_event" where
  "loss x = Status (Some [(''lossRate'', JNum (Fin x))])"

lemmas demo_rates =
  demo_cfg_def loss_def new_ladder_def currentQualityBitrate_def Let_def zero_AgentConfig_def
  zero_ScrcpyConfig_def maybeAdjustBitrate_def getFloat64_def json_get_def adjust_def
  track_quiet_def bitrateStep_def applyQuality_def tierBitrate_def go_div_def time_sub_def
  bitrateHysteresis_def bitrateRecoveryStale_def

definition demo_run :: "(time \<times> rate_event) list" where
  "demo_run = [(100 * second, loss 12), (105 * second, loss 0), (110 * second, loss 6),
     (112 * second, SetTier demo_cfg ''hd''), (120 * second, loss 6), (150 * second, loss 6),
     (160 * second, loss 1), (195 * second, loss 1)]"

lemma demo_run_marks:
  "rate_marks (new_ladder 0 demo_cfg) demo_run =
     [(True, 100 * second, 2000000), (False, 112 * second, 6000000), (True, 150 * second, 3000000),
      (True, 195 * second, 6000000)]"
  by (simp add: demo_run_def demo_rates)

theorem ladder_paced_and_bounded_witness:
  "paced 0 (rate_marks (new_ladder 0 demo_cfg) demo_run)
   \<and> list_all (\<lambda>(_, _, r). 400000 \<le> r \<and> r \<le> 8000000) (rate_marks (new_ladder 0 demo_cfg) demo_run)"
proof -
  have m: "ld_minBitrate (new_ladder 0 demo_cfg) = 400000" by (simp add: demo_rates)
  show ?thesis
    using ladder_paced_and_bounded [of 0 demo_cfg 8000000 demo_run]
    by (simp add: m) (simp add: run_ok_def demo_run_def tier_ok_def demo_rates)
qed

section \<open>Recovery\<close>

definition full_rate :: "ladder \<Rightarrow> int" where
  "full_rate l = max (ld_minBitrate l) (ld_initialBitrate l)"

lemma adjust_quiet_step:
  assumes ok: "ladder_ok l" and quiet: "f64_less x (Fin 2)" and pos: "0 < now" "0 < t0"
    and le: "0 < ld_lastBitrate l" "ld_lastBitrate l \<le> full_rate l"
    and low: "ld_lastBitrate l = full_rate l \<or> ld_lastLossLowTime l = 0 \<and> now \<le> t0
               \<or> ld_lastLossLowTime l \<noteq> 0 \<and> ld_lastLossLowTime l \<le> t0"
  shows "let l' = fst (adjust x now l)
    in full_rate l' = full_rate l \<and> 0 < ld_lastBitrate l' \<and> ld_lastBitrate l' \<le> full_rate l
       \<and> (ld_lastBitrate l' = full_rate l
          \<or> ld_lastLossLowTime l' \<noteq> 0 \<and> ld_lastLossLowTime l' \<le> t0 \<and> now - t0 < 30 * second)"
proof -
  have nf: "\<not> f64_less (Fin a) x" if "2 \<le> a" for a using quiet that by (cases x) auto
  have target: "bitrateStep x l = full_rate l"
    using bitrateStep_cases [OF ok, of x] nf by (simp add: full_rate_def)
  let ?q = "track_quiet x now l"
  have q: "ld_lastBitrate l = full_rate l \<or> ld_lastLossLowTime ?q \<noteq> 0 \<and> ld_lastLossLowTime ?q \<le> t0"
    using low quiet pos by (auto simp: track_quiet_low)
  have full: "full_rate ?q = full_rate l" by (simp add: full_rate_def)
  show ?thesis
  proof (cases "ld_lastBitrate l = full_rate l")
    case True
    then have "adjust x now l = (?q, [])" by (simp add: adjust_def Let_def target)
    with True le full show ?thesis by simp
  next
    case False
    with q have stamp: "ld_lastLossLowTime ?q \<noteq> 0" "ld_lastLossLowTime ?q \<le> t0" by auto
    have "adjust x now l =
        (if time_sub now (ld_lastLossLowTime ?q) < bitrateRecoveryStale then (?q, [])
         else (?q\<lparr>ld_lastBitrate := full_rate l, ld_lastBitrateChange := now, ld_lastLossLowTime := 0\<rparr>,
               [RateCtl (BuildChangeBitrate (full_rate l)), RatePeer (full_rate l)]))"
      using False le stamp(1) by (simp add: adjust_def Let_def target)
    moreover have "now - t0 < 30 * second"
      if "time_sub now (ld_lastLossLowTime ?q) < bitrateRecoveryStale"
      using that stamp(2) by (simp add: bitrateRecoveryStale_def time_sub_less_iff)
    ultimately show ?thesis using le full stamp by (auto simp: full_rate_def)
  qed
qed

definition quiet :: "rate_event \<Rightarrow> bool" where
  "quiet e = (case e of Status dat \<Rightarrow> f64_less (getFloat64 dat ''lossRate'') (Fin 2) | _ \<Rightarrow> False)"

lemma ladder_ok_step: "quiet e \<Longrightarrow> ladder_ok (fst (rate_step e now l)) = ladder_ok l"
  by (cases e) (simp_all add: quiet_def maybeAdjustBitrate_def)

lemma quiet_run:
  assumes "ladder_ok l" "0 < t0" "list_all (\<lambda>(t, e). 0 < t \<and> quiet e) es"
    and "0 < ld_lastBitrate l" "ld_lastBitrate l \<le> full_rate l"
    and "ld_lastBitrate l = full_rate l \<or> ld_lastLossLowTime l \<noteq> 0 \<and> ld_lastLossLowTime l \<le> t0"
  shows "ld_lastBitrate (rate_run l es) = full_rate l
    \<or> es = [] \<or> fst (last es) - t0 < 30 * second"
  using assms
proof (induction es arbitrary: l)
  case (Cons te es)
  obtain t dat where te: "te = (t, Status dat)" "0 < t" "f64_less (getFloat64 dat ''lossRate'') (Fin 2)"
    using Cons.prems(3) by (cases te; cases "snd te") (auto simp: quiet_def)
  define l' where "l' = fst (maybeAdjustBitrate dat t l)"
  note step = adjust_quiet_step [OF Cons.prems(1) te(3,2) \<open>0 < t0\<close> Cons.prems(4,5),
      folded maybeAdjustBitrate_def, unfolded Let_def]
  have l': "full_rate l' = full_rate l" "0 < ld_lastBitrate l'" "ld_lastBitrate l' \<le> full_rate l"
      "ld_lastBitrate l' = full_rate l
       \<or> ld_lastLossLowTime l' \<noteq> 0 \<and> ld_lastLossLowTime l' \<le> t0 \<and> t - t0 < 30 * second"
    using step Cons.prems(6) by (auto simp: l'_def)
  have ok: "ladder_ok l'" using ladder_ok_step [of "Status dat" t l] Cons.prems(1) te(3)
    by (simp add: l'_def quiet_def)
  have "ld_lastBitrate (rate_run l' es) = full_rate l' \<or> es = [] \<or> fst (last es) - t0 < 30 * second"
    using Cons.IH [of l'] ok Cons.prems l' by auto
  then show ?case using l' by (auto simp: te l'_def [symmetric])
qed simp

text \<open>
  The ladder recovers: once the network is quiet, the first report after 30 s brings the encoder
  back to the user's tier (or to the floor, when the tier lies below it), in one step and however
  far it was lowered.
\<close>

theorem ladder_recovers:
  assumes "ladder_ok l" "0 < ld_lastBitrate l" "ld_lastBitrate l \<le> full_rate l"
    and "ld_lastLossLowTime l \<le> t0" "0 < t0"
    and "list_all (\<lambda>(t, e). 0 < t \<and> quiet e) ((t0, e0) # es @ [(t1, e1)])"
    and "30 * second \<le> t1 - t0"
  shows "ld_lastBitrate (rate_run l ((t0, e0) # es @ [(t1, e1)])) = full_rate l"
proof -
  obtain dat where e0: "e0 = Status dat" "f64_less (getFloat64 dat ''lossRate'') (Fin 2)"
    using assms(6) by (cases e0) (auto simp: quiet_def)
  define l' where "l' = fst (maybeAdjustBitrate dat t0 l)"
  note step = adjust_quiet_step [OF assms(1) e0(2) \<open>0 < t0\<close> \<open>0 < t0\<close> assms(2,3),
      folded maybeAdjustBitrate_def, unfolded Let_def]
  have l': "full_rate l' = full_rate l" "0 < ld_lastBitrate l'" "ld_lastBitrate l' \<le> full_rate l'"
      "ld_lastBitrate l' = full_rate l' \<or> ld_lastLossLowTime l' \<noteq> 0 \<and> ld_lastLossLowTime l' \<le> t0"
    using step assms(4) by (auto simp: l'_def)
  have "ladder_ok l'"
    using ladder_ok_step [of "Status dat" t0 l] assms(1) e0(2) by (simp add: l'_def quiet_def)
  from quiet_run [OF this \<open>0 < t0\<close> _ l'(2-4), of "es @ [(t1, e1)]"] assms(6,7)
  show ?thesis by (auto simp: l' e0 l'_def [symmetric])
qed

theorem ladder_recovers_witness:
  "let l = rate_run (new_ladder 0 demo_cfg) [(100 * second, loss 12)]
   in ld_lastBitrate l = 2000000
      \<and> ld_lastBitrate (rate_run l ((200 * second, loss 0) # [] @ [(230 * second, loss 1)])) = 8000000"
proof -
  define l where "l = rate_run (new_ladder 0 demo_cfg) [(100 * second, loss 12)]"
  have l: "ladder_ok l" "ld_lastBitrate l = 2000000" "ld_lastLossLowTime l = 0" "full_rate l = 8000000"
    by (simp_all add: l_def ladder_ok_def full_rate_def demo_rates)
  have "ld_lastBitrate (rate_run l ((200 * second, loss 0) # [] @ [(230 * second, loss 1)])) = full_rate l"
    by (rule ladder_recovers) (simp_all add: l quiet_def loss_def getFloat64_def json_get_def)
  with l show ?thesis by (simp add: Let_def l_def)
qed

end
