(* ===== verification/SessionCtx.thy ===== *)
theory SessionCtx
  imports Bitrate
begin

text \<open>
  The session context of \<open>agent/controller.go\<close>: everything the agent keeps for one browser
  connection, and the goroutines that work on it.  The context's own goroutine handles the queued
  messages one by one (\<open>run\<close>); the scrcpy session is acquired by a second one
  (\<open>prepareSession\<close>), and every time a peer connects a third one waits for that session and starts
  the media (\<open>SetOnConnected\<close>).

  \<open>sx_step\<close> is the interleaving of these goroutines and of the calls from outside.  A step is the
  code between two points where the goroutine blocks or takes the lock.  WebRTC (\<open>NewPeerManager\<close>,
  \<open>HandleOffer\<close>) and \<open>Manager.Acquire\<close> may succeed or fail in any step; the configuration that a
  step reads may be any.  Peers are numbered; each has its own \<open>sessionReady\<close> channel, so the number
  names the channel too.  What the context does to the rest of the agent is appended to \<open>sx_log\<close>.
  The debug hooks are \<open>nil\<close>.
\<close>

section \<open>State\<close>

datatype sx_out =
    ToWs WsMsg
  | NewPeer nat "string list" "TurnServerConfig option" string string bool
  | ClosePeer nat
  | AddCandidate nat IceCandidate
  | PeerBitrate nat int
  | FECAutoDisabled nat bool
  | FramesDecoded nat u32
  | PeerQoS nat f64 f64
  | Ctl nat bytes
  | StoreQuality int
  | QoSHook f64 f64 int
  | DeviceBusy
  | GotSession nat
  | StartForwarding nat
  | Unpause nat
  | StartPumps nat nat
  | StreamDeadHook
  | MgrRelease
  | SessionRelease nat
  | ReleaseDeferred duration

text \<open>
  Where \<open>prepareSession\<close> stands: not started, in \<open>Acquire\<close>, waiting for the profile of the session
  it acquired (it has read which channel to close), or returned.
\<close>

datatype prepare = PrepIdle | PrepAcquiring | PrepProbing "nat option" | PrepDone

record sctx =
  sx_id :: string
  sx_stopped :: bool
  sx_done :: bool
  sx_preempted :: bool
  sx_queue :: "WsMsg list"
  sx_peer :: "nat option"
  sx_peers :: nat
  sx_session :: "nat option"
  sx_ready :: "nat option"
  sx_closed :: "nat list"
  sx_once :: bool
  sx_prepare :: prepare
  sx_waiters :: "(nat \<times> nat option) list"
  sx_pending :: "IceCandidate list"
  sx_STUN :: "string list"
  sx_TURN :: "TurnServerConfig option"
  sx_ladder :: ladder
  sx_log :: "sx_out list"

definition eventQueueSize :: nat where "eventQueueSize = 32"

text \<open>\<open>newSessionCtx\<close>: \<open>quality\<close>, \<open>stun\<close> and \<open>turn\<close> are the controller's.\<close>

definition newSessionCtx ::
  "int \<Rightarrow> AgentConfig \<Rightarrow> string list \<Rightarrow> TurnServerConfig option \<Rightarrow> string \<Rightarrow> sctx" where
  "newSessionCtx quality cfg stun turn i =
     \<lparr>sx_id = i, sx_stopped = False, sx_done = False, sx_preempted = False, sx_queue = [],
      sx_peer = None, sx_peers = 0, sx_session = None, sx_ready = None, sx_closed = [],
      sx_once = False, sx_prepare = PrepIdle, sx_waiters = [], sx_pending = [], sx_STUN = stun,
      sx_TURN = turn, sx_ladder = new_ladder quality cfg, sx_log = []\<rparr>"

section \<open>Operations\<close>

definition out :: "sx_out list \<Rightarrow> sctx \<Rightarrow> sctx" where
  "out os s = s\<lparr>sx_log := sx_log s @ os\<rparr>"

definition sendCtrl :: "bytes \<Rightarrow> sctx \<Rightarrow> sctx" where
  "sendCtrl b s = (case sx_session s of None \<Rightarrow> s | Some x \<Rightarrow> out [Ctl x b] s)"

text \<open>A non-blocking send to the event queue (\<open>routeToSession\<close>, \<open>SetQuality\<close>, \<open>set_quality\<close>).\<close>

definition enqueue :: "WsMsg \<Rightarrow> sctx \<Rightarrow> sctx" where
  "enqueue msg s =
     (if length (sx_queue s) < eventQueueSize then s\<lparr>sx_queue := sx_queue s @ [msg]\<rparr> else s)"

definition set_quality_msg :: "string \<Rightarrow> WsMsg" where
  "set_quality_msg level = (msg_of_type ''set_quality'')\<lparr>ws_Data := Some [(''level'', JStr level)]\<rparr>"

definition releasePeer :: "sctx \<Rightarrow> sctx" where
  "releasePeer s =
     (case sx_peer s of None \<Rightarrow> s | Some p \<Rightarrow> out [ClosePeer p] (s\<lparr>sx_peer := None\<rparr>))"

text \<open>What the bitrate functions ask for.\<close>

definition rate_out :: "rate_out \<Rightarrow> sctx \<Rightarrow> sctx" where
  "rate_out r s =
     (case r of
        RateCtl b \<Rightarrow> sendCtrl b s
      | RatePeer n \<Rightarrow> (case sx_peer s of None \<Rightarrow> s | Some p \<Rightarrow> out [PeerBitrate p n] s))"

definition session_applyQuality :: "AgentConfig \<Rightarrow> string \<Rightarrow> time \<Rightarrow> sctx \<Rightarrow> sctx" where
  "session_applyQuality cfg level now s =
     (let (q, l, os) = applyQuality cfg level now (sx_ladder s)
      in fold rate_out os (out [StoreQuality q] (s\<lparr>sx_ladder := l\<rparr>)))"

definition session_adjust :: "json_map option \<Rightarrow> time \<Rightarrow> sctx \<Rightarrow> sctx" where
  "session_adjust dat now s =
     (case sx_session s of
        None \<Rightarrow> s
      | Some _ \<Rightarrow>
          let s1 = out [QoSHook (getFloat64 dat ''lossRate'') (getFloat64 dat ''rttMs'')
                          (ld_lastBitrate (sx_ladder s))] s;
              (l, os) = maybeAdjustBitrate dat now (sx_ladder s)
          in fold rate_out os (s1\<lparr>sx_ladder := l\<rparr>))"

text \<open>
  \<open>handleOffer\<close>: \<open>new_err\<close> is the error of \<open>NewPeerManager\<close>, \<open>answer\<close> the outcome of the peer's
  \<open>HandleOffer\<close>.  The result is the returned error and the state.
\<close>

definition offer_ladder :: "AgentConfig \<Rightarrow> ladder \<Rightarrow> ladder" where
  "offer_ladder cfg l =
     (if ld_initialBitrate l = 0 then
        l\<lparr>ld_initialBitrate := sc_VideoBitRate (ac_Scrcpy cfg),
          ld_lastBitrate := sc_VideoBitRate (ac_Scrcpy cfg)\<rparr>
      else l)"

definition handleOffer ::
  "AgentConfig \<Rightarrow> string option \<Rightarrow> string + SessionDesc \<Rightarrow> WsMsg \<Rightarrow> sctx \<Rightarrow> string option \<times> sctx" where
  "handleOffer cfg new_err answer msg s =
     (case ws_Offer msg of
        None \<Rightarrow> (Some ''missing offer'', s)
      | Some _ \<Rightarrow>
          let s0 = releasePeer s;
              s1 = s0\<lparr>sx_ladder := offer_ladder cfg (sx_ladder s0)\<rparr>;
              scfg = ac_Scrcpy cfg;
              stun = (if sx_STUN s1 = [] then ac_STUNServers cfg else sx_STUN s1);
              turn = (if sx_TURN s1 = None then ac_TURNServer cfg else sx_TURN s1);
              p = sx_peers s1
          in case new_err of
               Some e \<Rightarrow> (Some (''create peer manager: '' @ e), s1)
             | None \<Rightarrow>
                 let s2 = out [NewPeer p stun turn (sc_VideoCodec scfg) (sc_AudioCodec scfg)
                                 (sc_AudioEnabled scfg),
                               PeerBitrate p (ld_initialBitrate (sx_ladder s1)),
                               FECAutoDisabled p (sc_FECDisabled scfg)]
                            (s1\<lparr>sx_peer := Some p, sx_peers := Suc p, sx_ready := Some p\<rparr>)
                 in case answer of
                      Inl e \<Rightarrow> (Some (''SDP negotiation failed: '' @ e), s2)
                    | Inr a \<Rightarrow>
                        let s3 = out (map (AddCandidate p) (sx_pending s2)) s2;
                            s4 = out [ToWs ((msg_of_type TypeAnswer)
                                        \<lparr>ws_Answer := Some a, ws_SessionID := sx_id s\<rparr>)]
                                   (s3\<lparr>sx_pending := []\<rparr>)
                        in (None, if sx_once s4 then s4
                                  else s4\<lparr>sx_once := True, sx_prepare := PrepAcquiring\<rparr>))"

definition error_msg :: "string \<Rightarrow> sctx \<Rightarrow> WsMsg" where
  "error_msg e s =
     (msg_of_type TypeError)\<lparr>ws_PCID := e, ws_Message := e, ws_SessionID := sx_id s\<rparr>"

definition handleCandidate :: "WsMsg \<Rightarrow> sctx \<Rightarrow> sctx" where
  "handleCandidate msg s =
     (case ws_Candidate msg of
        None \<Rightarrow> s
      | Some c \<Rightarrow>
          (case sx_peer s of
             None \<Rightarrow> s\<lparr>sx_pending := sx_pending s @ [c]\<rparr>
           | Some p \<Rightarrow> out [AddCandidate p c] s))"

definition handleStats :: "conv \<Rightarrow> WsMsg \<Rightarrow> sctx \<Rightarrow> sctx" where
  "handleStats cv msg s =
     (case (ws_Data msg, sx_peer s) of
        (Some dat, Some p) \<Rightarrow>
          (case json_get dat ''framesDecoded'' of
             None \<Rightarrow> s
           | Some fd \<Rightarrow>
               (case toUint32 cv fd of None \<Rightarrow> s | Some n \<Rightarrow> out [FramesDecoded p n] s))
      | _ \<Rightarrow> s)"

definition handleStatus :: "WsMsg \<Rightarrow> time \<Rightarrow> sctx \<Rightarrow> sctx" where
  "handleStatus msg now s =
     (let dat = ws_Data msg;
          s1 = (case sx_peer s of
                  None \<Rightarrow> s
                | Some p \<Rightarrow>
                    out [PeerQoS p (getFloat64 dat ''lossRate'') (getFloat64 dat ''rttMs'')] s)
      in session_adjust dat now s1)"

text \<open>The outcomes of WebRTC for one message.\<close>

record outcome =
  oc_new_err :: "string option"
  oc_answer :: "string + SessionDesc"

text \<open>One turn of the loop of \<open>run\<close> with a message.\<close>

definition handle_msg ::
  "conv \<Rightarrow> AgentConfig \<Rightarrow> outcome \<Rightarrow> time \<Rightarrow> WsMsg \<Rightarrow> sctx \<Rightarrow> sctx" where
  "handle_msg cv cfg oc now msg s =
     (let t = ws_Type msg
      in if t = TypeOffer then
           (case handleOffer cfg (oc_new_err oc) (oc_answer oc) msg s of
              (None, s') \<Rightarrow> s'
            | (Some e, s') \<Rightarrow> out [ToWs (error_msg e s')] s')
         else if t = TypeIceCandidate then handleCandidate msg s
         else if t = TypeFirstFrame then s
         else if t = TypeDecoderStats then handleStats cv msg s
         else if t = TypeDecoderStatus then handleStatus msg now s
         else if t = TypeResetVideo then sendCtrl BuildResetVideo s
         else if t = ''set_quality'' then
           session_applyQuality cfg (getString (ws_Data msg) ''level'') now s
         else s)"

text \<open>\<open>cleanup\<close>, with the drain of the event queue.\<close>

definition warm_keep :: "AgentConfig \<Rightarrow> duration" where
  "warm_keep cfg =
     (let d = wrap64 (sc_WarmKeepSeconds (ac_Scrcpy cfg) * second)
      in if d \<le> 0 then 5 * 60 * second else d)"

definition cleanup :: "AgentConfig \<Rightarrow> sctx \<Rightarrow> sctx" where
  "cleanup cfg s =
     (let s1 = releasePeer s;
          s2 = (case sx_session s1 of
                  None \<Rightarrow> s1
                | Some _ \<Rightarrow> out [ReleaseDeferred (warm_keep cfg)] (s1\<lparr>sx_session := None\<rparr>))
      in s2\<lparr>sx_queue := []\<rparr>)"

text \<open>The control messages of the data channel and of the platform (\<open>dispatchControl\<close>).\<close>

definition control :: "conv \<Rightarrow> string \<Rightarrow> json_map option \<Rightarrow> sctx \<Rightarrow> sctx" where
  "control cv msgType ctrl s =
     (case dispatchControl cv msgType ctrl of
        Send b \<Rightarrow> sendCtrl b s
      | Quality level \<Rightarrow> enqueue (set_quality_msg level) s
      | Unknown \<Rightarrow> s)"

text \<open>The callback of a connected peer, and what its goroutine does once the session is ready.\<close>

definition onConnected :: "nat \<Rightarrow> sctx \<Rightarrow> sctx" where
  "onConnected p s = out [DeviceBusy] (s\<lparr>sx_waiters := sx_waiters s @ [(p, sx_ready s)]\<rparr>)"

definition start_media :: "nat \<Rightarrow> sctx \<Rightarrow> sctx" where
  "start_media p s =
     (case sx_session s of
        None \<Rightarrow> s
      | Some x \<Rightarrow>
          out ([Ctl x BuildStartAudio]
               @ (if ld_lastBitrate (sx_ladder s) > 0
                  then [Ctl x (BuildChangeBitrate (ld_lastBitrate (sx_ladder s)))] else [])
               @ [Ctl x BuildRequestKeyframe, Unpause x, StartPumps p x]) s)"

text \<open>\<open>prepareSession\<close>, up to \<open>WaitProfileLevelID\<close> and from there to its end.\<close>

definition acquired :: "string + nat \<Rightarrow> sctx \<Rightarrow> sctx" where
  "acquired result s =
     (case result of
        Inl e \<Rightarrow> out [ToWs (error_msg (''acquire session: '' @ e) s)] (s\<lparr>sx_prepare := PrepDone\<rparr>)
      | Inr x \<Rightarrow>
          if sx_stopped s then
            out [GotSession x, MgrRelease, SessionRelease x] (s\<lparr>sx_prepare := PrepDone\<rparr>)
          else out [GotSession x, StartForwarding x]
                 (s\<lparr>sx_session := Some x, sx_prepare := PrepProbing (sx_ready s)\<rparr>))"

definition probed :: "nat option \<Rightarrow> sctx \<Rightarrow> sctx" where
  "probed ready s =
     (if sx_stopped s then s\<lparr>sx_prepare := PrepDone\<rparr>
      else case ready of
          None \<Rightarrow> s\<lparr>sx_prepare := PrepDone\<rparr>
        | Some c \<Rightarrow> s\<lparr>sx_prepare := PrepDone, sx_closed := sx_closed s @ [c]\<rparr>)"

text \<open>\<open>watchSessionDeath\<close> after the session died.\<close>

definition session_died :: "sctx \<Rightarrow> sctx" where
  "session_died s =
     (if sx_stopped s then s
      else out [ToWs ((msg_of_type TypeStreamDead)\<lparr>ws_SessionID := sx_id s\<rparr>), StreamDeadHook] s)"

section \<open>Interleavings\<close>

inductive sx_step :: "sctx \<Rightarrow> sctx \<Rightarrow> bool" where
  step_enqueue: "sx_step s (enqueue msg s)"
| step_msg: "\<not> sx_done s \<Longrightarrow> sx_queue s = msg # ms \<Longrightarrow>
    sx_step s (handle_msg cv cfg oc now msg (s\<lparr>sx_queue := ms\<rparr>))"
| step_stop: "sx_step s (s\<lparr>sx_stopped := True\<rparr>)"
| step_cleanup: "sx_stopped s \<Longrightarrow> \<not> sx_done s \<Longrightarrow> sx_step s ((cleanup cfg s)\<lparr>sx_done := True\<rparr>)"
| step_control: "sx_step s (control cv msgType ctrl s)"
| step_keyframe: "b \<in> {BuildRequestKeyframe, BuildResetVideo} \<Longrightarrow> sx_step s (sendCtrl b s)"
| step_candidate: "sx_step s (out [ToWs ((msg_of_type TypeIceCandidate)
      \<lparr>ws_Candidate := Some c, ws_SessionID := sx_id s\<rparr>)] s)"
| step_connected: "p < sx_peers s \<Longrightarrow> sx_step s (onConnected p s)"
| step_media: "sx_waiters s = ws @ (p, Some c) # ws' \<Longrightarrow> c \<in> set (sx_closed s) \<Longrightarrow>
    sx_step s (start_media p (s\<lparr>sx_waiters := ws @ ws'\<rparr>))"
| step_unwait: "sx_waiters s = ws @ w # ws' \<Longrightarrow> sx_stopped s \<Longrightarrow>
    sx_step s (s\<lparr>sx_waiters := ws @ ws'\<rparr>)"
| step_acquired: "sx_prepare s = PrepAcquiring \<Longrightarrow> sx_step s (acquired result s)"
| step_probed: "sx_prepare s = PrepProbing ready \<Longrightarrow> sx_step s (probed ready s)"
| step_died: "sx_session s = Some x \<Longrightarrow> sx_step s (session_died s)"
| step_preempt: "sx_step s (s\<lparr>sx_preempted := True\<rparr>)"

inductive sx_run :: "sctx \<Rightarrow> sctx \<Rightarrow> bool" where
  run_refl: "sx_run s s"
| run_step: "sx_run s t \<Longrightarrow> sx_step t u \<Longrightarrow> sx_run s u"

lemma sx_waiters_upd: "sx_waiters (s\<lparr>sx_waiters := ws\<rparr>) = ws"
  by simp

lemma sx_run_inv:
  assumes "sx_run s t" "I s" and step: "\<And>t u. I t \<Longrightarrow> sx_step t u \<Longrightarrow> I u"
  shows "I t"
  using assms(1,2) by (induction rule: sx_run.induct) (auto intro: step)

section \<open>What an operation leaves alone\<close>

text \<open>Everything but the ladder and the log.\<close>

definition core :: "sctx \<Rightarrow> sctx" where
  "core s = s\<lparr>sx_log := [], sx_ladder := new_ladder 0 zero_AgentConfig\<rparr>"

lemma core_fields:
  assumes "core s = core t"
  shows "sx_id s = sx_id t" "sx_stopped s = sx_stopped t" "sx_done s = sx_done t"
    "sx_queue s = sx_queue t" "sx_peer s = sx_peer t" "sx_peers s = sx_peers t"
    "sx_session s = sx_session t" "sx_ready s = sx_ready t" "sx_closed s = sx_closed t"
    "sx_once s = sx_once t" "sx_prepare s = sx_prepare t" "sx_waiters s = sx_waiters t"
    "sx_pending s = sx_pending t" "sx_preempted s = sx_preempted t"
  using assms by (cases s, cases t, simp add: core_def)+

lemma core_out [simp]: "core (out os s) = core s"
  by (simp add: core_def out_def)

lemma core_sendCtrl [simp]: "core (sendCtrl b s) = core s"
  by (simp add: sendCtrl_def split: option.splits)

lemma core_rate_out [simp]: "core (rate_out r s) = core s"
  by (simp add: rate_out_def split: rate_out.splits option.splits)

lemma core_rate_outs [simp]: "core (fold rate_out os s) = core s"
  by (induction os arbitrary: s) simp_all

lemma core_ladder [simp]: "core (s\<lparr>sx_ladder := l\<rparr>) = core s"
  by (simp add: core_def)

lemma core_applyQuality [simp]: "core (session_applyQuality cfg level now s) = core s"
  by (simp add: session_applyQuality_def split: prod.splits)

lemma core_adjust [simp]: "core (session_adjust dat now s) = core s"
  by (simp add: session_adjust_def Let_def split: prod.splits option.splits)

lemma core_handleStats [simp]: "core (handleStats cv msg s) = core s"
  by (simp add: handleStats_def split: option.splits)

lemma core_handleStatus [simp]: "core (handleStatus msg now s) = core s"
  by (simp add: handleStatus_def Let_def split: option.splits)

lemma core_start_media [simp]: "core (start_media p s) = core s"
  by (simp add: start_media_def split: option.splits)

lemma core_session_died [simp]: "core (session_died s) = core s"
  by (simp add: session_died_def)

lemmas out_fields [simp] = core_fields [OF core_out]
lemmas sendCtrl_fields [simp] = core_fields [OF core_sendCtrl]
lemmas applyQuality_fields [simp] = core_fields [OF core_applyQuality]
lemmas adjust_fields' [simp] = core_fields [OF core_adjust]
lemmas handleStats_fields [simp] = core_fields [OF core_handleStats]
lemmas handleStatus_fields [simp] = core_fields [OF core_handleStatus]
lemmas start_media_fields [simp] = core_fields [OF core_start_media]
lemmas session_died_fields [simp] = core_fields [OF core_session_died]

lemma releasePeer_fields [simp]:
  "sx_peer (releasePeer s) = None" "sx_peers (releasePeer s) = sx_peers s"
  "sx_stopped (releasePeer s) = sx_stopped s" "sx_done (releasePeer s) = sx_done s"
  "sx_queue (releasePeer s) = sx_queue s" "sx_session (releasePeer s) = sx_session s"
  "sx_ready (releasePeer s) = sx_ready s" "sx_closed (releasePeer s) = sx_closed s"
  "sx_once (releasePeer s) = sx_once s" "sx_prepare (releasePeer s) = sx_prepare s"
  "sx_waiters (releasePeer s) = sx_waiters s" "sx_pending (releasePeer s) = sx_pending s"
  "sx_id (releasePeer s) = sx_id s"
  by (simp_all add: releasePeer_def split: option.splits)

text \<open>What the handling of a message can do to the peers, the channels and the preparation.\<close>

lemma handleOffer_cases:
  obtains (fail) e where "fst (handleOffer cfg ne an msg s) = Some e"
      "sx_ready (snd (handleOffer cfg ne an msg s)) = sx_ready s"
      "sx_peers (snd (handleOffer cfg ne an msg s)) = sx_peers s"
      "sx_once (snd (handleOffer cfg ne an msg s)) = sx_once s"
      "sx_prepare (snd (handleOffer cfg ne an msg s)) = sx_prepare s"
      "sx_peer (snd (handleOffer cfg ne an msg s)) \<in> {None, sx_peer s}"
  | (refused) e where "fst (handleOffer cfg ne an msg s) = Some e"
      "sx_ready (snd (handleOffer cfg ne an msg s)) = Some (sx_peers s)"
      "sx_peers (snd (handleOffer cfg ne an msg s)) = Suc (sx_peers s)"
      "sx_once (snd (handleOffer cfg ne an msg s)) = sx_once s"
      "sx_prepare (snd (handleOffer cfg ne an msg s)) = sx_prepare s"
      "sx_peer (snd (handleOffer cfg ne an msg s)) = Some (sx_peers s)"
  | (ok) "fst (handleOffer cfg ne an msg s) = None"
      "sx_ready (snd (handleOffer cfg ne an msg s)) = Some (sx_peers s)"
      "sx_peers (snd (handleOffer cfg ne an msg s)) = Suc (sx_peers s)"
      "sx_once (snd (handleOffer cfg ne an msg s))"
      "sx_prepare (snd (handleOffer cfg ne an msg s)) = (if sx_once s then sx_prepare s else PrepAcquiring)"
      "sx_peer (snd (handleOffer cfg ne an msg s)) = Some (sx_peers s)"
proof (cases "ws_Offer msg = None \<or> ne \<noteq> None")
  case True
  show thesis
    by (rule fail [of "if ws_Offer msg = None then ''missing offer'' else ''create peer manager: '' @ the ne"])
      (use True in \<open>auto simp: handleOffer_def Let_def split: option.splits\<close>)
next
  case False
  show thesis
  proof (cases an)
    case (Inl e)
    show thesis
      by (rule refused [of "''SDP negotiation failed: '' @ e"])
        (use False Inl in \<open>auto simp: handleOffer_def Let_def\<close>)
  next
    case (Inr a)
    show thesis
      by (rule ok) (use False Inr in \<open>auto simp: handleOffer_def Let_def\<close>)
  qed
qed

lemma handleOffer_fields [simp]:
  "sx_stopped (snd (handleOffer cfg ne an msg s)) = sx_stopped s"
  "sx_done (snd (handleOffer cfg ne an msg s)) = sx_done s"
  "sx_queue (snd (handleOffer cfg ne an msg s)) = sx_queue s"
  "sx_session (snd (handleOffer cfg ne an msg s)) = sx_session s"
  "sx_closed (snd (handleOffer cfg ne an msg s)) = sx_closed s"
  "sx_waiters (snd (handleOffer cfg ne an msg s)) = sx_waiters s"
  by (simp_all add: handleOffer_def Let_def split: option.splits sum.splits)

lemma handleCandidate_fields [simp]:
  "sx_stopped (handleCandidate msg s) = sx_stopped s" "sx_done (handleCandidate msg s) = sx_done s"
  "sx_queue (handleCandidate msg s) = sx_queue s" "sx_session (handleCandidate msg s) = sx_session s"
  "sx_closed (handleCandidate msg s) = sx_closed s" "sx_waiters (handleCandidate msg s) = sx_waiters s"
  "sx_peer (handleCandidate msg s) = sx_peer s" "sx_peers (handleCandidate msg s) = sx_peers s"
  "sx_ready (handleCandidate msg s) = sx_ready s" "sx_once (handleCandidate msg s) = sx_once s"
  "sx_prepare (handleCandidate msg s) = sx_prepare s"
  by (simp_all add: handleCandidate_def split: option.splits)

lemma handle_msg_fields [simp]:
  "sx_stopped (handle_msg cv cfg oc now msg s) = sx_stopped s"
  "sx_done (handle_msg cv cfg oc now msg s) = sx_done s"
  "sx_queue (handle_msg cv cfg oc now msg s) = sx_queue s"
  "sx_session (handle_msg cv cfg oc now msg s) = sx_session s"
  "sx_closed (handle_msg cv cfg oc now msg s) = sx_closed s"
  "sx_waiters (handle_msg cv cfg oc now msg s) = sx_waiters s"
proof -
  obtain r s' where o: "handleOffer cfg (oc_new_err oc) (oc_answer oc) msg s = (r, s')"
    by (cases "handleOffer cfg (oc_new_err oc) (oc_answer oc) msg s")
  note f = handleOffer_fields [of cfg "oc_new_err oc" "oc_answer oc" msg s, unfolded o snd_conv]
  note d = handle_msg_def [of cv cfg oc now msg s, unfolded Let_def o prod.case]
  show "sx_stopped (handle_msg cv cfg oc now msg s) = sx_stopped s"
    "sx_done (handle_msg cv cfg oc now msg s) = sx_done s"
    "sx_queue (handle_msg cv cfg oc now msg s) = sx_queue s"
    "sx_session (handle_msg cv cfg oc now msg s) = sx_session s"
    "sx_closed (handle_msg cv cfg oc now msg s) = sx_closed s"
    "sx_waiters (handle_msg cv cfg oc now msg s) = sx_waiters s"
    unfolding d by (simp_all add: f split: option.split)
qed

lemma handle_msg_cases:
  obtains (same) "sx_ready (handle_msg cv cfg oc now msg s) = sx_ready s"
      "sx_peers (handle_msg cv cfg oc now msg s) = sx_peers s"
      "sx_once (handle_msg cv cfg oc now msg s) = sx_once s"
      "sx_prepare (handle_msg cv cfg oc now msg s) = sx_prepare s"
      "sx_peer (handle_msg cv cfg oc now msg s) \<in> {None, sx_peer s}"
  | (peer) "sx_ready (handle_msg cv cfg oc now msg s) = Some (sx_peers s)"
      "sx_peers (handle_msg cv cfg oc now msg s) = Suc (sx_peers s)"
      "sx_once (handle_msg cv cfg oc now msg s) = sx_once s
         \<and> sx_prepare (handle_msg cv cfg oc now msg s) = sx_prepare s
       \<or> sx_once (handle_msg cv cfg oc now msg s)
         \<and> sx_prepare (handle_msg cv cfg oc now msg s) =
             (if sx_once s then sx_prepare s else PrepAcquiring)"
      "sx_peer (handle_msg cv cfg oc now msg s) = Some (sx_peers s)"
proof (cases "ws_Type msg = TypeOffer")
  case False
  show thesis
    by (rule same) (use False in \<open>auto simp: handle_msg_def Let_def\<close>)
next
  case True
  obtain r s' where o: "handleOffer cfg (oc_new_err oc) (oc_answer oc) msg s = (r, s')"
    by (cases "handleOffer cfg (oc_new_err oc) (oc_answer oc) msg s")
  have "handle_msg cv cfg oc now msg s = (case r of None \<Rightarrow> s' | Some e \<Rightarrow> out [ToWs (error_msg e s')] s')"
    using True o by (simp add: handle_msg_def)
  then have f: "sx_ready (handle_msg cv cfg oc now msg s) = sx_ready s'"
      "sx_peers (handle_msg cv cfg oc now msg s) = sx_peers s'"
      "sx_once (handle_msg cv cfg oc now msg s) = sx_once s'"
      "sx_prepare (handle_msg cv cfg oc now msg s) = sx_prepare s'"
      "sx_peer (handle_msg cv cfg oc now msg s) = sx_peer s'"
    by (auto split: option.splits)
  show thesis
  proof (cases cfg "oc_new_err oc" "oc_answer oc" msg s rule: handleOffer_cases)
    case fail then show thesis using o by (intro same) (auto simp: f)
  next
    case refused then show thesis using o by (intro peer) (auto simp: f)
  next
    case ok then show thesis using o by (intro peer) (auto simp: f)
  qed
qed

lemma onConnected_fields [simp]:
  "sx_waiters (onConnected p s) = sx_waiters s @ [(p, sx_ready s)]"
  "sx_peers (onConnected p s) = sx_peers s" "sx_ready (onConnected p s) = sx_ready s"
  "sx_closed (onConnected p s) = sx_closed s" "sx_once (onConnected p s) = sx_once s"
  "sx_prepare (onConnected p s) = sx_prepare s" "sx_session (onConnected p s) = sx_session s"
  "sx_stopped (onConnected p s) = sx_stopped s" "sx_done (onConnected p s) = sx_done s"
  "sx_queue (onConnected p s) = sx_queue s" "sx_peer (onConnected p s) = sx_peer s"
  by (simp_all add: onConnected_def)

lemma cleanup_fields [simp]:
  "sx_waiters (cleanup cfg s) = sx_waiters s" "sx_peers (cleanup cfg s) = sx_peers s"
  "sx_ready (cleanup cfg s) = sx_ready s" "sx_closed (cleanup cfg s) = sx_closed s"
  "sx_once (cleanup cfg s) = sx_once s" "sx_prepare (cleanup cfg s) = sx_prepare s"
  "sx_session (cleanup cfg s) = None" "sx_stopped (cleanup cfg s) = sx_stopped s"
  "sx_queue (cleanup cfg s) = []" "sx_peer (cleanup cfg s) = None"
  by (simp_all add: cleanup_def Let_def split: option.splits)

lemma acquired_fields [simp]:
  "sx_waiters (acquired r s) = sx_waiters s" "sx_peers (acquired r s) = sx_peers s"
  "sx_ready (acquired r s) = sx_ready s" "sx_closed (acquired r s) = sx_closed s"
  "sx_once (acquired r s) = sx_once s" "sx_stopped (acquired r s) = sx_stopped s"
  "sx_done (acquired r s) = sx_done s" "sx_queue (acquired r s) = sx_queue s"
  "sx_peer (acquired r s) = sx_peer s"
  "sx_prepare (acquired r s) =
     (if isl r \<or> sx_stopped s then PrepDone else PrepProbing (sx_ready s))"
  "sx_session (acquired r s) =
     (if isl r \<or> sx_stopped s then sx_session s else Some (projr r))"
  by (auto simp: acquired_def split: sum.splits)

lemma probed_fields [simp]:
  "sx_waiters (probed r s) = sx_waiters s" "sx_peers (probed r s) = sx_peers s"
  "sx_ready (probed r s) = sx_ready s" "sx_once (probed r s) = sx_once s"
  "sx_prepare (probed r s) = PrepDone" "sx_session (probed r s) = sx_session s"
  "sx_stopped (probed r s) = sx_stopped s" "sx_done (probed r s) = sx_done s"
  "sx_queue (probed r s) = sx_queue s" "sx_peer (probed r s) = sx_peer s"
  "set (sx_closed (probed r s)) =
     set (sx_closed s) \<union> (if sx_stopped s then {} else set_option r)"
  by (auto simp: probed_def split: option.splits)

lemma enqueue_fields [simp]:
  "sx_waiters (enqueue msg s) = sx_waiters s" "sx_peers (enqueue msg s) = sx_peers s"
  "sx_ready (enqueue msg s) = sx_ready s" "sx_closed (enqueue msg s) = sx_closed s"
  "sx_once (enqueue msg s) = sx_once s" "sx_prepare (enqueue msg s) = sx_prepare s"
  "sx_session (enqueue msg s) = sx_session s" "sx_stopped (enqueue msg s) = sx_stopped s"
  "sx_done (enqueue msg s) = sx_done s" "sx_peer (enqueue msg s) = sx_peer s"
  "sx_log (enqueue msg s) = sx_log s"
  by (simp_all add: enqueue_def)

lemma control_fields [simp]:
  "sx_waiters (control cv ty m s) = sx_waiters s" "sx_peers (control cv ty m s) = sx_peers s"
  "sx_ready (control cv ty m s) = sx_ready s" "sx_closed (control cv ty m s) = sx_closed s"
  "sx_once (control cv ty m s) = sx_once s" "sx_prepare (control cv ty m s) = sx_prepare s"
  "sx_session (control cv ty m s) = sx_session s" "sx_stopped (control cv ty m s) = sx_stopped s"
  "sx_done (control cv ty m s) = sx_done s" "sx_peer (control cv ty m s) = sx_peer s"
  by (simp_all add: control_def split: ctl_action.splits)

section \<open>Well-formed contexts\<close>

definition sx_wf :: "sctx \<Rightarrow> bool" where
  "sx_wf s \<longleftrightarrow>
     sx_ready s = (if sx_peers s = 0 then None else Some (sx_peers s - 1))
     \<and> (\<forall>p. sx_peer s = Some p \<longrightarrow> Suc p = sx_peers s)
     \<and> (sx_done s \<longrightarrow> sx_stopped s \<and> sx_session s = None)
     \<and> (sx_prepare s = PrepIdle \<longleftrightarrow> \<not> sx_once s)
     \<and> (sx_once s \<longrightarrow> 0 < sx_peers s)
     \<and> (\<forall>r. sx_prepare s = PrepProbing r \<longrightarrow> (\<exists>c < sx_peers s. r = Some c) \<and> sx_closed s = [])
     \<and> (sx_prepare s \<in> {PrepIdle, PrepAcquiring} \<longrightarrow> sx_session s = None \<and> sx_closed s = [])
     \<and> (\<forall>c\<in>set (sx_closed s). c < sx_peers s)
     \<and> (\<forall>(p, r)\<in>set (sx_waiters s). \<exists>c < sx_peers s. p \<le> c \<and> r = Some c)
     \<and> length (sx_queue s) \<le> eventQueueSize"

lemma sx_wf_new: "sx_wf (newSessionCtx q cfg stun turn i)"
  by (simp add: sx_wf_def newSessionCtx_def)

lemma enqueue_length: "length (sx_queue s) \<le> eventQueueSize \<Longrightarrow>
    length (sx_queue (enqueue msg s)) \<le> eventQueueSize"
  by (simp add: enqueue_def)

lemma control_length: "length (sx_queue s) \<le> eventQueueSize \<Longrightarrow>
    length (sx_queue (control cv ty m s)) \<le> eventQueueSize"
  by (simp add: control_def enqueue_length split: ctl_action.splits)

lemma sx_wf_handle_msg:
  assumes "sx_wf s"
  shows "sx_wf (handle_msg cv cfg oc now msg s)"
proof (cases cv cfg oc now msg s rule: handle_msg_cases)
  case same
  with assms show ?thesis by (auto simp: sx_wf_def)
next
  case peer
  with assms show ?thesis
    by (auto simp: sx_wf_def less_Suc_eq split: if_splits) (fastforce+)?
qed

lemma sx_wf_step:
  assumes "sx_step s t" "sx_wf s"
  shows "sx_wf t"
  using assms
proof (induction rule: sx_step.induct)
  case (step_msg s msg ms cv cfg oc now)
  then have "sx_wf (s\<lparr>sx_queue := ms\<rparr>)" by (auto simp: sx_wf_def)
  then show ?case by (rule sx_wf_handle_msg)
next
  case (step_media s ws p c ws')
  then show ?case by (auto simp: sx_wf_def)
next
  case (step_unwait s ws w ws')
  then show ?case by (auto simp: sx_wf_def)
next
  case (step_acquired s result)
  then show ?case by (cases "sx_stopped s"; cases result) (auto simp: sx_wf_def)
next
  case (step_probed s ready)
  then show ?case by (auto simp: sx_wf_def)
qed (auto simp: sx_wf_def enqueue_length control_length split: if_splits)

section \<open>The log of sessions and media\<close>

text \<open>
  The entries about the scrcpy session and the start of media: only the three operations that deal
  with them add any.
\<close>

fun tracked :: "sx_out \<Rightarrow> bool" where
  "tracked (StartPumps _ _) = True"
| "tracked (GotSession _) = True"
| "tracked MgrRelease = True"
| "tracked (ReleaseDeferred _) = True"
| "tracked _ = False"

definition trk :: "sctx \<Rightarrow> sx_out list" where
  "trk s = filter tracked (sx_log s)"

lemma trk_out [simp]: "trk (out os s) = trk s @ filter tracked os"
  by (simp add: trk_def out_def)

lemma trk_upd [simp]:
  "trk (s\<lparr>sx_ladder := l\<rparr>) = trk s" "trk (s\<lparr>sx_peer := q\<rparr>) = trk s"
  "trk (s\<lparr>sx_queue := ms\<rparr>) = trk s" "trk (s\<lparr>sx_pending := cs\<rparr>) = trk s"
  "trk (s\<lparr>sx_session := x\<rparr>) = trk s" "trk (s\<lparr>sx_prepare := pr\<rparr>) = trk s"
  "trk (s\<lparr>sx_waiters := ws\<rparr>) = trk s" "trk (s\<lparr>sx_stopped := b\<rparr>) = trk s"
  "trk (s\<lparr>sx_done := b\<rparr>) = trk s" "trk (s\<lparr>sx_preempted := b\<rparr>) = trk s"
  "trk (s\<lparr>sx_peers := n\<rparr>) = trk s" "trk (s\<lparr>sx_ready := q\<rparr>) = trk s"
  "trk (s\<lparr>sx_once := b\<rparr>) = trk s" "trk (s\<lparr>sx_closed := ns\<rparr>) = trk s"
  by (simp_all add: trk_def)

lemma trk_sendCtrl [simp]: "trk (sendCtrl b s) = trk s"
  by (simp add: sendCtrl_def split: option.splits)

lemma trk_rate_out [simp]: "trk (rate_out r s) = trk s"
  by (simp add: rate_out_def split: rate_out.splits option.splits)

lemma trk_rate_outs [simp]: "trk (fold rate_out os s) = trk s"
  by (induction os arbitrary: s) simp_all

lemma trk_releasePeer [simp]: "trk (releasePeer s) = trk s"
  by (simp add: releasePeer_def split: option.splits)

lemma trk_applyQuality [simp]: "trk (session_applyQuality cfg level now s) = trk s"
  by (simp add: session_applyQuality_def split: prod.splits)

lemma trk_adjust [simp]: "trk (session_adjust dat now s) = trk s"
  by (simp add: session_adjust_def Let_def split: prod.splits option.splits)

lemma trk_handleStats [simp]: "trk (handleStats cv msg s) = trk s"
  by (simp add: handleStats_def split: option.splits)

lemma trk_handleStatus [simp]: "trk (handleStatus msg now s) = trk s"
  by (simp add: handleStatus_def Let_def split: option.splits)

lemma trk_handleCandidate [simp]: "trk (handleCandidate msg s) = trk s"
  by (simp add: handleCandidate_def split: option.splits)

lemma filter_tracked_map [simp]: "filter tracked (map (AddCandidate p) cs) = []"
  by (induction cs) simp_all

lemma trk_handleOffer [simp]: "trk (snd (handleOffer cfg ne an msg s)) = trk s"
  by (simp add: handleOffer_def Let_def split: option.splits sum.splits)

lemma trk_handle_msg [simp]: "trk (handle_msg cv cfg oc now msg s) = trk s"
proof -
  obtain r s' where o: "handleOffer cfg (oc_new_err oc) (oc_answer oc) msg s = (r, s')"
    by (cases "handleOffer cfg (oc_new_err oc) (oc_answer oc) msg s")
  note f = trk_handleOffer [of cfg "oc_new_err oc" "oc_answer oc" msg s, unfolded o snd_conv]
  show ?thesis
    unfolding handle_msg_def [of cv cfg oc now msg s, unfolded Let_def o prod.case]
    by (simp add: f split: option.split)
qed

lemma trk_enqueue [simp]: "trk (enqueue msg s) = trk s"
  by (simp add: enqueue_def)

lemma trk_control [simp]: "trk (control cv ty m s) = trk s"
  by (simp add: control_def split: ctl_action.splits)

lemma trk_onConnected [simp]: "trk (onConnected p s) = trk s"
  by (simp add: onConnected_def)

lemma trk_session_died [simp]: "trk (session_died s) = trk s"
  by (simp add: session_died_def)

lemma trk_probed [simp]: "trk (probed r s) = trk s"
  by (simp add: probed_def split: option.splits)

lemma trk_start_media [simp]:
  "trk (start_media p s) = trk s @ (case sx_session s of None \<Rightarrow> [] | Some x \<Rightarrow> [StartPumps p x])"
  by (simp add: start_media_def split: option.splits)

lemma trk_cleanup [simp]:
  "trk (cleanup cfg s) =
     trk s @ (case sx_session s of None \<Rightarrow> [] | Some x \<Rightarrow> [ReleaseDeferred (warm_keep cfg)])"
  by (simp add: cleanup_def Let_def split: option.splits)

lemma trk_acquired [simp]:
  "trk (acquired r s) = trk s @
     (case r of Inl e \<Rightarrow> [] | Inr x \<Rightarrow> if sx_stopped s then [GotSession x, MgrRelease] else [GotSession x])"
  by (simp add: acquired_def split: sum.splits)

definition pumped :: "sctx \<Rightarrow> nat set" where
  "pumped s = {p. \<exists>x. StartPumps p x \<in> set (sx_log s)}"

lemma pumped_trk: "pumped s = {p. \<exists>x. StartPumps p x \<in> set (trk s)}"
  by (simp add: pumped_def trk_def)

section \<open>The scrcpy session is handed back\<close>

primrec got :: "sx_out list \<Rightarrow> nat" where
  "got [] = 0"
| "got (e # es) = (case e of GotSession _ \<Rightarrow> 1 | _ \<Rightarrow> 0) + got es"

primrec given :: "sx_out list \<Rightarrow> nat" where
  "given [] = 0"
| "given (e # es) = (case e of MgrRelease \<Rightarrow> 1 | ReleaseDeferred _ \<Rightarrow> 1 | _ \<Rightarrow> 0) + given es"

lemma got_append [simp]: "got (xs @ ys) = got xs + got ys"
  by (induction xs) simp_all

lemma given_append [simp]: "given (xs @ ys) = given xs + given ys"
  by (induction xs) simp_all

definition gotten :: "sctx \<Rightarrow> nat" where
  "gotten s = got (trk s)"

definition handed_back :: "sctx \<Rightarrow> nat" where
  "handed_back s = given (trk s)"

text \<open>Sessions taken are those handed back and the one held; at most one is ever taken.\<close>

definition balance :: "sctx \<Rightarrow> bool" where
  "balance s \<longleftrightarrow>
     gotten s = handed_back s + (case sx_session s of None \<Rightarrow> 0 | Some _ \<Rightarrow> 1)
     \<and> gotten s \<le> 1 \<and> (sx_prepare s \<in> {PrepIdle, PrepAcquiring} \<longrightarrow> gotten s = 0)"

lemma balance_cong:
  "trk s = trk t \<Longrightarrow> sx_session s = sx_session t \<Longrightarrow> sx_prepare s = sx_prepare t \<Longrightarrow>
     balance s = balance t"
  by (simp add: balance_def gotten_def handed_back_def)

lemma balance_msg:
  assumes "sx_wf s" "balance s"
  shows "balance (handle_msg cv cfg oc now msg s)"
proof (cases cv cfg oc now msg s rule: handle_msg_cases)
  case same
  then show ?thesis using assms(2) by (subst balance_cong [of _ s]) simp_all
next
  case peer
  then show ?thesis using assms by (auto simp: balance_def gotten_def handed_back_def sx_wf_def split: if_splits)
qed

lemma balance_step:
  assumes "sx_step s t" "sx_wf s" "balance s"
  shows "balance t"
  using assms
proof (induction rule: sx_step.induct)
  case (step_msg s msg ms cv cfg oc now)
  then have "sx_wf (s\<lparr>sx_queue := ms\<rparr>)" "balance (s\<lparr>sx_queue := ms\<rparr>)"
    by (auto simp: sx_wf_def balance_def gotten_def handed_back_def)
  then show ?case by (rule balance_msg)
next
  case (step_cleanup s cfg)
  then show ?case
    by (cases "sx_session s") (auto simp: balance_def gotten_def handed_back_def)
next
  case (step_media s ws p c ws')
  then show ?case by (cases "sx_session s") (auto simp: balance_def gotten_def handed_back_def)
next
  case (step_acquired s result)
  then have "sx_session s = None" "gotten s = 0" by (auto simp: sx_wf_def balance_def)
  with step_acquired show ?case
    by (cases result) (auto simp: balance_def gotten_def handed_back_def)
next
  case (step_probed s ready)
  then show ?case by (auto simp: balance_def gotten_def handed_back_def)
qed (auto simp: balance_def gotten_def handed_back_def)

lemma new_run_inv:
  assumes "sx_run (newSessionCtx q cfg stun turn i) s"
  shows "sx_wf s \<and> balance s"
  using assms
proof (rule sx_run_inv)
  show "sx_wf (newSessionCtx q cfg stun turn i) \<and> balance (newSessionCtx q cfg stun turn i)"
    by (simp add: sx_wf_new) (simp add: balance_def gotten_def handed_back_def trk_def newSessionCtx_def)
qed (auto intro: sx_wf_step balance_step)

text \<open>
  C4. No scrcpy session leaks from a browser connection, and none is handed back twice.  However the
  stop of the context falls between the steps of the acquisition, once the context has cleaned up
  and the acquisition has returned, the number of sessions handed back (to the warm pool by the
  clean-up, or to the manager by an acquisition that came too late) is the number of sessions
  acquired, which is at most one, and the context holds none; while it runs, it holds the one it
  has not handed back.
\<close>

theorem session_handed_back:
  assumes "sx_run (newSessionCtx q cfg stun turn i) s"
  shows "gotten s = handed_back s + (case sx_session s of None \<Rightarrow> 0 | Some _ \<Rightarrow> 1)
    \<and> gotten s \<le> 1 \<and> (sx_done s \<longrightarrow> sx_session s = None \<and> gotten s = handed_back s)"
  using new_run_inv [OF assms] by (auto simp: balance_def sx_wf_def)

section \<open>Media starts, and when it does not\<close>

text \<open>The media of a peer numbered below the bound only.\<close>

definition stuck_from :: "nat \<Rightarrow> sctx \<Rightarrow> bool" where
  "stuck_from P s \<longleftrightarrow>
     sx_wf s \<and> sx_once s \<and> P \<le> sx_peers s \<and> sx_prepare s \<noteq> PrepAcquiring
     \<and> (\<forall>r. sx_prepare s = PrepProbing r \<longrightarrow> (\<exists>c < P. r = Some c))
     \<and> (\<forall>c\<in>set (sx_closed s). c < P) \<and> (\<forall>p\<in>pumped s. p < P)"

lemma stuck_from_msg:
  assumes "stuck_from P s"
  shows "stuck_from P (handle_msg cv cfg oc now msg s)"
proof (cases cv cfg oc now msg s rule: handle_msg_cases)
  case same
  with assms show ?thesis by (auto simp: stuck_from_def pumped_trk sx_wf_handle_msg)
next
  case peer
  with assms show ?thesis by (auto simp: stuck_from_def pumped_trk sx_wf_handle_msg)
qed

lemma stuck_from_step:
  assumes "sx_step s t" "stuck_from P s"
  shows "stuck_from P t"
  using assms sx_wf_step [OF assms(1)]
proof (induction rule: sx_step.induct)
  case (step_msg s msg ms cv cfg oc now)
  then have "stuck_from P (s\<lparr>sx_queue := ms\<rparr>)"
    by (auto simp: stuck_from_def sx_wf_def pumped_trk)
  then show ?case by (rule stuck_from_msg)
next
  case (step_media s ws p c ws')
  then have "p < P" by (fastforce simp: stuck_from_def sx_wf_def)
  with step_media show ?case by (auto simp: stuck_from_def pumped_trk split: option.splits)
next
  case (step_cleanup s cfg)
  then show ?case by (auto simp: stuck_from_def pumped_trk split: option.splits)
next
  case (step_probed s ready)
  then show ?case by (auto simp: stuck_from_def pumped_trk split: if_splits)
qed (auto simp: stuck_from_def pumped_trk)

definition pumps_below :: "sctx \<Rightarrow> bool" where
  "pumps_below s \<longleftrightarrow> (\<forall>p\<in>pumped s. p < sx_peers s)"

lemma pumps_below_step:
  assumes "sx_step s t" "sx_wf s" "pumps_below s"
  shows "pumps_below t"
  using assms
proof (induction rule: sx_step.induct)
  case (step_msg s msg ms cv cfg oc now)
  then show ?case
    by (cases cv cfg oc now msg "s\<lparr>sx_queue := ms\<rparr>" rule: handle_msg_cases)
      (auto simp: pumps_below_def pumped_trk)
next
  case (step_media s ws p c ws')
  then have "p < sx_peers s" by (fastforce simp: sx_wf_def)
  with step_media show ?case by (auto simp: pumps_below_def pumped_trk split: option.splits)
next
  case (step_cleanup s cfg)
  then show ?case by (auto simp: pumps_below_def pumped_trk split: option.splits)
next
  case (step_acquired s result)
  then show ?case by (auto simp: pumps_below_def pumped_trk split: sum.splits if_splits)
qed (auto simp: pumps_below_def pumped_trk)

text \<open>
  C9. A renegotiated connection never plays.  Every offer makes a new peer with a \<open>sessionReady\<close>
  channel of its own, but \<open>prepareOnce\<close> lets only the first offer prepare the session, and that
  goroutine closes the channel it read when \<open>Acquire\<close> returned.  So a peer made by an offer handled
  later than that waits for ever: whatever happens afterwards, its media pumps are not started.
\<close>

theorem second_offer_never_plays:
  assumes "sx_run (newSessionCtx q cfg stun turn i) s"
    and "sx_once s" "sx_prepare s \<noteq> PrepAcquiring" "sx_run s t" "sx_peers s \<le> p"
  shows "p \<notin> pumped t"
proof -
  let ?I = "\<lambda>s. sx_wf s \<and> pumps_below s"
  have new: "?I (newSessionCtx q cfg stun turn i)"
    by (simp add: sx_wf_new) (simp add: pumps_below_def pumped_def newSessionCtx_def)
  have "?I s"
    using assms(1) new by (rule sx_run_inv) (auto intro: sx_wf_step pumps_below_step)
  then have "stuck_from (sx_peers s) s"
    using assms(2,3) by (auto simp: stuck_from_def sx_wf_def pumps_below_def)
  with assms(4) have "stuck_from (sx_peers s) t"
    by (rule sx_run_inv) (auto intro: stuck_from_step)
  with assms(5) show ?thesis by (auto simp: stuck_from_def)
qed

text \<open>A browser that sends a second offer once the session is there, and connects.\<close>

definition demo_oc :: outcome where
  "demo_oc = \<lparr>oc_new_err = None, oc_answer = Inr \<lparr>sd_SDP = ''v=0'', sd_Type = ''answer''\<rparr>\<rparr>"

definition demo_offer :: WsMsg where
  "demo_offer = (msg_of_type TypeOffer)\<lparr>ws_Offer := Some \<lparr>sd_SDP = ''v=0'', sd_Type = ''offer''\<rparr>\<rparr>"

definition demo_ctx :: sctx where
  "demo_ctx = newSessionCtx 0 demo_cfg [] None ''s1''"

definition offered :: "sctx \<Rightarrow> sctx" where
  "offered s = handle_msg conv_zero demo_cfg demo_oc 1 demo_offer s"

lemma offered_run: "sx_queue s = [] \<Longrightarrow> \<not> sx_done s \<Longrightarrow> sx_run s (offered s)"
proof -
  assume q: "sx_queue s = []" and d: "\<not> sx_done s"
  have "sx_run s (enqueue demo_offer s)"
    by (rule run_step [OF run_refl step_enqueue])
  moreover have "sx_step (enqueue demo_offer s)
      (handle_msg conv_zero demo_cfg demo_oc 1 demo_offer ((enqueue demo_offer s)\<lparr>sx_queue := []\<rparr>))"
    using q d by (intro step_msg) (simp_all add: enqueue_def eventQueueSize_def)
  moreover have "(enqueue demo_offer s)\<lparr>sx_queue := []\<rparr> = s"
    using q by (simp add: enqueue_def eventQueueSize_def)
  ultimately show ?thesis unfolding offered_def by (metis run_step)
qed

lemma sx_run_trans: "sx_run t u \<Longrightarrow> sx_run s t \<Longrightarrow> sx_run s u"
  by (induction rule: sx_run.induct) (auto intro: run_step)

lemmas offered_defs = offered_def demo_offer_def demo_oc_def handle_msg_def handleOffer_def Let_def
  msg_of_type_def TypeOffer_def

lemma offered_fields [simp]:
  "sx_once (offered s)" "sx_peers (offered s) = Suc (sx_peers s)"
  "sx_prepare (offered s) = (if sx_once s then sx_prepare s else PrepAcquiring)"
  "sx_queue (offered s) = sx_queue s" "sx_stopped (offered s) = sx_stopped s"
  "sx_done (offered s) = sx_done s" "sx_ready (offered s) = Some (sx_peers s)"
  by (simp_all add: offered_defs)

lemma demo_ctx_fields [simp]:
  "\<not> sx_once demo_ctx" "sx_peers demo_ctx = 0" "sx_queue demo_ctx = []" "\<not> sx_stopped demo_ctx"
  "\<not> sx_done demo_ctx"
  by (simp_all add: demo_ctx_def newSessionCtx_def)

theorem second_offer_never_plays_witness:
  "let s = acquired (Inr 7) (offered demo_ctx);
       t = onConnected 1 (probed (Some 0) (offered s))
   in sx_prepare t = PrepDone \<and> sx_peers t = 2 \<and> 1 \<notin> pumped t"
proof -
  define s where "s = acquired (Inr 7) (offered demo_ctx)"
  define t where "t = onConnected 1 (probed (Some 0) (offered s))"
  have "sx_run demo_ctx (offered demo_ctx)" by (rule offered_run) simp_all
  then have s: "sx_run demo_ctx s" unfolding s_def
    by (rule run_step) (rule step_acquired, simp)
  have "sx_run s (offered s)" by (rule offered_run) (simp_all add: s_def)
  then have "sx_run s (probed (Some 0) (offered s))"
    by (rule run_step) (rule step_probed, simp add: s_def)
  then have t: "sx_run s t" unfolding t_def
    by (rule run_step) (rule step_connected, simp add: s_def)
  have "1 \<notin> pumped t"
    by (rule second_offer_never_plays [OF s [unfolded demo_ctx_def] _ _ t]) (simp_all add: s_def)
  then show ?thesis by (simp add: Let_def flip: s_def t_def) (simp add: t_def s_def)
qed

text \<open>A browser that connects and disconnects again: the session it got is handed back.\<close>

theorem session_handed_back_witness:
  "let s = (cleanup demo_cfg ((acquired (Inr 7) (offered demo_ctx))\<lparr>sx_stopped := True\<rparr>))\<lparr>sx_done := True\<rparr>
   in gotten s = 1 \<and> handed_back s = 1 \<and> sx_session s = None"
proof -
  define a where "a = (acquired (Inr 7) (offered demo_ctx))\<lparr>sx_stopped := True\<rparr>"
  define s where "s = (cleanup demo_cfg a)\<lparr>sx_done := True\<rparr>"
  have "sx_run demo_ctx (offered demo_ctx)" by (rule offered_run) simp_all
  then have "sx_run demo_ctx (acquired (Inr 7) (offered demo_ctx))"
    by (rule run_step) (rule step_acquired, simp)
  then have "sx_run demo_ctx a" unfolding a_def by (rule run_step) (rule step_stop)
  then have s: "sx_run demo_ctx s" unfolding s_def
    by (rule run_step) (rule step_cleanup, simp_all add: a_def)
  have "trk demo_ctx = []" by (simp add: demo_ctx_def newSessionCtx_def trk_def)
  then have "gotten s = 1" by (simp add: s_def a_def gotten_def offered_def)
  with session_handed_back [OF s [unfolded demo_ctx_def]] show ?thesis
    unfolding Let_def a_def [symmetric] s_def [symmetric] by (simp add: s_def)
qed

text \<open>A context that runs and holds a prepared session has closed a channel.\<close>

definition ready_ok :: "sctx \<Rightarrow> bool" where
  "ready_ok s \<longleftrightarrow>
     (\<not> sx_stopped s \<and> sx_prepare s = PrepDone \<and> sx_session s \<noteq> None \<longrightarrow> sx_closed s \<noteq> [])"

lemma ready_ok_step:
  assumes "sx_step s t" "sx_wf s" "ready_ok s"
  shows "ready_ok t"
  using assms
proof (induction rule: sx_step.induct)
  case (step_msg s msg ms cv cfg oc now)
  then show ?case
    by (cases cv cfg oc now msg "s\<lparr>sx_queue := ms\<rparr>" rule: handle_msg_cases)
      (auto simp: ready_ok_def sx_wf_def)
next
  case (step_acquired s result)
  then show ?case by (cases result) (auto simp: ready_ok_def sx_wf_def)
next
  case (step_probed s ready)
  then show ?case by (auto simp: ready_ok_def sx_wf_def probed_def split: option.splits)
qed (auto simp: ready_ok_def)

lemma prepared_ready:
  assumes "sx_run (newSessionCtx q cfg stun turn i) s"
    and "sx_peers s = 1" "\<not> sx_stopped s" "sx_prepare s = PrepDone" "sx_session s = Some x"
  shows "sx_ready s = Some 0" "0 \<in> set (sx_closed s)" "(p, r) \<in> set (sx_waiters s) \<Longrightarrow> r = Some 0"
proof -
  let ?I = "\<lambda>s. sx_wf s \<and> ready_ok s"
  have new: "?I (newSessionCtx q cfg stun turn i)"
    by (simp add: sx_wf_new) (simp add: ready_ok_def newSessionCtx_def)
  have inv: "?I s"
    using assms(1) new by (rule sx_run_inv) (auto intro: sx_wf_step ready_ok_step)
  then have "sx_closed s \<noteq> []" "\<forall>c\<in>set (sx_closed s). c = 0"
    using assms by (auto simp: sx_wf_def ready_ok_def)
  then show "0 \<in> set (sx_closed s)" by (cases "sx_closed s") auto
  show "sx_ready s = Some 0" "(p, r) \<in> set (sx_waiters s) \<Longrightarrow> r = Some 0"
    using inv assms(2) by (auto simp: sx_wf_def)
qed

text \<open>
  C7. The first offer plays, in whatever order its parts finish.  In a context with one peer that is
  not stopped and whose session was acquired and prepared, every goroutine of a connected peer can
  run at once, and what it does is: start the audio, set the encoder to the ladder's bitrate, ask
  for a key frame, resume forwarding, and start the pumps of that peer on that session.
\<close>

theorem first_offer_plays:
  assumes "sx_run (newSessionCtx q cfg stun turn i) s"
    and "sx_peers s = 1" "\<not> sx_stopped s" "sx_prepare s = PrepDone" "sx_session s = Some x"
    and "sx_waiters s = ws @ (p, r) # ws'" "0 < ld_lastBitrate (sx_ladder s)"
  shows "\<exists>t. sx_step s t \<and> sx_waiters t = ws @ ws' \<and> p \<in> pumped t
    \<and> sx_log t = sx_log s @ [Ctl x BuildStartAudio,
        Ctl x (BuildChangeBitrate (ld_lastBitrate (sx_ladder s))), Ctl x BuildRequestKeyframe,
        Unpause x, StartPumps p x]"
proof -
  note r = prepared_ready [OF assms(1-5)]
  have "r = Some 0" using assms(6) r(3) [of p r] by simp
  then have step: "sx_step s (start_media p (s\<lparr>sx_waiters := ws @ ws'\<rparr>))"
    using assms(6) r(2) by (intro step_media) simp_all
  have "p \<in> pumped (start_media p (s\<lparr>sx_waiters := ws @ ws'\<rparr>))"
    using assms(5) by (auto simp: pumped_trk)
  moreover have "sx_log (start_media p (s\<lparr>sx_waiters := ws @ ws'\<rparr>)) = sx_log s @ [Ctl x BuildStartAudio,
      Ctl x (BuildChangeBitrate (ld_lastBitrate (sx_ladder s))), Ctl x BuildRequestKeyframe,
      Unpause x, StartPumps p x]"
    using assms(5,7) by (simp add: start_media_def out_def)
  ultimately show ?thesis using step by (metis start_media_fields(12) sx_waiters_upd)
qed

lemma demo_prepared_run: "sx_run demo_ctx (probed (Some 0) (acquired (Inr 7) (onConnected 0 (offered demo_ctx))))"
proof -
  have "sx_run demo_ctx (offered demo_ctx)" by (rule offered_run) simp_all
  then have "sx_run demo_ctx (onConnected 0 (offered demo_ctx))"
    by (rule run_step) (rule step_connected, simp)
  then have "sx_run demo_ctx (acquired (Inr 7) (onConnected 0 (offered demo_ctx)))"
    by (rule run_step) (rule step_acquired, simp)
  then show ?thesis by (rule run_step) (rule step_probed, simp)
qed

theorem first_offer_plays_witness:
  "let s = probed (Some 0) (acquired (Inr 7) (onConnected 0 (offered demo_ctx)))
   in \<exists>t. sx_step s t \<and> 0 \<in> pumped t"
proof -
  define s where "s = probed (Some 0) (acquired (Inr 7) (onConnected 0 (offered demo_ctx)))"
  have s: "sx_run demo_ctx s" unfolding s_def by (rule demo_prepared_run)
  have w: "sx_waiters (offered demo_ctx) = []"
    by (simp add: offered_defs demo_ctx_def newSessionCtx_def)
  have "ld_lastBitrate (sx_ladder s) = 8000000"
    by (simp add: s_def probed_def acquired_def onConnected_def out_def offered_defs demo_ctx_def
        newSessionCtx_def releasePeer_def offer_ladder_def demo_rates)
  then have "\<exists>t. sx_step s t \<and> sx_waiters t = [] @ [] \<and> 0 \<in> pumped t
    \<and> sx_log t = sx_log s @ [Ctl 7 BuildStartAudio,
        Ctl 7 (BuildChangeBitrate (ld_lastBitrate (sx_ladder s))), Ctl 7 BuildRequestKeyframe,
        Unpause 7, StartPumps 0 7]"
    by (intro first_offer_plays [OF s [unfolded demo_ctx_def], where r = "Some 0"])
      (simp_all add: s_def w)
  then show ?thesis by (auto simp: Let_def s_def)
qed

section \<open>ICE candidates\<close>

text \<open>The candidates given to a peer, oldest first, and those that messages carry.\<close>

definition delivered :: "sctx \<Rightarrow> IceCandidate list" where
  "delivered s = concat (map (\<lambda>e. case e of AddCandidate _ c \<Rightarrow> [c] | _ \<Rightarrow> []) (sx_log s))"

fun carried :: "WsMsg list \<Rightarrow> IceCandidate list" where
  "carried [] = []"
| "carried (m # ms) =
     (if ws_Type m = TypeIceCandidate then (case ws_Candidate m of None \<Rightarrow> [] | Some c \<Rightarrow> [c]) else [])
       @ carried ms"

definition cands :: "sctx \<Rightarrow> IceCandidate list" where
  "cands s = delivered s @ sx_pending s"

lemma delivered_out [simp]:
  "delivered (out os s) = delivered s @ concat (map (\<lambda>e. case e of AddCandidate _ c \<Rightarrow> [c] | _ \<Rightarrow> []) os)"
  by (simp add: delivered_def out_def)

lemma delivered_upd [simp]:
  "delivered (s\<lparr>sx_ladder := l\<rparr>) = delivered s" "delivered (s\<lparr>sx_peer := q\<rparr>) = delivered s"
  "delivered (s\<lparr>sx_pending := cs\<rparr>) = delivered s" "delivered (s\<lparr>sx_peers := n\<rparr>) = delivered s"
  "delivered (s\<lparr>sx_ready := r\<rparr>) = delivered s" "delivered (s\<lparr>sx_once := b\<rparr>) = delivered s"
  "delivered (s\<lparr>sx_prepare := pr\<rparr>) = delivered s"
  by (simp_all add: delivered_def)

lemma concat_AddCandidate [simp]:
  "concat (map ((\<lambda>e. case e of AddCandidate _ c \<Rightarrow> [c] | _ \<Rightarrow> []) \<circ> AddCandidate p) cs) = cs"
  by (induction cs) simp_all

lemma delivered_sendCtrl [simp]: "delivered (sendCtrl b s) = delivered s"
  by (simp add: sendCtrl_def split: option.splits)

lemma delivered_rate_out [simp]: "delivered (rate_out r s) = delivered s"
  by (simp add: rate_out_def split: rate_out.splits option.splits)

lemma delivered_rate_outs [simp]: "delivered (fold rate_out os s) = delivered s"
  by (induction os arbitrary: s) simp_all

lemma delivered_ops [simp]:
  "delivered (releasePeer s) = delivered s" "delivered (handleStats cv msg s) = delivered s"
  "delivered (session_applyQuality cfg level now s) = delivered s"
  "delivered (session_adjust dat now s) = delivered s"
  by (simp_all add: releasePeer_def handleStats_def session_applyQuality_def session_adjust_def Let_def
      split: option.splits prod.splits)

lemma delivered_handleStatus [simp]: "delivered (handleStatus msg now s) = delivered s"
  by (simp add: handleStatus_def Let_def split: option.splits)

definition buffered_ok :: "sctx \<Rightarrow> bool" where
  "buffered_ok s \<longleftrightarrow> (sx_peer s \<noteq> None \<longrightarrow> sx_pending s = [])"

lemma cands_handleOffer:
  assumes "isl an \<longrightarrow> ne \<noteq> None" "buffered_ok s" "handleOffer cfg ne an msg s = (r, s')"
  shows "cands s' = cands s \<and> buffered_ok s'"
  using assms
  by (auto simp: handleOffer_def Let_def cands_def buffered_ok_def split: option.splits sum.splits)

lemma cands_handle_msg:
  assumes "isl (oc_answer oc) \<longrightarrow> oc_new_err oc \<noteq> None" "buffered_ok s"
  shows "cands (handle_msg cv cfg oc now msg s) = cands s @ carried [msg]
    \<and> buffered_ok (handle_msg cv cfg oc now msg s)"
proof (cases "ws_Type msg = TypeOffer")
  case True
  obtain r s' where o: "handleOffer cfg (oc_new_err oc) (oc_answer oc) msg s = (r, s')"
    by (cases "handleOffer cfg (oc_new_err oc) (oc_answer oc) msg s")
  have "carried [msg] = []" using True by (simp add: msg_types)
  then show ?thesis
    using cands_handleOffer [OF assms o] True o
    by (auto simp: handle_msg_def cands_def buffered_ok_def split: option.splits)
next
  case False
  show ?thesis
  proof (cases "ws_Type msg = TypeIceCandidate")
    case True
    with False assms(2) show ?thesis
      by (auto simp: handle_msg_def handleCandidate_def cands_def buffered_ok_def split: option.splits)
  next
    case False': False
    with False show ?thesis
      using assms(2) by (simp add: handle_msg_def Let_def cands_def buffered_ok_def)
  qed
qed

text \<open>
  C38. No ICE candidate of the browser is lost, duplicated or reordered, although most of them arrive
  before the peer exists: as long as no offer is refused by WebRTC, the candidates given to a peer
  followed by the buffered ones are, at every moment, exactly the candidates received, in order.
\<close>

theorem candidates_in_order:
  assumes "list_all (\<lambda>(cfg, oc, now, msg). isl (oc_answer oc) \<longrightarrow> oc_new_err oc \<noteq> None) es"
  shows "delivered (fold (\<lambda>(cfg, oc, now, msg). handle_msg cv cfg oc now msg) es
             (newSessionCtx q cfg0 stun turn i))
         @ sx_pending (fold (\<lambda>(cfg, oc, now, msg). handle_msg cv cfg oc now msg) es
             (newSessionCtx q cfg0 stun turn i))
    = carried (map (\<lambda>(cfg, oc, now, msg). msg) es)"
proof -
  let ?step = "\<lambda>(cfg, oc, now, msg). handle_msg cv cfg oc now msg"
  have "cands (fold ?step es s) = cands s @ carried (map (\<lambda>(cfg, oc, now, msg). msg) es)"
    if "buffered_ok s" for s
    using assms that
  proof (induction es arbitrary: s)
    case (Cons e es)
    obtain cfg oc now msg where e: "e = (cfg, oc, now, msg)" by (cases e)
    with Cons.prems cands_handle_msg [of oc s cv cfg now msg]
    have "cands (?step e s) = cands s @ carried [msg]" "buffered_ok (?step e s)" by auto
    with Cons.IH [of "?step e s"] Cons.prems e show ?case by simp
  qed simp
  from this [of "newSessionCtx q cfg0 stun turn i"] show ?thesis
    by (simp add: buffered_ok_def cands_def delivered_def newSessionCtx_def)
qed

definition demo_cand :: "string \<Rightarrow> WsMsg" where
  "demo_cand c = (msg_of_type TypeIceCandidate)
     \<lparr>ws_Candidate := Some \<lparr>ic_Candidate = c, ic_SDPMid = None, ic_SDPMLineIndex = None\<rparr>\<rparr>"

theorem candidates_in_order_witness:
  "let es = [(demo_cfg, demo_oc, 1, demo_cand ''a''), (demo_cfg, demo_oc, 2, demo_offer),
             (demo_cfg, demo_oc, 3, demo_cand ''b'')];
       t = fold (\<lambda>(cfg, oc, now, msg). handle_msg conv_zero cfg oc now msg) es demo_ctx
   in map ic_Candidate (delivered t @ sx_pending t) = [''a'', ''b'']"
  unfolding Let_def demo_ctx_def
  by (subst candidates_in_order)
    (simp_all add: demo_oc_def demo_cand_def demo_offer_def msg_of_type_def msg_types)

end
