(* ===== verification/WsClient.thy ===== *)
theory WsClient
  imports Messages
begin

text \<open>
  \<open>agent/wsclient.go\<close>: how the agent connects and registers at the signaling server.  The dialer and
  the connection are outside; what they do is the record \<open>dial_env\<close>, and \<open>ConnectWithParams\<close> returns
  the error or success together with what it did to the connection.  The handshake headers go to
  the dialer as they are (\<open>http.Header\<close> canonicalises the keys).
\<close>

record ConnectParams =
  cp_ServiceID :: string
  cp_WSHeaders :: "(string \<times> string) list"
  cp_RegisterFields :: "(string \<times> string) list"
  cp_WSPath :: string

definition zero_ConnectParams :: ConnectParams where
  "zero_ConnectParams =
     \<lparr>cp_ServiceID = '''', cp_WSHeaders = [], cp_RegisterFields = [], cp_WSPath = ''''\<rparr>"

text \<open>Errors of dialing and writing; the first message read, or the error of reading.\<close>

record dial_env =
  de_dial :: "string \<Rightarrow> (string \<times> string) list \<Rightarrow> string option"
  de_write :: "WsMsg \<Rightarrow> string option"
  de_ack :: "string + WsMsg"

datatype conn_act = Dialed string | Wrote WsMsg | ConnClosed

definition service_of :: "string \<Rightarrow> ConnectParams \<Rightarrow> string" where
  "service_of serviceID p = (if cp_ServiceID p \<noteq> '''' then cp_ServiceID p else serviceID)"

definition agent_path :: "string \<Rightarrow> ConnectParams \<Rightarrow> string" where
  "agent_path serviceID p =
     (if cp_WSPath p \<noteq> '''' then cp_WSPath p else ''/ws/agent/'' @ service_of serviceID p)"

definition register_msg :: "string \<Rightarrow> string \<Rightarrow> string \<Rightarrow> ConnectParams \<Rightarrow> WsMsg" where
  "register_msg serviceID instanceID deviceSerial p =
     (msg_of_type TypeRegister)\<lparr>
        ws_ServiceID := service_of serviceID p, ws_InstanceID := instanceID,
        ws_DeviceSerial := deviceSerial,
        ws_Data := (if cp_RegisterFields p = [] then None
                    else Some (map (\<lambda>(k, v). (k, JStr v)) (cp_RegisterFields p)))\<rparr>"

definition ConnectWithParams ::
  "dial_env \<Rightarrow> string \<Rightarrow> string \<Rightarrow> string \<Rightarrow> string \<Rightarrow> ConnectParams \<Rightarrow> string option \<times> conn_act list" where
  "ConnectWithParams E url serviceID instanceID deviceSerial p =
     (let target = url @ agent_path serviceID p;
          reg = register_msg serviceID instanceID deviceSerial p
      in case de_dial E target (cp_WSHeaders p) of
           Some err \<Rightarrow> (Some (''dial signaling: '' @ err), [])
         | None \<Rightarrow>
             (case de_write E reg of
                Some err \<Rightarrow> (Some (''send register: '' @ err), [Dialed target, ConnClosed])
              | None \<Rightarrow>
                  (case de_ack E of
                     Inl err \<Rightarrow>
                       (Some (''read registered ack: '' @ err), [Dialed target, Wrote reg, ConnClosed])
                   | Inr ack \<Rightarrow>
                       if ws_Type ack \<noteq> ''registered'' then
                         (Some (''unexpected ack: '' @ ws_Type ack),
                          [Dialed target, Wrote reg, ConnClosed])
                       else (None, [Dialed target, Wrote reg]))))"

definition Connect :: "dial_env \<Rightarrow> string \<Rightarrow> string \<Rightarrow> string \<Rightarrow> string \<Rightarrow> string option \<times> conn_act list" where
  "Connect E url serviceID instanceID deviceSerial =
     ConnectWithParams E url serviceID instanceID deviceSerial zero_ConnectParams"

text \<open>
  A connection that was opened is closed exactly when the registration fails, and a successful
  registration is one the server acknowledged.
\<close>

lemma ConnectWithParams_spec:
  assumes "ConnectWithParams E url svc inst serial p = (err, acts)"
  shows "(ConnClosed \<in> set acts \<longleftrightarrow> err \<noteq> None \<and> acts \<noteq> [])
    \<and> (err = None \<longrightarrow> (\<exists>ack. de_ack E = Inr ack \<and> ws_Type ack = ''registered'')
         \<and> acts = [Dialed (url @ agent_path svc p), Wrote (register_msg svc inst serial p)])"
  using assms
  by (auto simp: ConnectWithParams_def Let_def split: option.splits sum.splits if_splits)

end
