(* ===== verification/Controller.thy ===== *)
theory Controller
  imports SessionCtx WsClient "HOL-Library.AList"
begin

text \<open>
  The controller of one device (\<open>agent/controller.go\<close>): the loop that keeps the connection to the
  signaling server, the handlers of its messages, and the calls of the platform.

  The contexts are objects: \<open>ct_ctxs\<close> is the heap, \<open>ct_sessions\<close> the map from session identifiers to
  them, an association list (Go iterates over the map in any order).  A handler that waits for a
  context's goroutine takes what the wait ends with as an argument: the goroutine has cleaned up,
  or the timeout of \<open>preemptTimeout\<close> passed.  \<open>cfg\<close> is what \<open>Config()\<close> returns at that moment.  What
  the controller sends and reports is appended to \<open>ct_out\<close>.
\<close>

section \<open>State\<close>

datatype hook =
    OnDeviceStatus string string bool
  | OnSessionStarted string string string
  | OnSessionStopped string string string string
  | OnStreamDead string string string
  | OnQoS string string string f64 f64 int
  | OnError string string string string
  | OnDeviceReleased string string string
  | OnDeviceReset string string string

datatype ct_out = WsSend WsMsg | Hook hook

text \<open>
  Where \<open>Run\<close> stands: in \<open>ConnectWithParams\<close>, in the message loop of a connection that is open or
  that was closed locally, in the select after a failed attempt (entered after a stop or not), or
  returned.
\<close>

datatype phase = Dialing | Reading bool | Sleeping bool | Exited

record controller =
  ct_inst :: InstanceConfig
  ct_hooked :: bool
  ct_params :: ConnectParams
  ct_sessions :: "(string \<times> nat) list"
  ct_ctxs :: "nat \<Rightarrow> sctx"
  ct_next :: nat
  ct_current :: string
  ct_STUN :: "string list"
  ct_TURN :: "TurnServerConfig option"
  ct_busy :: bool
  ct_connected :: bool
  ct_registeredAt :: int
  ct_stopped :: bool
  ct_quality :: int
  ct_attempts :: nat
  ct_phase :: phase
  ct_out :: "ct_out list"

definition maxSessions :: nat where "maxSessions = 5"
definition preemptTimeout :: duration where "preemptTimeout = 10 * second"
definition retryFastAttempts :: nat where "retryFastAttempts = 12"
definition retryFastInterval :: duration where "retryFastInterval = 5 * second"
definition retrySlowInterval :: duration where "retrySlowInterval = 5 * 60 * second"

definition newController :: "InstanceConfig \<Rightarrow> bool \<Rightarrow> ConnectParams \<Rightarrow> controller" where
  "newController inst hooks cp =
     \<lparr>ct_inst = inst, ct_hooked = hooks, ct_params = cp, ct_sessions = [],
      ct_ctxs = (\<lambda>_. newSessionCtx 0 zero_AgentConfig [] None ''''), ct_next = 0, ct_current = '''',
      ct_STUN = [], ct_TURN = None, ct_busy = False, ct_connected = False, ct_registeredAt = 0,
      ct_stopped = False, ct_quality = 0, ct_attempts = 0, ct_phase = Dialing, ct_out = []\<rparr>"

definition backoffDelay :: "nat \<Rightarrow> duration" where
  "backoffDelay attempt =
     (if attempt \<le> retryFastAttempts then retryFastInterval else retrySlowInterval)"

section \<open>Sending and reporting\<close>

definition send :: "WsMsg \<Rightarrow> controller \<Rightarrow> controller" where
  "send msg c = c\<lparr>ct_out := ct_out c @ [WsSend msg]\<rparr>"

text \<open>\<open>h\<close> gets the serial and the instance of the device; a \<open>nil\<close> hooks interface drops the report.\<close>

definition report :: "(string \<Rightarrow> string \<Rightarrow> hook) \<Rightarrow> controller \<Rightarrow> controller" where
  "report h c =
     (if ct_hooked c
      then c\<lparr>ct_out := ct_out c @
               [Hook (h (inst_DeviceSerial (ct_inst c)) (inst_InstanceID (ct_inst c)))]\<rparr>
      else c)"

definition reportDeviceStatus :: "controller \<Rightarrow> controller" where
  "reportDeviceStatus c = report (\<lambda>serial inst. OnDeviceStatus serial inst (ct_busy c)) c"

definition setSignalingDown :: "string \<Rightarrow> controller \<Rightarrow> controller" where
  "setSignalingDown err c =
     reportDeviceStatus
       (report (\<lambda>serial inst. OnError serial inst ''ERR_SIGNALING_DISCONNECTED'' err)
         (c\<lparr>ct_connected := False, ct_registeredAt := 0\<rparr>))"

section \<open>Sessions\<close>

definition session_ctx :: "controller \<Rightarrow> string \<Rightarrow> nat option" where
  "session_ctx c sid = map_of (ct_sessions c) sid"

definition update_ctx :: "nat \<Rightarrow> (sctx \<Rightarrow> sctx) \<Rightarrow> controller \<Rightarrow> controller" where
  "update_ctx k f c = c\<lparr>ct_ctxs := (ct_ctxs c)(k := f (ct_ctxs c k))\<rparr>"

definition stop_ctx :: "nat \<Rightarrow> controller \<Rightarrow> controller" where
  "stop_ctx k = update_ctx k (\<lambda>s. s\<lparr>sx_stopped := True\<rparr>)"

text \<open>The context's goroutine ends: \<open>cleanup\<close>, then \<open>done\<close> is closed.\<close>

definition finish_ctx :: "AgentConfig \<Rightarrow> nat \<Rightarrow> controller \<Rightarrow> controller" where
  "finish_ctx cfg k =
     update_ctx k (\<lambda>s. if sx_done s then s else (cleanup cfg s)\<lparr>sx_done := True\<rparr>)"

definition remove_session :: "string \<Rightarrow> controller \<Rightarrow> controller" where
  "remove_session sid c =
     c\<lparr>ct_sessions := AList.delete sid (ct_sessions c),
       ct_current := (if ct_current c = sid then '''' else ct_current c), ct_busy := False\<rparr>"

text \<open>
  \<open>preemptAndWait\<close>, in two parts: what it does before it waits, and after.  \<open>fin\<close> says that the
  goroutine ended before the timeout.
\<close>

definition preempt_begin :: "nat \<Rightarrow> string \<Rightarrow> controller \<Rightarrow> controller" where
  "preempt_begin k sid c =
     stop_ctx k
       (send ((msg_of_type TypePreempted)\<lparr>ws_SessionID := sid\<rparr>)
         (update_ctx k (\<lambda>s. s\<lparr>sx_preempted := True\<rparr>) c))"

definition preempt_end :: "string \<Rightarrow> string \<Rightarrow> controller \<Rightarrow> controller" where
  "preempt_end sid reason c =
     report (\<lambda>serial inst. OnSessionStopped serial inst sid reason)
       (reportDeviceStatus (remove_session sid c))"

definition preemptAndWait ::
  "AgentConfig \<Rightarrow> bool \<Rightarrow> nat \<Rightarrow> string \<Rightarrow> string \<Rightarrow> controller \<Rightarrow> controller" where
  "preemptAndWait cfg fin k sid reason c =
     (let c1 = preempt_begin k sid c
      in preempt_end sid reason (if fin then finish_ctx cfg k c1 else c1))"

text \<open>\<open>handleBound\<close>, with the returned error.\<close>

definition create_session :: "AgentConfig \<Rightarrow> string \<Rightarrow> controller \<Rightarrow> controller" where
  "create_session cfg sid c =
     (let k = ct_next c;
          ctx = newSessionCtx (ct_quality c) cfg (ct_STUN c) (ct_TURN c) sid;
          c1 = c\<lparr>ct_ctxs := (ct_ctxs c)(k := ctx), ct_next := Suc k,
                 ct_sessions := AList.update sid k (ct_sessions c), ct_current := sid\<rparr>
      in report (\<lambda>serial inst. OnSessionStarted serial inst sid) c1)"

definition handleBound :: "AgentConfig \<Rightarrow> bool \<Rightarrow> WsMsg \<Rightarrow> controller \<Rightarrow> string option \<times> controller" where
  "handleBound cfg fin msg c =
     (let sid = ws_SessionID msg
      in if sid = '''' then (Some ''bound without session_id'', c)
         else if length (ct_sessions c) \<ge> maxSessions then (Some ''max sessions (5) reached'', c)
         else
           let oldID = ct_current c;
               c1 = (case session_ctx c oldID of
                       Some k \<Rightarrow> if oldID \<noteq> '''' \<and> oldID \<noteq> sid
                                  then preemptAndWait cfg fin k oldID ''forced'' c else c
                     | None \<Rightarrow> c)
           in (None, create_session cfg sid c1))"

text \<open>
  \<open>handleUnbound\<close> waits without a timeout: \<open>None\<close> is the loop blocked for ever because the
  context's goroutine does not end.
\<close>

definition handleUnbound :: "AgentConfig \<Rightarrow> bool \<Rightarrow> WsMsg \<Rightarrow> controller \<Rightarrow> controller option" where
  "handleUnbound cfg fin msg c =
     (let sid = ws_SessionID msg
      in if sid = '''' then Some c
         else case session_ctx c sid of
             None \<Rightarrow> Some c
           | Some k \<Rightarrow>
               let c1 = stop_ctx k c
               in if \<not> fin then None
                  else
                    let c2 = reportDeviceStatus (remove_session sid (finish_ctx cfg k c1))
                    in Some (if sx_preempted (ct_ctxs c2 k) then c2
                             else report (\<lambda>serial inst. OnSessionStopped serial inst sid ''user_unbound'') c2))"

definition relay_reply :: "WsMsg \<Rightarrow> json_map \<Rightarrow> WsMsg" where
  "relay_reply msg payload =
     (msg_of_type ''relay'')\<lparr>ws_RelayID := ws_RelayID msg, ws_Payload := Some payload\<rparr>"

definition handleRelayPreempt :: "AgentConfig \<Rightarrow> bool \<Rightarrow> WsMsg \<Rightarrow> controller \<Rightarrow> controller" where
  "handleRelayPreempt cfg fin msg c =
     (let oldID = ct_current c;
          c1 = (case session_ctx c oldID of
                  Some k \<Rightarrow> preemptAndWait cfg fin k oldID ''forced'' c
                | None \<Rightarrow> c)
      in send (relay_reply msg [(''type'', JStr ''preempt_resp''), (''ok'', JBool True)]) c1)"

definition routeToSession :: "WsMsg \<Rightarrow> controller \<Rightarrow> controller" where
  "routeToSession msg c =
     (case session_ctx c (ws_SessionID msg) of
        None \<Rightarrow> c
      | Some k \<Rightarrow> update_ctx k (enqueue msg) c)"

definition shutdownAll :: "controller \<Rightarrow> controller" where
  "shutdownAll c =
     (let c1 = fold (\<lambda>(sid, k). stop_ctx k) (ct_sessions c) c;
          c2 = c1\<lparr>ct_sessions := [], ct_current := '''', ct_busy := False\<rparr>
      in if ct_hooked c then
           reportDeviceStatus
             (fold (\<lambda>(sid, k). report (\<lambda>serial inst. OnSessionStopped serial inst sid ''agent_stop''))
               (ct_sessions c) c2)
         else c2)"

section \<open>The platform's calls\<close>

definition ForceCloseSession ::
  "AgentConfig \<Rightarrow> bool \<Rightarrow> string \<Rightarrow> string \<Rightarrow> controller \<Rightarrow> string option \<times> controller" where
  "ForceCloseSession cfg fin sid reason c =
     (case session_ctx c sid of
        None \<Rightarrow> (Some ''session not found'', c)
      | Some k \<Rightarrow>
          (None, preemptAndWait cfg fin k sid (if reason = '''' then ''forced'' else reason) c))"

definition CurrentSession :: "controller \<Rightarrow> nat option" where
  "CurrentSession c = session_ctx c (ct_current c)"

definition SetQuality :: "AgentConfig \<Rightarrow> string \<Rightarrow> controller \<Rightarrow> string option \<times> controller" where
  "SetQuality cfg level c =
     (if level \<noteq> ''clear'' \<and> level \<noteq> ''hd'' \<and> level \<noteq> ''original'' then
        (Some ''invalid quality level'', c)
      else
        let c1 = c\<lparr>ct_quality := tierBitrate cfg level\<rparr>
        in (None, case CurrentSession c1 of
                    None \<Rightarrow> c1
                  | Some k \<Rightarrow> update_ctx k (enqueue (set_quality_msg level)) c1))"

definition SendControlRaw ::
  "conv \<Rightarrow> string \<Rightarrow> json_map \<Rightarrow> controller \<Rightarrow> string option \<times> controller" where
  "SendControlRaw cv ctrlType dat c =
     (if ctrlType = '''' then (Some ''missing control type'', c)
      else (None, case CurrentSession c of
                    None \<Rightarrow> c
                  | Some k \<Rightarrow> update_ctx k (control cv ctrlType (Some dat)) c))"

text \<open>\<open>Stop\<close>: a connection that is open is closed, so that \<open>Read\<close> fails.\<close>

definition Stop :: "controller \<Rightarrow> controller" where
  "Stop c =
     (let c1 = c\<lparr>ct_stopped := True,
                 ct_phase := (case ct_phase c of Reading _ \<Rightarrow> Reading False | p \<Rightarrow> p)\<rparr>
      in (shutdownAll c1)\<lparr>ct_connected := False\<rparr>)"

definition ConnectedSeconds :: "time \<Rightarrow> controller \<Rightarrow> int" where
  "ConnectedSeconds unix_now c =
     (if ct_registeredAt c = 0 then 0
      else let sec = unix_now - ct_registeredAt c in if sec < 0 then 0 else wrap32 sec)"

section \<open>The message loop\<close>

definition ice_entry :: "IceServerEntry \<Rightarrow> controller \<Rightarrow> controller" where
  "ice_entry e c =
     (if ise_Username e = '''' \<and> ise_Credential e = '''' then c\<lparr>ct_STUN := ct_STUN c @ ise_URLs e\<rparr>
      else if ct_TURN c = None then
        c\<lparr>ct_TURN := Some \<lparr>turn_URLs = ise_URLs e, turn_Username = ise_Username e,
                             turn_Credential = ise_Credential e\<rparr>\<rparr>
      else c)"

definition handle_ice_servers :: "WsMsg \<Rightarrow> controller \<Rightarrow> controller" where
  "handle_ice_servers msg c =
     fold ice_entry (ws_IceServers msg) (c\<lparr>ct_STUN := [], ct_TURN := None\<rparr>)"

definition handle_relay :: "AgentConfig \<Rightarrow> bool \<Rightarrow> WsMsg \<Rightarrow> controller \<Rightarrow> controller" where
  "handle_relay cfg fin msg c =
     (if ws_Payload msg = None \<or> ws_RelayID msg = '''' then c
      else
        let innerType = getString (ws_Payload msg) ''type''
        in if innerType = ''query_status'' then
             send (relay_reply msg [(''type'', JStr ''status_resp''), (''busy'', JBool (ct_busy c))]) c
           else if innerType = ''preempt'' then handleRelayPreempt cfg fin msg c
           else c)"

text \<open>The end of \<open>runOnce\<close> with its deferred calls, and of the turn of \<open>Run\<close>.\<close>

definition attempt_ends :: "controller \<Rightarrow> controller" where
  "attempt_ends c =
     c\<lparr>ct_attempts := Suc (ct_attempts c), ct_phase := Sleeping (ct_stopped c)\<rparr>"

definition run_once_ends :: "controller \<Rightarrow> controller" where
  "run_once_ends c = attempt_ends (setSignalingDown ''signaling connection closed'' (shutdownAll c))"

text \<open>One message of the signaling server; \<open>None\<close> if the loop blocks for ever.\<close>

definition read_msg :: "AgentConfig \<Rightarrow> bool \<Rightarrow> WsMsg \<Rightarrow> controller \<Rightarrow> controller option" where
  "read_msg cfg fin msg c =
     (let t = ws_Type msg
      in if t = TypeBound then
           (case handleBound cfg fin msg c of
              (None, c') \<Rightarrow> Some c'
            | (Some e, c') \<Rightarrow> Some (run_once_ends c'))
         else if t = TypeUnbound then handleUnbound cfg fin msg c
         else if t = TypeIceServers then Some (handle_ice_servers msg c)
         else if t = ''relay'' then Some (handle_relay cfg fin msg c)
         else if t = TypePong then Some c
         else if ws_SessionID msg = '''' then Some c
         else Some (routeToSession msg c))"

definition dialed :: "int \<Rightarrow> controller \<Rightarrow> controller" where
  "dialed unix_now c =
     reportDeviceStatus
       (c\<lparr>ct_connected := True, ct_registeredAt := unix_now, ct_phase := Reading True\<rparr>)"

definition dial_failed :: "string \<Rightarrow> controller \<Rightarrow> controller" where
  "dial_failed err c = attempt_ends (setSignalingDown err c)"

section \<open>Interleavings\<close>

text \<open>
  What a context's step means for its controller: the quality it stores, the busy flag, and the
  reports.
\<close>

definition absorb :: "sx_out \<Rightarrow> string \<Rightarrow> controller \<Rightarrow> controller" where
  "absorb e sid c =
     (case e of
        ToWs msg \<Rightarrow> send msg c
      | StoreQuality n \<Rightarrow> c\<lparr>ct_quality := n\<rparr>
      | DeviceBusy \<Rightarrow> reportDeviceStatus (c\<lparr>ct_busy := True\<rparr>)
      | StreamDeadHook \<Rightarrow> report (\<lambda>serial inst. OnStreamDead serial inst sid) c
      | QoSHook lossRate rtt bitrate \<Rightarrow>
          report (\<lambda>serial inst. OnQoS sid serial inst lossRate rtt bitrate) c
      | _ \<Rightarrow> c)"

definition ctx_moves :: "nat \<Rightarrow> sctx \<Rightarrow> controller \<Rightarrow> controller" where
  "ctx_moves k t c =
     (let s = ct_ctxs c k
      in fold (\<lambda>e. absorb e (sx_id s)) (drop (length (sx_log s)) (sx_log t))
           (c\<lparr>ct_ctxs := (ct_ctxs c)(k := t)\<rparr>))"

text \<open>
  The steps of the controller.  The signaling server gives every browser connection a new
  identifier, so no context is bound twice.  A context's own steps neither stop it nor mark it as
  preempted.
\<close>

inductive ct_step :: "controller \<Rightarrow> controller \<Rightarrow> bool" where
  ct_dialed: "ct_phase c = Dialing \<Longrightarrow> ct_step c (dialed unix_now c)"
| ct_dial_failed: "ct_phase c = Dialing \<Longrightarrow> ct_step c (dial_failed err c)"
| ct_read: "ct_phase c = Reading True \<Longrightarrow>
    (ws_Type msg = TypeBound \<Longrightarrow> ws_SessionID msg \<noteq> ct_current c) \<Longrightarrow>
    read_msg cfg fin msg c = Some c' \<Longrightarrow> ct_step c c'"
| ct_read_failed: "ct_phase c = Reading up \<Longrightarrow> ct_step c (run_once_ends c)"
| ct_wake: "ct_phase c = Sleeping False \<Longrightarrow> ct_step c (c\<lparr>ct_phase := Dialing\<rparr>)"
| ct_exit: "ct_phase c = Sleeping stopped \<Longrightarrow> ct_stopped c \<Longrightarrow> ct_step c (c\<lparr>ct_phase := Exited\<rparr>)"
| ct_stop: "ct_step c (Stop c)"
| ct_force: "ct_step c (snd (ForceCloseSession cfg fin sid reason c))"
| ct_set_quality: "ct_step c (snd (SetQuality cfg level c))"
| ct_control: "ct_step c (snd (SendControlRaw cv ty dat c))"
| ct_params: "ct_step c (c\<lparr>ct_params := cp\<rparr>)"
| ct_ctx: "k < ct_next c \<Longrightarrow> sx_step (ct_ctxs c k) t \<Longrightarrow>
    sx_stopped t = sx_stopped (ct_ctxs c k) \<Longrightarrow> sx_preempted t = sx_preempted (ct_ctxs c k) \<Longrightarrow>
    ct_step c (ctx_moves k t c)"

inductive_cases ct_stepE: "ct_step c c'"

inductive ct_run :: "controller \<Rightarrow> controller \<Rightarrow> bool" where
  ct_refl: "ct_run c c"
| ct_more: "ct_run a b \<Longrightarrow> ct_step b c \<Longrightarrow> ct_run a c"

lemma ct_run_inv:
  assumes "ct_run a b" "I a" and step: "\<And>b c. I b \<Longrightarrow> ct_step b c \<Longrightarrow> I c"
  shows "I b"
  using assms(1,2) by (induction rule: ct_run.induct) (auto intro: step)

section \<open>What an operation leaves alone\<close>

lemma send_fields [simp]:
  "ct_sessions (send m c) = ct_sessions c" "ct_ctxs (send m c) = ct_ctxs c"
  "ct_next (send m c) = ct_next c" "ct_current (send m c) = ct_current c"
  "ct_hooked (send m c) = ct_hooked c" "ct_stopped (send m c) = ct_stopped c"
  "ct_phase (send m c) = ct_phase c" "ct_busy (send m c) = ct_busy c"
  "ct_connected (send m c) = ct_connected c" "ct_inst (send m c) = ct_inst c"
  by (simp_all add: send_def)

lemma report_fields [simp]:
  "ct_sessions (report h c) = ct_sessions c" "ct_ctxs (report h c) = ct_ctxs c"
  "ct_next (report h c) = ct_next c" "ct_current (report h c) = ct_current c"
  "ct_hooked (report h c) = ct_hooked c" "ct_stopped (report h c) = ct_stopped c"
  "ct_phase (report h c) = ct_phase c" "ct_busy (report h c) = ct_busy c"
  "ct_connected (report h c) = ct_connected c" "ct_inst (report h c) = ct_inst c"
  by (simp_all add: report_def)

lemma status_fields [simp]:
  "ct_sessions (reportDeviceStatus c) = ct_sessions c" "ct_ctxs (reportDeviceStatus c) = ct_ctxs c"
  "ct_next (reportDeviceStatus c) = ct_next c" "ct_current (reportDeviceStatus c) = ct_current c"
  "ct_hooked (reportDeviceStatus c) = ct_hooked c" "ct_stopped (reportDeviceStatus c) = ct_stopped c"
  "ct_phase (reportDeviceStatus c) = ct_phase c" "ct_busy (reportDeviceStatus c) = ct_busy c"
  "ct_connected (reportDeviceStatus c) = ct_connected c" "ct_inst (reportDeviceStatus c) = ct_inst c"
  by (simp_all add: reportDeviceStatus_def)

lemma update_ctx_fields [simp]:
  "ct_sessions (update_ctx k f c) = ct_sessions c" "ct_next (update_ctx k f c) = ct_next c"
  "ct_ctxs (update_ctx k f c) = (ct_ctxs c)(k := f (ct_ctxs c k))"
  "ct_current (update_ctx k f c) = ct_current c" "ct_hooked (update_ctx k f c) = ct_hooked c"
  "ct_stopped (update_ctx k f c) = ct_stopped c" "ct_phase (update_ctx k f c) = ct_phase c"
  "ct_busy (update_ctx k f c) = ct_busy c" "ct_out (update_ctx k f c) = ct_out c"
  "ct_connected (update_ctx k f c) = ct_connected c" "ct_inst (update_ctx k f c) = ct_inst c"
  by (simp_all add: update_ctx_def)

lemma remove_session_fields [simp]:
  "ct_sessions (remove_session sid c) = AList.delete sid (ct_sessions c)"
  "ct_ctxs (remove_session sid c) = ct_ctxs c" "ct_next (remove_session sid c) = ct_next c"
  "ct_current (remove_session sid c) = (if ct_current c = sid then '''' else ct_current c)"
  "ct_hooked (remove_session sid c) = ct_hooked c" "ct_stopped (remove_session sid c) = ct_stopped c"
  "ct_phase (remove_session sid c) = ct_phase c" "ct_busy (remove_session sid c) = False"
  "ct_out (remove_session sid c) = ct_out c" "ct_connected (remove_session sid c) = ct_connected c"
  "ct_inst (remove_session sid c) = ct_inst c"
  by (simp_all add: remove_session_def)

section \<open>The contract: one slot\<close>

text \<open>
  To the platform a device is a slot that is free or serves one browser session.  \<open>slot\<close> reads
  the reported starts and stops and tells which session the slot serves after them; it is \<open>None\<close>
  when a report does not fit: a start while another session runs, or the stop of a session that
  does not.
\<close>

datatype report = Started string | Stopped string string

fun slot :: "string option \<Rightarrow> report list \<Rightarrow> string option option" where
  "slot cur [] = Some cur"
| "slot None (Started i # rs) = (if i = '''' then None else slot (Some i) rs)"
| "slot (Some j) (Stopped i r # rs) = (if i = j then slot None rs else None)"
| "slot _ _ = None"

fun session_report :: "ct_out \<Rightarrow> report list" where
  "session_report (Hook (OnSessionStarted _ _ sid)) = [Started sid]"
| "session_report (Hook (OnSessionStopped _ _ sid r)) = [Stopped sid r]"
| "session_report _ = []"

definition reports :: "controller \<Rightarrow> report list" where
  "reports c = concat (map session_report (ct_out c))"

definition abs_slot :: "controller \<Rightarrow> string option" where
  "abs_slot c = (if ct_current c = '''' then None else Some (ct_current c))"

lemma slot_append: "slot cur (xs @ ys) = Option.bind (slot cur xs) (\<lambda>c. slot c ys)"
  by (induction cur xs rule: slot.induct) simp_all

lemma reports_send [simp]: "reports (send m c) = reports c"
  by (simp add: reports_def send_def)

lemma reports_report [simp]:
  "reports (report h c) = reports c @
     (if ct_hooked c
      then session_report (Hook (h (inst_DeviceSerial (ct_inst c)) (inst_InstanceID (ct_inst c)))) else [])"
  by (simp add: reports_def report_def)

lemma reports_status [simp]: "reports (reportDeviceStatus c) = reports c"
  by (simp add: reportDeviceStatus_def)

lemma reports_cong: "ct_out c = ct_out c' \<Longrightarrow> reports c = reports c'"
  by (simp add: reports_def)

lemma reports_update [simp]:
  "reports (update_ctx k f c) = reports c" "reports (remove_session sid c) = reports c"
  by (simp_all add: reports_def)

lemma reports_upd [simp]:
  "reports (c\<lparr>ct_ctxs := h\<rparr>) = reports c" "reports (c\<lparr>ct_params := cp\<rparr>) = reports c"
  "reports (c\<lparr>ct_phase := p\<rparr>) = reports c" "reports (c\<lparr>ct_busy := b\<rparr>) = reports c"
  "reports (c\<lparr>ct_sessions := ss\<rparr>) = reports c" "reports (c\<lparr>ct_current := sid\<rparr>) = reports c"
  "reports (c\<lparr>ct_connected := b\<rparr>) = reports c" "reports (c\<lparr>ct_registeredAt := n\<rparr>) = reports c"
  "reports (c\<lparr>ct_quality := n\<rparr>) = reports c" "reports (c\<lparr>ct_next := k\<rparr>) = reports c"
  "reports (c\<lparr>ct_STUN := us\<rparr>) = reports c" "reports (c\<lparr>ct_TURN := tu\<rparr>) = reports c"
  "reports (c\<lparr>ct_stopped := b\<rparr>) = reports c" "reports (c\<lparr>ct_attempts := k\<rparr>) = reports c"
  by (simp_all add: reports_def)

section \<open>The invariant\<close>

definition reachable_ctx :: "sctx \<Rightarrow> bool" where
  "reachable_ctx s \<longleftrightarrow> (\<exists>q cfg stun turn i. sx_run (newSessionCtx q cfg stun turn i) s)"

lemma reachable_step: "reachable_ctx s \<Longrightarrow> sx_step s t \<Longrightarrow> reachable_ctx t"
  unfolding reachable_ctx_def by (meson run_step)

lemma reachable_new: "reachable_ctx (newSessionCtx q cfg stun turn i)"
  unfolding reachable_ctx_def by (meson run_refl)

definition ctxs_ok :: "controller \<Rightarrow> bool" where
  "ctxs_ok c \<longleftrightarrow>
     (\<forall>k < ct_next c. reachable_ctx (ct_ctxs c k)
        \<and> (k \<notin> snd ` set (ct_sessions c) \<longrightarrow> sx_stopped (ct_ctxs c k)))"

definition ct_inv :: "controller \<Rightarrow> bool" where
  "ct_inv c \<longleftrightarrow>
     ctxs_ok c
     \<and> (if ct_current c = '''' then ct_sessions c = []
        else \<exists>k < ct_next c. ct_sessions c = [(ct_current c, k)] \<and> \<not> sx_preempted (ct_ctxs c k))
     \<and> (ct_hooked c \<longrightarrow> slot None (reports c) = Some (abs_slot c))"

lemma ct_inv_cong:
  assumes "ct_sessions c = ct_sessions c'" "ct_ctxs c = ct_ctxs c'" "ct_next c = ct_next c'"
    "ct_current c = ct_current c'" "ct_hooked c = ct_hooked c'" "reports c = reports c'"
  shows "ct_inv c = ct_inv c'"
  using assms by (simp add: ct_inv_def ctxs_ok_def abs_slot_def)

lemma ct_inv_session:
  assumes "ct_inv c" "session_ctx c sid = Some k"
  shows "sid = ct_current c" "sid \<noteq> ''''" "ct_sessions c = [(sid, k)]" "k < ct_next c"
    "\<not> sx_preempted (ct_ctxs c k)"
  using assms by (auto simp: ct_inv_def session_ctx_def split: if_splits)

lemma ct_inv_no_session:
  assumes "ct_inv c" "session_ctx c (ct_current c) = None"
  shows "ct_current c = ''''" "ct_sessions c = []"
  using assms by (auto simp: ct_inv_def session_ctx_def split: if_splits)

text \<open>An update of one context by a step that leaves its flags alone.\<close>

lemma ct_inv_update:
  assumes "ct_inv c" "k < ct_next c" "sx_step (ct_ctxs c k) (f (ct_ctxs c k))"
    "sx_stopped (f (ct_ctxs c k)) = sx_stopped (ct_ctxs c k)"
    "sx_preempted (f (ct_ctxs c k)) = sx_preempted (ct_ctxs c k)"
  shows "ct_inv (update_ctx k f c)"
  using assms reachable_step [OF _ assms(3)]
  by (auto simp: ct_inv_def ctxs_ok_def abs_slot_def split: if_splits)

text \<open>The state after the only session ended.\<close>

lemma ct_inv_end:
  assumes inv: "ct_inv c" and k: "ct_sessions c = [(ct_current c, k)]"
    and c': "ct_sessions c' = []" "ct_current c' = ''''" "ct_next c' = ct_next c"
      "ct_hooked c' = ct_hooked c"
      "ct_ctxs c' = (ct_ctxs c)(k := s)" "reachable_ctx s" "sx_stopped s"
    and rep: "ct_hooked c \<longrightarrow> reports c' = reports c @ [Stopped (ct_current c) r]"
  shows "ct_inv c'"
proof -
  have "ct_current c \<noteq> ''''" using inv k by (auto simp: ct_inv_def split: if_splits)
  then show ?thesis
    using assms by (auto simp: ct_inv_def ctxs_ok_def abs_slot_def slot_append split: if_splits)
qed

lemma sx_preempted_cleanup [simp]: "sx_preempted (cleanup cfg s) = sx_preempted s"
  by (simp add: cleanup_def Let_def releasePeer_def core_fields(14) [OF core_out] split: option.splits)

lemma reachable_finish:
  assumes "reachable_ctx s" "sx_stopped s"
  shows "reachable_ctx (if sx_done s then s else (cleanup cfg s)\<lparr>sx_done := True\<rparr>)"
  using assms by (auto intro: reachable_step step_cleanup)

lemma reachable_stop: "reachable_ctx s \<Longrightarrow> reachable_ctx (s\<lparr>sx_stopped := True\<rparr>)"
  by (erule reachable_step) (rule step_stop)

lemma reachable_preempt: "reachable_ctx s \<Longrightarrow> reachable_ctx (s\<lparr>sx_preempted := True\<rparr>)"
  by (erule reachable_step) (rule step_preempt)

section \<open>The handlers keep the invariant\<close>

lemma ct_inv_preemptAndWait:
  assumes inv: "ct_inv c" and k: "session_ctx c sid = Some k"
  shows "ct_inv (preemptAndWait cfg fin k sid reason c)
    \<and> ct_current (preemptAndWait cfg fin k sid reason c) = ''''"
proof -
  note s = ct_inv_session [OF assms]
  define s1 where "s1 = (ct_ctxs c k)\<lparr>sx_preempted := True, sx_stopped := True\<rparr>"
  have r: "reachable_ctx (ct_ctxs c k)" using inv s(4) by (auto simp: ct_inv_def ctxs_ok_def)
  have r1: "reachable_ctx s1"
    using reachable_stop [OF reachable_preempt [OF r]] by (simp add: s1_def)
  define s2 where
    "s2 = (if fin then (if sx_done s1 then s1 else (cleanup cfg s1)\<lparr>sx_done := True\<rparr>) else s1)"
  have r2: "reachable_ctx s2" "sx_stopped s2"
    using r1 reachable_finish [OF r1, of cfg] by (auto simp: s2_def s1_def)
  let ?c' = "preemptAndWait cfg fin k sid reason c"
  have c': "ct_ctxs ?c' = (ct_ctxs c)(k := s2)" "ct_sessions ?c' = []" "ct_current ?c' = ''''"
      "ct_next ?c' = ct_next c" "ct_hooked ?c' = ct_hooked c"
      "ct_hooked c \<longrightarrow> reports ?c' = reports c @ [Stopped (ct_current c) reason]"
    using s(1,3) by (auto simp: preemptAndWait_def preempt_begin_def preempt_end_def Let_def
        stop_ctx_def finish_ctx_def s1_def s2_def)
  from inv s(1,3) c' r2 show ?thesis by (auto intro: ct_inv_end)
qed

lemma new_preempted: "\<not> sx_preempted (newSessionCtx q cfg stun turn i)"
  by (simp add: newSessionCtx_def)

lemma ct_inv_create:
  assumes "ct_inv c" "ct_current c = ''''" "sid \<noteq> ''''"
  shows "ct_inv (create_session cfg sid c)"
  using assms
  by (auto simp: create_session_def Let_def ct_inv_def ctxs_ok_def abs_slot_def slot_append
      reachable_new new_preempted less_Suc_eq)

lemma ct_inv_bound:
  assumes "ct_inv c" "ws_SessionID msg \<noteq> ct_current c"
  shows "ct_inv (snd (handleBound cfg fin msg c))"
proof -
  define c1 where "c1 = (case session_ctx c (ct_current c) of
      Some k \<Rightarrow> if ct_current c \<noteq> '''' \<and> ct_current c \<noteq> ws_SessionID msg
                 then preemptAndWait cfg fin k (ct_current c) ''forced'' c else c
    | None \<Rightarrow> c)"
  have "ct_inv c1 \<and> ct_current c1 = ''''"
  proof (cases "session_ctx c (ct_current c)")
    case None
    with assms ct_inv_no_session show ?thesis by (simp add: c1_def)
  next
    case (Some k)
    from ct_inv_session(2) [OF assms(1) Some] ct_inv_preemptAndWait [OF assms(1) Some] assms(2) Some
    show ?thesis by (simp add: c1_def)
  qed
  then have "ws_SessionID msg \<noteq> '''' \<Longrightarrow> ct_inv (create_session cfg (ws_SessionID msg) c1)"
    by (intro ct_inv_create) simp_all
  with assms(1) show ?thesis by (simp add: handleBound_def Let_def c1_def)
qed

lemma ct_inv_unbound:
  assumes inv: "ct_inv c" and c': "handleUnbound cfg fin msg c = Some c'"
  shows "ct_inv c'"
proof (cases "session_ctx c (ws_SessionID msg)")
  case None
  with assms show ?thesis by (auto simp: handleUnbound_def Let_def split: if_splits)
next
  case (Some k)
  note s = ct_inv_session [OF inv Some]
  define s1 where "s1 = (ct_ctxs c k)\<lparr>sx_stopped := True\<rparr>"
  define s2 where "s2 = (if sx_done s1 then s1 else (cleanup cfg s1)\<lparr>sx_done := True\<rparr>)"
  have "reachable_ctx s1" using inv s(4) by (auto simp: ct_inv_def ctxs_ok_def s1_def reachable_stop)
  then have r2: "reachable_ctx s2" "sx_stopped s2"
    using reachable_finish [of s1 cfg] by (auto simp: s2_def s1_def)
  have p: "\<not> sx_preempted s2" using s(5) by (simp add: s2_def s1_def)
  have k2: "ct_ctxs (finish_ctx cfg k (stop_ctx k c)) = (ct_ctxs c)(k := s2)"
    by (simp add: stop_ctx_def finish_ctx_def s1_def s2_def)
  have "c' = report (\<lambda>serial inst. OnSessionStopped serial inst (ws_SessionID msg) ''user_unbound'')
      (reportDeviceStatus (remove_session (ws_SessionID msg) (finish_ctx cfg k (stop_ctx k c))))"
    using c' s(2) p Some by (simp add: handleUnbound_def Let_def k2 split: if_splits)
  then have "ct_ctxs c' = (ct_ctxs c)(k := s2)" "ct_sessions c' = []" "ct_current c' = ''''"
      "ct_next c' = ct_next c" "ct_hooked c' = ct_hooked c"
      "ct_hooked c \<longrightarrow> reports c' = reports c @ [Stopped (ct_current c) ''user_unbound'']"
    using s by (simp_all add: k2) (simp_all add: stop_ctx_def finish_ctx_def)
  with inv s(1,3) r2 show ?thesis by (auto intro: ct_inv_end)
qed

lemma ct_inv_send: "ct_inv (send m c) = ct_inv c"
  by (rule ct_inv_cong) simp_all

lemma ct_inv_relay: "ct_inv c \<Longrightarrow> ct_inv (handle_relay cfg fin msg c)"
  using ct_inv_preemptAndWait
  by (auto simp: handle_relay_def Let_def handleRelayPreempt_def ct_inv_send split: option.split)

lemma ct_inv_ice: "ct_inv (handle_ice_servers msg c) = ct_inv c"
proof -
  have "ct_inv (ice_entry e c) = ct_inv c" for e c
    by (rule ct_inv_cong) (simp_all add: ice_entry_def)
  then have "ct_inv (fold ice_entry es c) = ct_inv c" for es c
    by (induction es arbitrary: c) simp_all
  moreover have "ct_inv (c\<lparr>ct_STUN := [], ct_TURN := None\<rparr>) = ct_inv c"
    by (rule ct_inv_cong) simp_all
  ultimately show ?thesis by (simp add: handle_ice_servers_def)
qed

lemma ct_inv_enqueue:
  assumes "ct_inv c" "session_ctx c sid = Some k"
  shows "ct_inv (update_ctx k (enqueue msg) c)"
  using assms ct_inv_session(4) [OF assms] by (intro ct_inv_update step_enqueue) (simp_all add: enqueue_def)

lemma ct_inv_route: "ct_inv c \<Longrightarrow> ct_inv (routeToSession msg c)"
  by (auto simp: routeToSession_def intro: ct_inv_enqueue split: option.splits)

lemma ct_inv_shutdown: 
  assumes inv: "ct_inv c"
  shows "ct_inv (shutdownAll c) \<and> ct_current (shutdownAll c) = ''''"
proof (cases "ct_sessions c")
  case Nil
  then have "ct_current c = ''''" using inv by (auto simp: ct_inv_def split: if_splits)
  with Nil inv show ?thesis
    by (auto simp: shutdownAll_def Let_def ct_inv_def ctxs_ok_def abs_slot_def)
next
  case (Cons x xs)
  then obtain k where k: "ct_sessions c = [(ct_current c, k)]" "k < ct_next c"
    using inv by (auto simp: ct_inv_def split: if_splits)
  let ?s = "(ct_ctxs c k)\<lparr>sx_stopped := True\<rparr>"
  have r: "reachable_ctx ?s" using inv k(2) by (auto simp: ct_inv_def ctxs_ok_def reachable_stop)
  have c': "ct_sessions (shutdownAll c) = []" "ct_current (shutdownAll c) = ''''"
      "ct_next (shutdownAll c) = ct_next c" "ct_hooked (shutdownAll c) = ct_hooked c"
      "ct_ctxs (shutdownAll c) = (ct_ctxs c)(k := ?s)"
      "ct_hooked c \<longrightarrow> reports (shutdownAll c) = reports c @ [Stopped (ct_current c) ''agent_stop'']"
    by (simp_all add: shutdownAll_def Let_def k(1) stop_ctx_def)
  from ct_inv_end [OF inv k(1) c'(1-5) r _ c'(6)] c'(2) show ?thesis by simp
qed

lemma ct_inv_down: "ct_inv (setSignalingDown err c) = ct_inv c"
  by (rule ct_inv_cong) (simp_all add: setSignalingDown_def)

lemma ct_inv_attempt_ends: "ct_inv (attempt_ends c) = ct_inv c"
  by (rule ct_inv_cong) (simp_all add: attempt_ends_def)

lemma ct_inv_run_once_ends: "ct_inv c \<Longrightarrow> ct_inv (run_once_ends c)"
  by (simp add: run_once_ends_def ct_inv_attempt_ends ct_inv_down ct_inv_shutdown)

lemma ct_inv_read:
  assumes "ct_inv c" "ws_Type msg = TypeBound \<Longrightarrow> ws_SessionID msg \<noteq> ct_current c"
    "read_msg cfg fin msg c = Some c'"
  shows "ct_inv c'"
proof (cases "ws_Type msg = TypeBound")
  case True
  obtain e b where b: "handleBound cfg fin msg c = (e, b)" by (cases "handleBound cfg fin msg c")
  have "ct_inv b" using ct_inv_bound [OF assms(1) assms(2) [OF True], of cfg fin] b by simp
  with assms(3) True b show ?thesis
    by (auto simp: read_msg_def ct_inv_run_once_ends split: option.splits)
next
  case False
  with assms show ?thesis
    by (auto simp: read_msg_def Let_def ct_inv_ice ct_inv_relay ct_inv_route ct_inv_unbound
        split: if_splits)
qed

lemma sx_preempted_ops [simp]:
  "sx_preempted (enqueue msg s) = sx_preempted s" "sx_preempted (control cv ty m s) = sx_preempted s"
  by (simp_all add: enqueue_def control_def core_fields(14) [OF core_sendCtrl] split: ctl_action.splits)

lemma ct_inv_stop: "ct_inv c \<Longrightarrow> ct_inv (Stop c)"
proof -
  assume inv: "ct_inv c"
  let ?c1 = "c\<lparr>ct_stopped := True, ct_phase := (case ct_phase c of Reading _ \<Rightarrow> Reading False | p \<Rightarrow> p)\<rparr>"
  have "ct_inv ?c1 = ct_inv c" by (rule ct_inv_cong) simp_all
  with inv have "ct_inv (shutdownAll ?c1)" using ct_inv_shutdown by blast
  then show "ct_inv (Stop c)"
    by (subst ct_inv_cong [of _ "shutdownAll ?c1"]) (simp_all add: Stop_def Let_def)
qed

lemma ct_inv_force: "ct_inv c \<Longrightarrow> ct_inv (snd (ForceCloseSession cfg fin sid reason c))"
  using ct_inv_preemptAndWait by (auto simp: ForceCloseSession_def split: option.splits)

lemma ct_inv_quality: "ct_inv c \<Longrightarrow> ct_inv (snd (SetQuality cfg level c))"
proof -
  assume inv: "ct_inv c"
  let ?c1 = "c\<lparr>ct_quality := tierBitrate cfg level\<rparr>"
  have "ct_inv ?c1 = ct_inv c" by (rule ct_inv_cong) simp_all
  with inv show ?thesis
    by (auto simp: SetQuality_def Let_def CurrentSession_def intro: ct_inv_enqueue split: option.splits)
qed

lemma ct_inv_control: "ct_inv c \<Longrightarrow> ct_inv (snd (SendControlRaw cv ty dat c))"
  by (auto simp: SendControlRaw_def CurrentSession_def
      intro!: ct_inv_update step_control dest: ct_inv_session(4) split: option.splits)

lemma absorb_fields [simp]:
  "ct_sessions (absorb e sid c) = ct_sessions c" "ct_ctxs (absorb e sid c) = ct_ctxs c"
  "ct_next (absorb e sid c) = ct_next c" "ct_current (absorb e sid c) = ct_current c"
  "ct_hooked (absorb e sid c) = ct_hooked c" "reports (absorb e sid c) = reports c"
  "ct_phase (absorb e sid c) = ct_phase c" "ct_stopped (absorb e sid c) = ct_stopped c"
  by (simp_all add: absorb_def split: sx_out.splits)

lemma absorb_all_fields [simp]:
  "ct_sessions (fold (\<lambda>e. absorb e sid) es c) = ct_sessions c"
  "ct_ctxs (fold (\<lambda>e. absorb e sid) es c) = ct_ctxs c"
  "ct_next (fold (\<lambda>e. absorb e sid) es c) = ct_next c"
  "ct_current (fold (\<lambda>e. absorb e sid) es c) = ct_current c"
  "ct_hooked (fold (\<lambda>e. absorb e sid) es c) = ct_hooked c"
  "reports (fold (\<lambda>e. absorb e sid) es c) = reports c"
  "ct_phase (fold (\<lambda>e. absorb e sid) es c) = ct_phase c"
  "ct_stopped (fold (\<lambda>e. absorb e sid) es c) = ct_stopped c"
  by (induction es arbitrary: c) simp_all

lemma ct_inv_ctx_moves:
  assumes "ct_inv c" "k < ct_next c" "sx_step (ct_ctxs c k) t"
    "sx_stopped t = sx_stopped (ct_ctxs c k)" "sx_preempted t = sx_preempted (ct_ctxs c k)"
  shows "ct_inv (ctx_moves k t c)"
proof -
  have "ct_inv (update_ctx k (\<lambda>_. t) c)" using assms by (intro ct_inv_update)
  then show ?thesis
    by (subst ct_inv_cong [of _ "update_ctx k (\<lambda>_. t) c"]) (simp_all add: ctx_moves_def Let_def)
qed

lemma ct_inv_step:
  assumes "ct_step c c'" "ct_inv c"
  shows "ct_inv c'"
  using assms
proof (induction rule: ct_step.induct)
  case (ct_dialed c unix_now)
  then show ?case
    by (subst ct_inv_cong [of _ c]) (simp_all add: dialed_def)
next
  case (ct_dial_failed c err)
  then show ?case by (simp add: dial_failed_def ct_inv_attempt_ends ct_inv_down)
next
  case (ct_read c msg cfg fin c')
  then show ?case using ct_inv_read by blast
next
  case (ct_wake c)
  then show ?case by (subst ct_inv_cong [of _ c]) simp_all
next
  case (ct_exit c stopped)
  then show ?case by (subst ct_inv_cong [of _ c]) simp_all
next
  case (ct_params c cp)
  then show ?case by (subst ct_inv_cong [of _ c]) simp_all
qed (auto intro: ct_inv_run_once_ends ct_inv_stop ct_inv_force ct_inv_quality ct_inv_control ct_inv_ctx_moves)

lemma ct_inv_new: "ct_inv (newController inst hooks cp)"
  by (simp add: ct_inv_def ctxs_ok_def newController_def abs_slot_def reports_def)

lemma ct_inv_run:
  assumes "ct_run (newController inst hooks cp) c"
  shows "ct_inv c"
  using assms ct_inv_new by (rule ct_run_inv) (rule ct_inv_step)


section \<open>The controller keeps the contract\<close>

text \<open>
  C2. The controller refines the slot.  In every interleaving of its loop, the platform's calls and
  the goroutines of its sessions (with each handler running to its end), the reported starts and
  stops alternate, every stop names the session that was started last, and the session the slot
  serves after them is the one the controller has; it never has a second one, so the limit of five
  is never reached.
\<close>

theorem controller_refines_slot:
  assumes "ct_run (newController inst hooks cp) c"
  shows "(ct_hooked c \<longrightarrow> slot None (reports c) = Some (abs_slot c))
    \<and> map fst (ct_sessions c) = (case abs_slot c of None \<Rightarrow> [] | Some sid \<Rightarrow> [sid])
    \<and> length (ct_sessions c) < maxSessions"
  using ct_inv_run [OF assms]
  by (auto simp: ct_inv_def abs_slot_def maxSessions_def split: if_splits)

text \<open>
  C6. No context is forgotten.  Every context the controller ever made and that is not the current
  session's has been told to stop; and once it has cleaned up, the scrcpy session it acquired, if
  any, has been handed back exactly once.
\<close>

theorem no_context_forgotten:
  assumes "ct_run (newController inst hooks cp) c" "k < ct_next c" "k \<notin> snd ` set (ct_sessions c)"
  shows "sx_stopped (ct_ctxs c k)
    \<and> (sx_done (ct_ctxs c k) \<longrightarrow>
         sx_session (ct_ctxs c k) = None \<and> gotten (ct_ctxs c k) = handed_back (ct_ctxs c k))"
proof -
  have inv: "reachable_ctx (ct_ctxs c k)" "sx_stopped (ct_ctxs c k)"
    using ct_inv_run [OF assms(1)] assms(2,3) by (auto simp: ct_inv_def ctxs_ok_def)
  then obtain q cfg stun turn i where "sx_run (newSessionCtx q cfg stun turn i) (ct_ctxs c k)"
    by (auto simp: reachable_ctx_def)
  from new_run_inv [OF this] inv(2) show ?thesis by (auto simp: balance_def sx_wf_def)
qed

text \<open>A concrete run: the agent connects, a browser is bound, another takes over.\<close>

definition bound_msg :: "string \<Rightarrow> WsMsg" where
  "bound_msg sid = (msg_of_type TypeBound)\<lparr>ws_SessionID := sid\<rparr>"

definition demo_ct :: controller where
  "demo_ct = newController \<lparr>inst_InstanceID = ''cloud1'', inst_DeviceSerial = ''dev1''\<rparr> True
     zero_ConnectParams"

definition demo_bound :: "string \<Rightarrow> controller \<Rightarrow> controller" where
  "demo_bound sid c = snd (handleBound demo_cfg True (bound_msg sid) c)"

lemma read_bound: "read_msg cfg fin (bound_msg sid) c =
    (case handleBound cfg fin (bound_msg sid) c of
       (None, c') \<Rightarrow> Some c' | (Some e, c') \<Rightarrow> Some (run_once_ends c'))"
  by (simp add: read_msg_def bound_msg_def msg_of_type_def)

lemma bound_msg_id [simp]: "ws_SessionID (bound_msg sid) = sid"
  by (simp add: bound_msg_def)

lemma handleBound_ok:
  assumes "sid \<noteq> ''''" "length (ct_sessions c) < maxSessions"
  shows "fst (handleBound cfg fin (bound_msg sid) c) = None"
  using assms by (simp add: handleBound_def Let_def)

lemma demo_bound_run:
  assumes "ct_run demo_ct c" "ct_phase c = Reading True" "sid \<noteq> ''''" "sid \<noteq> ct_current c"
  shows "ct_run demo_ct (demo_bound sid c)"
proof (rule ct_more [OF assms(1)])
  have "ct_inv c" using assms(1) unfolding demo_ct_def by (rule ct_inv_run)
  then have "length (ct_sessions c) < maxSessions"
    by (auto simp: ct_inv_def maxSessions_def split: if_splits)
  then have "fst (handleBound demo_cfg True (bound_msg sid) c) = None"
    using assms(3) by (rule handleBound_ok [rotated])
  then have "read_msg demo_cfg True (bound_msg sid) c = Some (demo_bound sid c)"
    by (cases "handleBound demo_cfg True (bound_msg sid) c") (simp add: read_bound demo_bound_def)
  then show "ct_step c (demo_bound sid c)"
    using assms(2,4) by (intro ct_read) simp_all
qed

definition demo_ct1 :: controller where "demo_ct1 = demo_bound ''s1'' (dialed 100 demo_ct)"
definition demo_ct2 :: controller where "demo_ct2 = demo_bound ''s2'' demo_ct1"

lemmas ct_eval = demo_bound_def handleBound_def Let_def create_session_def session_ctx_def
  preemptAndWait_def preempt_begin_def preempt_end_def stop_ctx_def finish_ctx_def maxSessions_def

lemma demo_ct0 [simp]:
  "ct_sessions (dialed 100 demo_ct) = []" "ct_current (dialed 100 demo_ct) = ''''"
  "ct_next (dialed 100 demo_ct) = 0" "ct_phase (dialed 100 demo_ct) = Reading True"
  "ct_hooked (dialed 100 demo_ct)"
  by (simp_all add: dialed_def demo_ct_def newController_def)

lemma demo_ct1_fields [simp]:
  "ct_sessions demo_ct1 = [(''s1'', 0)]" "ct_current demo_ct1 = ''s1''" "ct_next demo_ct1 = 1"
  "ct_phase demo_ct1 = Reading True" "ct_hooked demo_ct1"
  by (simp_all add: demo_ct1_def ct_eval)

lemma demo_ct2_fields [simp]:
  "ct_sessions demo_ct2 = [(''s2'', 1)]" "ct_current demo_ct2 = ''s2''" "ct_next demo_ct2 = 2"
  "ct_hooked demo_ct2"
  by (simp_all add: demo_ct2_def ct_eval)

lemma demo_ct1_run: "ct_run demo_ct demo_ct1"
proof -
  have "ct_run demo_ct (dialed 100 demo_ct)"
    by (rule ct_more [OF ct_refl ct_dialed]) (simp add: demo_ct_def newController_def)
  then show ?thesis unfolding demo_ct1_def by (rule demo_bound_run) simp_all
qed

lemma demo_ct2_run: "ct_run demo_ct demo_ct2"
  unfolding demo_ct2_def by (rule demo_bound_run [OF demo_ct1_run]) simp_all

theorem controller_refines_slot_witness:
  "slot None (reports demo_ct2) = Some (Some ''s2'')"
  using controller_refines_slot [OF demo_ct2_run [unfolded demo_ct_def]] by (simp add: abs_slot_def)

theorem no_context_forgotten_witness: "sx_stopped (ct_ctxs demo_ct2 0)"
  using no_context_forgotten [OF demo_ct2_run [unfolded demo_ct_def], of 0] by simp

section \<open>Stopping a controller\<close>

lemma shutdown_fields [simp]:
  "ct_sessions (shutdownAll c) = []" "ct_current (shutdownAll c) = ''''"
  "ct_next (shutdownAll c) = ct_next c" "ct_hooked (shutdownAll c) = ct_hooked c"
  "ct_phase (shutdownAll c) = ct_phase c" "ct_stopped (shutdownAll c) = ct_stopped c"
proof -
  have 1: "ct_next (fold (\<lambda>(sid, k). stop_ctx k) ss c) = ct_next c"
    "ct_hooked (fold (\<lambda>(sid, k). stop_ctx k) ss c) = ct_hooked c"
    "ct_phase (fold (\<lambda>(sid, k). stop_ctx k) ss c) = ct_phase c"
    "ct_stopped (fold (\<lambda>(sid, k). stop_ctx k) ss c) = ct_stopped c" for ss c
    by (induction ss arbitrary: c) (auto simp: stop_ctx_def)
  have 2: "ct_sessions (fold (\<lambda>(sid, k). report (h sid)) ss c) = ct_sessions c"
    "ct_current (fold (\<lambda>(sid, k). report (h sid)) ss c) = ct_current c"
    "ct_next (fold (\<lambda>(sid, k). report (h sid)) ss c) = ct_next c"
    "ct_hooked (fold (\<lambda>(sid, k). report (h sid)) ss c) = ct_hooked c"
    "ct_phase (fold (\<lambda>(sid, k). report (h sid)) ss c) = ct_phase c"
    "ct_stopped (fold (\<lambda>(sid, k). report (h sid)) ss c) = ct_stopped c" for ss c and h :: "string \<Rightarrow> _"
    by (induction ss arbitrary: c) auto
  show "ct_sessions (shutdownAll c) = []" "ct_current (shutdownAll c) = ''''"
    "ct_next (shutdownAll c) = ct_next c" "ct_hooked (shutdownAll c) = ct_hooked c"
    "ct_phase (shutdownAll c) = ct_phase c" "ct_stopped (shutdownAll c) = ct_stopped c"
    by (simp_all add: shutdownAll_def Let_def 1 2)
qed

lemma run_once_ends_fields [simp]:
  "ct_sessions (run_once_ends c) = []" "ct_current (run_once_ends c) = ''''"
  "ct_next (run_once_ends c) = ct_next c" "ct_stopped (run_once_ends c) = ct_stopped c"
  "ct_phase (run_once_ends c) = Sleeping (ct_stopped c)"
  by (simp_all add: run_once_ends_def attempt_ends_def setSignalingDown_def)

lemma Stop_fields [simp]:
  "ct_sessions (Stop c) = []" "ct_current (Stop c) = ''''" "ct_next (Stop c) = ct_next c"
  "ct_stopped (Stop c)" "ct_hooked (Stop c) = ct_hooked c"
  "ct_phase (Stop c) = (case ct_phase c of Reading _ \<Rightarrow> Reading False | p \<Rightarrow> p)"
  by (simp_all add: Stop_def Let_def)

definition stopped_for_good :: "nat \<Rightarrow> controller \<Rightarrow> bool" where
  "stopped_for_good n c \<longleftrightarrow>
     ct_stopped c \<and> ct_sessions c = [] \<and> ct_next c = n
     \<and> ct_phase c \<in> {Reading False, Sleeping True, Exited}"

lemma no_session [simp]: "ct_sessions c = [] \<Longrightarrow> session_ctx c sid = None"
  by (simp add: session_ctx_def)

lemma stopped_for_good_step:
  assumes "ct_step c c'" "stopped_for_good n c"
  shows "stopped_for_good n c'"
  using assms
  by (induction rule: ct_step.induct)
    (auto simp: stopped_for_good_def ForceCloseSession_def SetQuality_def SendControlRaw_def
      CurrentSession_def Let_def ctx_moves_def)

text \<open>
  \<open>Stop\<close> is final when the controller reads from an open connection or has returned: whatever
  messages arrive and whatever is called afterwards, no session exists and none is ever created,
  and the loop can only go to its end.
\<close>

theorem stop_is_final:
  assumes "ct_phase c = Reading up \<or> ct_phase c = Exited" "ct_run (Stop c) c'"
  shows "ct_stopped c' \<and> ct_sessions c' = [] \<and> ct_next c' = ct_next c
    \<and> ct_phase c' \<in> {Reading False, Sleeping True, Exited}"
proof -
  have "stopped_for_good (ct_next c) (Stop c)"
    using assms(1) by (auto simp: stopped_for_good_def)
  with assms(2) have "stopped_for_good (ct_next c) c'"
    by (rule ct_run_inv) (rule stopped_for_good_step)
  then show ?thesis by (simp add: stopped_for_good_def)
qed

theorem stop_is_final_witness:
  "ct_sessions (run_once_ends (Stop demo_ct1)) = [] \<and> ct_next (run_once_ends (Stop demo_ct1)) = 1"
  using stop_is_final [of demo_ct1 True, OF _ ct_more [OF ct_refl ct_read_failed, of "Stop demo_ct1" False]]
  by simp

text \<open>
  A stop while the controller dials has no effect.  \<open>Stop\<close> closes the connection it finds, and
  nothing looks at \<open>stopChan\<close> before the loop reads: when the connection is there, the released
  device is reported connected, and the next browser that is bound gets a session.
\<close>

theorem stop_during_dial_ignored:
  assumes "ct_phase c = Dialing" "sid \<noteq> ''''"
  shows "case read_msg cfg fin (bound_msg sid) (dialed now (Stop c)) of
      None \<Rightarrow> False
    | Some c' \<Rightarrow> ct_stopped c' \<and> ct_connected c' \<and> ct_phase c' = Reading True \<and> ct_current c' = sid
        \<and> ct_sessions c' = [(sid, ct_next c)]
        \<and> (ct_hooked c \<longrightarrow> last (reports c') = Started sid)"
  using assms
  by (simp add: read_bound dialed_def handleBound_def Let_def create_session_def maxSessions_def)

theorem stop_during_dial_ignored_witness:
  "case read_msg demo_cfg True (bound_msg ''s9'') (dialed 100 (Stop demo_ct)) of
     None \<Rightarrow> False | Some c' \<Rightarrow> ct_stopped c' \<and> ct_current c' = ''s9''"
  using stop_during_dial_ignored [of demo_ct "''s9''" demo_cfg True 100]
  by (auto simp: demo_ct_def newController_def split: option.splits)

section \<open>Overlapping ends of a session\<close>

text \<open>
  C40. \<open>ForceCloseSession\<close> runs on its caller's goroutine and waits for up to ten seconds.  When the
  next browser is bound in that time, the loop preempts the same session once more: its end is
  reported twice, and when the waiting call finishes last, the device counts as idle although it
  serves the new browser, whose peer is connected.
\<close>

theorem force_close_overlaps_bound:
  assumes "ct_inv c" "session_ctx c sid = Some k" "ct_hooked c" "new \<noteq> ''''" "new \<noteq> sid"
  shows "let c1 = preempt_begin k sid c;
             c2 = snd (handleBound cfg fin (bound_msg new) c1);
             c3 = absorb DeviceBusy new c2;
             c4 = preempt_end sid reason c3
         in reports c4 = reports c @ [Stopped sid ''forced'', Started new, Stopped sid reason]
            \<and> slot None (reports c4) = None
            \<and> ct_busy c3 \<and> \<not> ct_busy c4 \<and> ct_current c4 = new"
proof -
  note s = ct_inv_session [OF assms(1,2)]
  have abs: "slot None (reports c) = Some (Some sid)"
    using assms(1,3) s(1,2) by (simp add: ct_inv_def abs_slot_def)
  show ?thesis
    using assms s by (simp add: Let_def preempt_begin_def preempt_end_def stop_ctx_def handleBound_def
        session_ctx_def preemptAndWait_def finish_ctx_def create_session_def maxSessions_def
        absorb_def slot_append abs del: fun_upd_apply)
qed

theorem force_close_overlaps_bound_witness:
  "let c1 = preempt_begin 0 ''s1'' demo_ct1;
       c2 = snd (handleBound demo_cfg True (bound_msg ''s2'') c1);
       c4 = preempt_end ''s1'' ''kick'' (absorb DeviceBusy ''s2'' c2)
   in slot None (reports c4) = None \<and> \<not> ct_busy c4 \<and> ct_current c4 = ''s2''"
  using force_close_overlaps_bound
      [OF ct_inv_run [OF demo_ct1_run [unfolded demo_ct_def]], of "''s1''" 0 "''s2''" demo_cfg True "''kick''"]
  by (auto simp: Let_def session_ctx_def)

end
