(* ===== verification/DeviceManager.thy ===== *)
theory DeviceManager
  imports Controller
begin

text \<open>
  \<open>agent/devicemanager.go\<close>: the devices under management, each with its controller while it is
  prepared.  The state also holds what the manager's operations reach: the configuration store and
  the heap of controllers.

  A controller's \<open>gateway.Manager\<close> and its adb client are made from the configuration at the time
  the controller is made (\<open>newController\<close>); they are the other two fields of \<open>device\<close>.  \<open>Release\<close>
  and \<open>Reset\<close> hold the lock for their first part only and are modelled in two parts.  The port pool
  is shared by reference and belongs to the host.
\<close>

section \<open>State\<close>

record device =
  dv_ctrl :: controller
  dv_adb_path :: string
  dv_scrcpy :: ScrcpyConfig

record deviceEntry =
  de_serial :: string
  de_instanceID :: string
  de_ctrl :: "nat option"
  de_configured :: bool

record dms =
  dm_devices :: "(string \<times> deviceEntry) list"
  dm_store :: ConfigStore
  dm_heap :: "nat \<Rightarrow> device"
  dm_next :: nat
  dm_log :: "hook list"

record DeviceView =
  vw_InstanceID :: string
  vw_Serial :: string
  vw_Busy :: bool
  vw_CurrentSessionID :: string
  vw_ConnectedSeconds :: int
  vw_SignalingConnected :: bool
  vw_Configured :: bool

section \<open>Operations\<close>

definition entry_of :: "string \<Rightarrow> 'a dms_scheme \<Rightarrow> deviceEntry option" where
  "entry_of serial s = map_of (dm_devices s) serial"

definition set_entry :: "deviceEntry \<Rightarrow> 'a dms_scheme \<Rightarrow> 'a dms_scheme" where
  "set_entry e s = s\<lparr>dm_devices := AList.update (de_serial e) e (dm_devices s)\<rparr>"

definition set_overrides :: "string \<Rightarrow> DeviceConfig option \<Rightarrow> 'a dms_scheme \<Rightarrow> 'a dms_scheme" where
  "set_overrides serial d s = s\<lparr>dm_store := SetDeviceOverrides serial d (dm_store s)\<rparr>"

definition emit :: "hook \<Rightarrow> 'a dms_scheme \<Rightarrow> 'a dms_scheme" where
  "emit h s = s\<lparr>dm_log := dm_log s @ [h]\<rparr>"

text \<open>\<open>newController\<close>; \<open>None\<close> is the panic when there is no global configuration.\<close>

definition new_device ::
  "string \<Rightarrow> string \<Rightarrow> ConnectParams \<Rightarrow> ConfigStore \<Rightarrow> device option" where
  "new_device serial instanceID cp store =
     (case ForDevice serial store of
        None \<Rightarrow> None
      | Some cfg \<Rightarrow> Some \<lparr>
          dv_ctrl = newController \<lparr>inst_InstanceID = instanceID, inst_DeviceSerial = serial\<rparr> True cp,
          dv_adb_path = ac_ADBPath cfg, dv_scrcpy = ac_Scrcpy cfg\<rparr>)"

definition Prepare ::
  "string \<Rightarrow> string \<Rightarrow> DeviceConfig option \<Rightarrow> ConnectParams \<Rightarrow> 'a dms_scheme \<Rightarrow> 'a dms_scheme option" where
  "Prepare serial instanceID devCfg cp s =
     (let e0 = (case entry_of serial s of
                  Some e \<Rightarrow> e
                | None \<Rightarrow> \<lparr>de_serial = serial, de_instanceID = '''', de_ctrl = None, de_configured = False\<rparr>);
          e1 = e0\<lparr>de_instanceID := instanceID, de_configured := True\<rparr>;
          s1 = set_overrides serial devCfg s;
          done = (\<lambda>e s. Some (emit (OnDeviceStatus serial instanceID False) (set_entry e s)))
      in case de_ctrl e1 of
           None \<Rightarrow>
             (case new_device serial instanceID cp (dm_store s1) of
                None \<Rightarrow> None
              | Some d \<Rightarrow>
                  let k = dm_next s1
                  in done (e1\<lparr>de_ctrl := Some k\<rparr>)
                       (s1\<lparr>dm_heap := (dm_heap s1)(k := d), dm_next := Suc k\<rparr>))
         | Some k \<Rightarrow>
             let d = dm_heap s1 k
             in done e1 (s1\<lparr>dm_heap := (dm_heap s1)(k :=
                  d\<lparr>dv_ctrl := (dv_ctrl d)\<lparr>ct_params := cp\<rparr>\<rparr>)\<rparr>))"

text \<open>Outside the lock: the overrides are cleared and the controller, if any, is stopped.\<close>

definition stop_ctrl :: "nat option \<Rightarrow> 'a dms_scheme \<Rightarrow> 'a dms_scheme" where
  "stop_ctrl ctrl s =
     (case ctrl of
        None \<Rightarrow> s
      | Some k \<Rightarrow>
          let d = dm_heap s k in s\<lparr>dm_heap := (dm_heap s)(k := d\<lparr>dv_ctrl := Stop (dv_ctrl d)\<rparr>)\<rparr>)"

definition drop_device :: "string \<Rightarrow> nat option \<Rightarrow> 'a dms_scheme \<Rightarrow> 'a dms_scheme" where
  "drop_device serial ctrl s = stop_ctrl ctrl (set_overrides serial None s)"

definition release_locked :: "string \<Rightarrow> 'a dms_scheme \<Rightarrow> (deviceEntry \<times> 'a dms_scheme) option" where
  "release_locked serial s =
     (case entry_of serial s of
        None \<Rightarrow> None
      | Some e \<Rightarrow> Some (e, s\<lparr>dm_devices := AList.delete serial (dm_devices s)\<rparr>))"

definition release_rest :: "string \<Rightarrow> string \<Rightarrow> deviceEntry \<Rightarrow> 'a dms_scheme \<Rightarrow> 'a dms_scheme" where
  "release_rest serial reason e s =
     emit (OnDeviceReleased serial (de_instanceID e) reason) (drop_device serial (de_ctrl e) s)"

definition ReleaseDevice :: "string \<Rightarrow> string \<Rightarrow> 'a dms_scheme \<Rightarrow> string option \<times> 'a dms_scheme" where
  "ReleaseDevice serial reason s =
     (case release_locked serial s of
        None \<Rightarrow> (Some ''device not found'', s)
      | Some (e, s1) \<Rightarrow> (None, release_rest serial reason e s1))"

definition reset_locked :: "string \<Rightarrow> 'a dms_scheme \<Rightarrow> (deviceEntry \<times> 'a dms_scheme) option" where
  "reset_locked serial s =
     (case entry_of serial s of
        None \<Rightarrow> None
      | Some e \<Rightarrow> Some (e, set_entry (e\<lparr>de_configured := False, de_ctrl := None\<rparr>) s))"

definition reset_rest :: "string \<Rightarrow> string \<Rightarrow> deviceEntry \<Rightarrow> 'a dms_scheme \<Rightarrow> 'a dms_scheme" where
  "reset_rest serial reason e s =
     emit (OnDeviceReset serial (de_instanceID e) reason) (drop_device serial (de_ctrl e) s)"

definition ResetDevice :: "string \<Rightarrow> string \<Rightarrow> 'a dms_scheme \<Rightarrow> string option \<times> 'a dms_scheme" where
  "ResetDevice serial reason s =
     (case reset_locked serial s of
        None \<Rightarrow> (Some ''device not found'', s)
      | Some (e, s1) \<Rightarrow> (None, reset_rest serial reason e s1))"

definition device_view :: "time \<Rightarrow> 'a dms_scheme \<Rightarrow> deviceEntry \<Rightarrow> DeviceView" where
  "device_view unix_now s e =
     (let v = \<lparr>vw_InstanceID = de_instanceID e, vw_Serial = de_serial e, vw_Busy = False,
               vw_CurrentSessionID = '''', vw_ConnectedSeconds = 0, vw_SignalingConnected = False,
               vw_Configured = de_configured e\<rparr>
      in case de_ctrl e of
           None \<Rightarrow> v
         | Some k \<Rightarrow>
             let c = dv_ctrl (dm_heap s k)
             in v\<lparr>vw_Busy := ct_busy c, vw_CurrentSessionID := ct_current c,
                  vw_ConnectedSeconds := ConnectedSeconds unix_now c,
                  vw_SignalingConnected := ct_connected c\<rparr>)"

definition ListDevices :: "time \<Rightarrow> 'a dms_scheme \<Rightarrow> DeviceView list" where
  "ListDevices unix_now s = map (device_view unix_now s \<circ> snd) (dm_devices s)"

definition Get :: "string \<Rightarrow> 'a dms_scheme \<Rightarrow> nat option" where
  "Get serial s = (case entry_of serial s of None \<Rightarrow> None | Some e \<Rightarrow> de_ctrl e)"

fun find_session :: "(string \<times> deviceEntry) list \<Rightarrow> string \<Rightarrow> (nat \<Rightarrow> device) \<Rightarrow> nat option" where
  "find_session [] sid heap = None"
| "find_session ((_, e) # r) sid heap =
     (case de_ctrl e of
        None \<Rightarrow> find_session r sid heap
      | Some k \<Rightarrow> if ct_current (dv_ctrl (heap k)) = sid then Some k else find_session r sid heap)"

definition GetBySessionID :: "string \<Rightarrow> 'a dms_scheme \<Rightarrow> nat option" where
  "GetBySessionID sid s =
     (if sid = '''' then None else find_session (dm_devices s) sid (dm_heap s))"

text \<open>\<open>StopAll\<close>: the entries under the lock, then the controllers it collected.\<close>

definition stop_all_locked :: "'a dms_scheme \<Rightarrow> nat list \<times> 'a dms_scheme" where
  "stop_all_locked s =
     (let ctrls = concat (map (\<lambda>(_, e). case de_ctrl e of None \<Rightarrow> [] | Some k \<Rightarrow> [k]) (dm_devices s));
          devices = map (\<lambda>(serial, e). (serial, e\<lparr>de_ctrl := None, de_configured := False\<rparr>)) (dm_devices s)
      in (ctrls, fold (\<lambda>(serial, e). set_overrides (de_serial e) None) (dm_devices s)
                   (s\<lparr>dm_devices := devices\<rparr>)))"

definition StopAll :: "'a dms_scheme \<Rightarrow> 'a dms_scheme" where
  "StopAll s = (let (ctrls, s1) = stop_all_locked s in fold (\<lambda>k. stop_ctrl (Some k)) ctrls s1)"

section \<open>Simplification\<close>

lemma entry_set_entry [simp]:
  "entry_of x (set_entry e s) = (if x = de_serial e then Some e else entry_of x s)"
  by (simp add: entry_of_def set_entry_def AList.update_conv')

lemma set_entry_fields [simp]:
  "dm_store (set_entry e s) = dm_store s" "dm_heap (set_entry e s) = dm_heap s"
  "dm_next (set_entry e s) = dm_next s"
  "distinct (map fst (dm_devices s)) \<Longrightarrow> distinct (map fst (dm_devices (set_entry e s)))"
  by (simp_all add: set_entry_def AList.distinct_update)

lemma overrides_fields [simp]:
  "dm_devices (set_overrides x d s) = dm_devices s" "dm_heap (set_overrides x d s) = dm_heap s"
  "dm_next (set_overrides x d s) = dm_next s" "entry_of y (set_overrides x d s) = entry_of y s"
  "dm_store (set_overrides x d s) = SetDeviceOverrides x d (dm_store s)"
  by (simp_all add: set_overrides_def entry_of_def)

lemma emit_fields [simp]:
  "dm_devices (emit h s) = dm_devices s" "dm_heap (emit h s) = dm_heap s"
  "dm_next (emit h s) = dm_next s" "dm_store (emit h s) = dm_store s"
  "entry_of x (emit h s) = entry_of x s"
  by (simp_all add: emit_def entry_of_def)

lemma stop_ctrl_fields [simp]:
  "dm_devices (stop_ctrl c s) = dm_devices s" "dm_next (stop_ctrl c s) = dm_next s"
  "dm_store (stop_ctrl c s) = dm_store s" "entry_of x (stop_ctrl c s) = entry_of x s"
  by (simp_all add: stop_ctrl_def Let_def entry_of_def split: option.splits)

lemma Stop_inst [simp]: "ct_inst (Stop c) = ct_inst c"
proof -
  have 1: "ct_inst (fold (\<lambda>(sid, k). stop_ctx k) ss c) = ct_inst c" for ss c
    by (induction ss arbitrary: c) (auto simp: stop_ctx_def)
  have 2: "ct_inst (fold (\<lambda>(sid, k). report (h sid)) ss c) = ct_inst c" for ss c and h :: "string \<Rightarrow> _"
    by (induction ss arbitrary: c) auto
  show ?thesis by (simp add: Stop_def Let_def shutdownAll_def 1 2)
qed

lemma stop_ctrl_heap [simp]:
  "ct_stopped (dv_ctrl (dm_heap (stop_ctrl c s) k)) \<longleftrightarrow> c = Some k \<or> ct_stopped (dv_ctrl (dm_heap s k))"
  "ct_inst (dv_ctrl (dm_heap (stop_ctrl c s) k)) = ct_inst (dv_ctrl (dm_heap s k))"
  by (auto simp: stop_ctrl_def Let_def split: option.splits)

lemma drop_device_fields [simp]:
  "dm_devices (drop_device x c s) = dm_devices s" "dm_next (drop_device x c s) = dm_next s"
  "dm_store (drop_device x c s) = SetDeviceOverrides x None (dm_store s)"
  "entry_of y (drop_device x c s) = entry_of y s"
  "ct_stopped (dv_ctrl (dm_heap (drop_device x c s) k)) \<longleftrightarrow> c = Some k \<or> ct_stopped (dv_ctrl (dm_heap s k))"
  "ct_inst (dv_ctrl (dm_heap (drop_device x c s) k)) = ct_inst (dv_ctrl (dm_heap s k))"
  by (simp_all add: drop_device_def)

lemma new_controller_fields [simp]:
  "\<not> ct_stopped (newController inst h cp)" "ct_inst (newController inst h cp) = inst"
  by (simp_all add: newController_def)

section \<open>The devices and their controllers\<close>

definition ctrl_serial :: "'a dms_scheme \<Rightarrow> nat \<Rightarrow> string" where
  "ctrl_serial s k = inst_DeviceSerial (ct_inst (dv_ctrl (dm_heap s k)))"

definition ctrl_stopped :: "'a dms_scheme \<Rightarrow> nat \<Rightarrow> bool" where
  "ctrl_stopped s k = ct_stopped (dv_ctrl (dm_heap s k))"

text \<open>
  Every entry belongs to its serial, and is configured exactly when it has a controller, which is
  that serial's and was not stopped; every other controller ever made has been stopped; and only
  devices with a controller have overrides.  The invariant is stated on the entries \<open>E\<close>, the
  serials \<open>S\<close> of the controllers, the stopped ones \<open>T\<close>, their number, and the overrides.
\<close>

definition ok_entry :: "(nat \<Rightarrow> string) \<Rightarrow> (nat \<Rightarrow> bool) \<Rightarrow> nat \<Rightarrow> string \<Rightarrow> deviceEntry \<Rightarrow> bool" where
  "ok_entry S T n x e \<longleftrightarrow> de_serial e = x \<and> (de_configured e \<longleftrightarrow> de_ctrl e \<noteq> None)
     \<and> (case de_ctrl e of None \<Rightarrow> True | Some k \<Rightarrow> k < n \<and> S k = x \<and> \<not> T k)"

definition has_ctrl :: "(string \<rightharpoonup> deviceEntry) \<Rightarrow> string \<Rightarrow> nat option" where
  "has_ctrl E x = (case E x of None \<Rightarrow> None | Some e \<Rightarrow> de_ctrl e)"

definition dm_ok ::
  "(string \<rightharpoonup> deviceEntry) \<Rightarrow> (nat \<Rightarrow> string) \<Rightarrow> (nat \<Rightarrow> bool) \<Rightarrow> nat \<Rightarrow> (string \<rightharpoonup> DeviceConfig) \<Rightarrow> bool" where
  "dm_ok E S T n over \<longleftrightarrow>
     (\<forall>x e. E x = Some e \<longrightarrow> ok_entry S T n x e)
     \<and> (\<forall>k < n. T k \<or> has_ctrl E (S k) = Some k)
     \<and> (\<forall>x. over x \<noteq> None \<longrightarrow> has_ctrl E x \<noteq> None)"

definition dm_inv :: "'a dms_scheme \<Rightarrow> bool" where
  "dm_inv s \<longleftrightarrow> distinct (map fst (dm_devices s))
     \<and> dm_ok (map_of (dm_devices s)) (ctrl_serial s) (ctrl_stopped s) (dm_next s) (cs_device (dm_store s))"

lemma has_ctrl_upd [simp]:
  "has_ctrl (E(x \<mapsto> e)) y = (if y = x then de_ctrl e else has_ctrl E y)"
  "has_ctrl (E(x := None)) y = (if y = x then None else has_ctrl E y)"
  by (simp_all add: has_ctrl_def)

lemma ok_has_ctrl:
  assumes "dm_ok E S T n over" "has_ctrl E x = Some k"
  shows "k < n" "S k = x" "\<not> T k"
  using assms by (auto simp: dm_ok_def has_ctrl_def ok_entry_def split: option.splits)

lemma dm_okI:
  assumes "\<And>x e. E x = Some e \<Longrightarrow> ok_entry S T n x e"
    and "\<And>k. k < n \<Longrightarrow> \<not> T k \<Longrightarrow> has_ctrl E (S k) = Some k"
    and "\<And>x. over x \<noteq> None \<Longrightarrow> has_ctrl E x \<noteq> None"
  shows "dm_ok E S T n over"
  using assms unfolding dm_ok_def by blast

lemma dm_okD:
  assumes "dm_ok E S T n over"
  shows "E x = Some e \<Longrightarrow> ok_entry S T n x e"
    and "k < n \<Longrightarrow> \<not> T k \<Longrightarrow> has_ctrl E (S k) = Some k"
    and "over x \<noteq> None \<Longrightarrow> has_ctrl E x \<noteq> None"
  using assms unfolding dm_ok_def by blast+

lemma ok_entry_mono:
  assumes "ok_entry S T n x e" "\<And>k. k < n \<Longrightarrow> S' k = S k" "\<And>k. de_ctrl e = Some k \<Longrightarrow> T' k = T k" "n \<le> n'"
  shows "ok_entry S' T' n' x e"
  using assms by (auto simp: ok_entry_def split: option.splits)

lemma ok_new:
  assumes ok: "dm_ok E S T n over" and x: "has_ctrl E x = None"
    and e: "de_serial e = x" "de_configured e" "de_ctrl e = Some n"
    and ST: "\<And>k. k < n \<Longrightarrow> T' k = T k" "\<And>k. k < n \<Longrightarrow> S' k = S k" "\<not> T' n" "S' n = x"
  shows "dm_ok (E(x \<mapsto> e)) S' T' (Suc n) (over(x := d))"
proof (rule dm_okI)
  fix y e' assume y: "(E(x \<mapsto> e)) y = Some e'"
  show "ok_entry S' T' (Suc n) y e'"
  proof (cases "y = x")
    case True
    with y e ST show ?thesis by (simp add: ok_entry_def)
  next
    case False
    with y have e': "E y = Some e'" by simp
    then have "de_ctrl e' = Some k \<Longrightarrow> k < n" for k
      using ok_has_ctrl(1) [OF ok, of y k] by (simp add: has_ctrl_def)
    then have "T' k = T k" if "de_ctrl e' = Some k" for k
      using that ST(1) by blast
    then show ?thesis
      by (intro ok_entry_mono [OF dm_okD(1) [OF ok e']]) (simp_all add: ST)
  qed
next
  fix k assume k: "k < Suc n" "\<not> T' k"
  show "has_ctrl (E(x \<mapsto> e)) (S' k) = Some k"
  proof (cases "k = n")
    case True
    with e ST show ?thesis by simp
  next
    case False
    with k have "k < n" by simp
    with k ST have h: "has_ctrl E (S k) = Some k" using dm_okD(2) [OF ok] by simp
    with x have "S k \<noteq> x" by auto
    with h \<open>k < n\<close> ST show ?thesis by simp
  qed
next
  fix y assume "(over(x := d)) y \<noteq> None"
  then show "has_ctrl (E(x \<mapsto> e)) y \<noteq> None"
    using dm_okD(3) [OF ok, of y] e by (auto split: if_splits)
qed

lemma ok_update:
  assumes ok: "dm_ok E S T n over" and x: "has_ctrl E x = Some k"
    and e: "de_serial e = x" "de_configured e" "de_ctrl e = Some k"
  shows "dm_ok (E(x \<mapsto> e)) S T n (over(x := d))"
proof (rule dm_okI)
  show "ok_entry S T n y e'" if "(E(x \<mapsto> e)) y = Some e'" for y e'
    using that e ok_has_ctrl [OF ok x] dm_okD(1) [OF ok, of y e']
    by (auto simp: ok_entry_def split: if_splits)
  show "has_ctrl (E(x \<mapsto> e)) (S k') = Some k'" if "k' < n" "\<not> T k'" for k'
    using dm_okD(2) [OF ok that] x e(3) by auto
  show "has_ctrl (E(x \<mapsto> e)) y \<noteq> None" if "(over(x := d)) y \<noteq> None" for y
    using that dm_okD(3) [OF ok, of y] e by (auto split: if_splits)
qed

text \<open>The entry's controller is stopped, and the entry is gone or has none.\<close>

lemma ok_drop:
  assumes ok: "dm_ok E S T n over"
    and E': "\<And>y. y \<noteq> x \<Longrightarrow> E' y = E y" "\<And>e. E' x = Some e \<Longrightarrow>
        de_serial e = x \<and> \<not> de_configured e \<and> de_ctrl e = None"
    and T': "\<And>k. T' k \<longleftrightarrow> has_ctrl E x = Some k \<or> T k"
  shows "dm_ok E' S T' n (over(x := None))"
proof (rule dm_okI)
  fix y e assume y: "E' y = Some e"
  show "ok_entry S T' n y e"
  proof (cases "y = x")
    case True
    with y E' show ?thesis by (simp add: ok_entry_def)
  next
    case False
    with y E' have e: "E y = Some e" by simp
    have "T' k = T k" if "de_ctrl e = Some k" for k
      using ok_has_ctrl(2) [OF ok, of y k] ok_has_ctrl(2) [OF ok, of x k] False e that T'
      by (auto simp: has_ctrl_def)
    with dm_okD(1) [OF ok e] show ?thesis by (auto intro: ok_entry_mono)
  qed
next
  fix k assume k: "k < n" "\<not> T' k"
  then have h: "has_ctrl E (S k) = Some k" using T' dm_okD(2) [OF ok] by simp
  moreover from k T' h have "S k \<noteq> x" by auto
  ultimately show "has_ctrl E' (S k) = Some k" using E' by (simp add: has_ctrl_def)
next
  fix y assume "(over(x := None)) y \<noteq> None"
  then show "has_ctrl E' y \<noteq> None"
    using dm_okD(3) [OF ok, of y] E' by (auto simp: has_ctrl_def split: if_splits)
qed

lemma ok_stop_all:
  assumes ok: "dm_ok E S T n over" and T': "\<And>k. T' k \<longleftrightarrow> (\<exists>x. has_ctrl E x = Some k) \<or> T k"
    and E': "\<And>x. E' x = map_option (\<lambda>e. e\<lparr>de_ctrl := None, de_configured := False\<rparr>) (E x)"
    and over': "\<And>x. over' x = (if E x = None then over x else None)"
  shows "dm_ok E' S T' n over'"
proof (rule dm_okI)
  show "ok_entry S T' n x e" if "E' x = Some e" for x e
    using that E' dm_okD(1) [OF ok, of x] by (auto simp: ok_entry_def)
  show "has_ctrl E' (S k) = Some k" if "k < n" "\<not> T' k" for k
    using that T' dm_okD(2) [OF ok] by blast
  show "has_ctrl E' x \<noteq> None" if "over' x \<noteq> None" for x
    using that over' dm_okD(3) [OF ok, of x] by (auto simp: has_ctrl_def split: if_splits)
qed

section \<open>The operations keep the invariant\<close>

lemma Get_has_ctrl: "Get x s = has_ctrl (map_of (dm_devices s)) x"
  by (simp add: Get_def has_ctrl_def entry_of_def)

lemma set_entry_map:
  "de_serial e = x \<Longrightarrow> map_of (dm_devices (set_entry e s)) = (map_of (dm_devices s))(x \<mapsto> e)"
  by (simp add: set_entry_def AList.update_conv')

lemma Prepare_cases:
  assumes "dm_inv s" "Prepare x inst cfg cp s = Some t"
  obtains (new) d e where "Get x s = None" "new_device x inst cp (SetDeviceOverrides x cfg (dm_store s)) = Some d"
      "de_serial e = x" "de_configured e" "de_ctrl e = Some (dm_next s)" "de_instanceID e = inst"
      "t = emit (OnDeviceStatus x inst False) (set_entry e
             ((set_overrides x cfg s)\<lparr>dm_heap := (dm_heap s)(dm_next s := d), dm_next := Suc (dm_next s)\<rparr>))"
  | (update) k e where "Get x s = Some k" "de_serial e = x" "de_configured e" "de_ctrl e = Some k"
      "de_instanceID e = inst"
      "t = emit (OnDeviceStatus x inst False) (set_entry e ((set_overrides x cfg s)
             \<lparr>dm_heap := (dm_heap s)(k := (dm_heap s k)\<lparr>dv_ctrl := (dv_ctrl (dm_heap s k))\<lparr>ct_params := cp\<rparr>\<rparr>)\<rparr>))"
proof -
  define e0 where "e0 = (case entry_of x s of Some e \<Rightarrow> e
    | None \<Rightarrow> \<lparr>de_serial = x, de_instanceID = '''', de_ctrl = None, de_configured = False\<rparr>)"
  have e0: "de_serial e0 = x" "de_ctrl e0 = Get x s"
    using assms(1) by (auto simp: e0_def Get_def entry_of_def dm_inv_def dm_ok_def ok_entry_def split: option.splits)
  note p = assms(2) [unfolded Prepare_def Let_def e0_def [symmetric]]
  show thesis
  proof (cases "Get x s")
    case None
    with p e0 obtain d where "new_device x inst cp (SetDeviceOverrides x cfg (dm_store s)) = Some d"
      by (auto split: option.splits)
    with p e0 None show thesis
      by (intro new [of d "e0\<lparr>de_instanceID := inst, de_configured := True, de_ctrl := Some (dm_next s)\<rparr>"]) simp_all
  next
    case (Some k)
    with p e0 show thesis
      by (intro update [of k "e0\<lparr>de_instanceID := inst, de_configured := True\<rparr>"]) simp_all
  qed
qed

lemma new_device_fields:
  assumes "new_device x inst cp store = Some d"
  shows "\<not> ct_stopped (dv_ctrl d)" "inst_DeviceSerial (ct_inst (dv_ctrl d)) = x"
  using assms by (auto simp: new_device_def split: option.splits)

lemma dm_inv_Prepare:
  assumes inv: "dm_inv s" and prep: "Prepare x inst cfg cp s = Some t"
  shows "dm_inv t"
  using inv prep
proof (cases rule: Prepare_cases)
  case (new d e)
  have "dm_ok ((map_of (dm_devices s))(x \<mapsto> e)) (ctrl_serial t) (ctrl_stopped t) (Suc (dm_next s))
      ((cs_device (dm_store s))(x := cfg))"
    by (rule ok_new [of _ "ctrl_serial s" "ctrl_stopped s"])
      (use inv new new_device_fields [OF new(2)] in
        \<open>simp_all add: dm_inv_def Get_has_ctrl ctrl_serial_def ctrl_stopped_def\<close>)
  with inv new show ?thesis
    by (simp add: dm_inv_def set_entry_map)
next
  case (update k e)
  have "dm_ok ((map_of (dm_devices s))(x \<mapsto> e)) (ctrl_serial s) (ctrl_stopped s) (dm_next s)
      ((cs_device (dm_store s))(x := cfg))"
    by (rule ok_update) (use inv update in \<open>simp_all add: dm_inv_def Get_has_ctrl\<close>)
  moreover have "ctrl_serial t = ctrl_serial s" "ctrl_stopped t = ctrl_stopped s"
    using update by (auto simp: ctrl_serial_def [abs_def] ctrl_stopped_def [abs_def] fun_eq_iff)
  ultimately show ?thesis using inv update
    by (simp add: dm_inv_def set_entry_map)
qed

lemma dm_inv_drop:
  assumes inv: "dm_inv s" and e0: "entry_of x s = Some e0"
    and s': "dm_next s' = dm_next s" "dm_heap s' = dm_heap s" "dm_store s' = dm_store s"
      "distinct (map fst (dm_devices s'))"
    and others: "\<And>y. y \<noteq> x \<Longrightarrow> entry_of y s' = entry_of y s"
    and own: "\<And>e. entry_of x s' = Some e \<Longrightarrow> de_serial e = x \<and> \<not> de_configured e \<and> de_ctrl e = None"
  shows "dm_inv (drop_device x (de_ctrl e0) s')"
proof -
  let ?t = "drop_device x (de_ctrl e0) s'"
  have "ctrl_serial ?t = ctrl_serial s" by (auto simp: ctrl_serial_def s')
  moreover have "ctrl_stopped ?t = (\<lambda>k. has_ctrl (map_of (dm_devices s)) x = Some k \<or> ctrl_stopped s k)"
    using e0 by (auto simp: ctrl_stopped_def s' has_ctrl_def entry_of_def)
  moreover have "dm_ok (map_of (dm_devices s')) (ctrl_serial s)
      (\<lambda>k. has_ctrl (map_of (dm_devices s)) x = Some k \<or> ctrl_stopped s k) (dm_next s)
      ((cs_device (dm_store s))(x := None))"
    using inv others own unfolding dm_inv_def entry_of_def by (intro ok_drop) auto
  ultimately show ?thesis by (simp add: dm_inv_def s')
qed

lemma dm_inv_emit [simp]: "dm_inv (emit h s) = dm_inv s"
  by (simp add: dm_inv_def ctrl_serial_def [abs_def] ctrl_stopped_def [abs_def])

lemma dm_inv_entry:
  assumes "dm_inv s" "entry_of x s = Some e"
  shows "de_serial e = x"
  using assms by (auto simp: dm_inv_def dm_ok_def ok_entry_def entry_of_def)

lemma dm_inv_Release:
  assumes "dm_inv s"
  shows "dm_inv (snd (ReleaseDevice x reason s))"
proof (cases "entry_of x s")
  case (Some e)
  have "dm_inv (drop_device x (de_ctrl e) (s\<lparr>dm_devices := AList.delete x (dm_devices s)\<rparr>))"
    by (rule dm_inv_drop [OF assms Some])
      (use assms in \<open>simp_all add: dm_inv_def AList.distinct_delete entry_of_def AList.delete_conv'\<close>)
  with Some show ?thesis
    by (simp add: ReleaseDevice_def release_locked_def release_rest_def)
qed (use assms in \<open>simp add: ReleaseDevice_def release_locked_def\<close>)

lemma dm_inv_Reset:
  assumes "dm_inv s"
  shows "dm_inv (snd (ResetDevice x reason s))"
proof (cases "entry_of x s")
  case (Some e)
  have "dm_inv (drop_device x (de_ctrl e) (set_entry (e\<lparr>de_configured := False, de_ctrl := None\<rparr>) s))"
    by (rule dm_inv_drop [OF assms Some])
      (use assms dm_inv_entry [OF assms Some] in \<open>auto simp: dm_inv_def\<close>)
  with Some show ?thesis
    by (simp add: ResetDevice_def reset_locked_def reset_rest_def)
qed (use assms in \<open>simp add: ResetDevice_def reset_locked_def\<close>)

lemma fold_overrides:
  "dm_devices (fold (\<lambda>(x, e). set_overrides (de_serial e) None) ds s) = dm_devices s"
  "dm_heap (fold (\<lambda>(x, e). set_overrides (de_serial e) None) ds s) = dm_heap s"
  "dm_next (fold (\<lambda>(x, e). set_overrides (de_serial e) None) ds s) = dm_next s"
  "cs_device (dm_store (fold (\<lambda>(x, e). set_overrides (de_serial e) None) ds s)) y =
     (if y \<in> de_serial ` snd ` set ds then None else cs_device (dm_store s) y)"
  by (induction ds arbitrary: s) auto

lemma fold_stop_ctrl:
  "dm_devices (fold (\<lambda>k. stop_ctrl (Some k)) ks s) = dm_devices s"
  "dm_next (fold (\<lambda>k. stop_ctrl (Some k)) ks s) = dm_next s"
  "dm_store (fold (\<lambda>k. stop_ctrl (Some k)) ks s) = dm_store s"
  "ctrl_serial (fold (\<lambda>k. stop_ctrl (Some k)) ks s) = ctrl_serial s"
  "ctrl_stopped (fold (\<lambda>k. stop_ctrl (Some k)) ks s) k \<longleftrightarrow> k \<in> set ks \<or> ctrl_stopped s k"
  by (induction ks arbitrary: s) (auto simp: ctrl_serial_def [abs_def] ctrl_stopped_def)

lemma map_of_map_entry:
  "map_of (map (\<lambda>(x, e). (x, f e)) ds) y = map_option f (map_of ds y)"
  by (induction ds) auto

lemma serials_dom:
  assumes "dm_inv s"
  shows "de_serial ` snd ` set (dm_devices s) = dom (map_of (dm_devices s))"
proof -
  have "de_serial e = x" if "(x, e) \<in> set (dm_devices s)" for x e
    using that assms by (intro dm_inv_entry [OF assms]) (simp add: entry_of_def dm_inv_def)
  then show ?thesis by (force simp: dom_map_of_conv_image_fst)
qed

lemma ctrl_list:
  "k \<in> set (concat (map (\<lambda>(_, e). case de_ctrl e of None \<Rightarrow> [] | Some k \<Rightarrow> [k]) ds)) \<longleftrightarrow>
     (\<exists>x e. (x, e) \<in> set ds \<and> de_ctrl e = Some k)"
proof (induction ds)
  case (Cons d ds)
  then show ?case by (cases d; cases "de_ctrl (snd d)") auto
qed simp

lemma ctrls_of:
  assumes "dm_inv s"
  shows "k \<in> set (fst (stop_all_locked s)) \<longleftrightarrow> (\<exists>x. Get x s = Some k)"
proof -
  have d: "distinct (map fst (dm_devices s))" using assms by (simp add: dm_inv_def)
  have "k \<in> set (fst (stop_all_locked s)) \<longleftrightarrow> (\<exists>x e. (x, e) \<in> set (dm_devices s) \<and> de_ctrl e = Some k)"
    unfolding stop_all_locked_def Let_def fst_conv by (rule ctrl_list)
  also have "\<dots> \<longleftrightarrow> (\<exists>x. Get x s = Some k)"
    using d by (auto simp: Get_def entry_of_def split: option.splits) (metis map_of_eq_Some_iff option.inject)
  finally show ?thesis .
qed

lemma dm_inv_StopAll:
  assumes inv: "dm_inv s"
  shows "dm_inv (StopAll s) \<and> (\<forall>k < dm_next s. ctrl_stopped (StopAll s) k) \<and> dm_next (StopAll s) = dm_next s"
proof -
  let ?f = "\<lambda>e. e\<lparr>de_ctrl := None, de_configured := False\<rparr>"
  let ?s1 = "snd (stop_all_locked s)" and ?t = "StopAll s"
  have t: "?t = fold (\<lambda>k. stop_ctrl (Some k)) (fst (stop_all_locked s)) ?s1"
    by (simp add: StopAll_def split: prod.splits)
  have dev: "dm_devices ?t = map (\<lambda>(x, e). (x, ?f e)) (dm_devices s)"
    unfolding t fold_stop_ctrl by (simp add: stop_all_locked_def Let_def fold_overrides)
  have s1: "ctrl_serial ?s1 = ctrl_serial s" "ctrl_stopped ?s1 = ctrl_stopped s" "dm_next ?s1 = dm_next s"
    by (simp_all add: stop_all_locked_def Let_def fold_overrides ctrl_serial_def [abs_def]
        ctrl_stopped_def [abs_def])
  have stop: "ctrl_stopped ?t k \<longleftrightarrow> (\<exists>x. has_ctrl (map_of (dm_devices s)) x = Some k) \<or> ctrl_stopped s k" for k
    unfolding t fold_stop_ctrl by (simp add: s1 ctrls_of [OF inv] Get_has_ctrl)
  have over: "cs_device (dm_store ?t) x =
      (if map_of (dm_devices s) x = None then cs_device (dm_store s) x else None)" for x
    unfolding t fold_stop_ctrl
    by (simp add: stop_all_locked_def Let_def fold_overrides serials_dom [OF inv] domIff)
  have next1: "dm_next ?t = dm_next s" "ctrl_serial ?t = ctrl_serial s"
    unfolding t fold_stop_ctrl by (simp_all add: s1)
  have "dm_ok (map_of (dm_devices ?t)) (ctrl_serial s) (ctrl_stopped ?t) (dm_next s) (cs_device (dm_store ?t))"
  proof (rule ok_stop_all)
    show "dm_ok (map_of (dm_devices s)) (ctrl_serial s) (ctrl_stopped s) (dm_next s) (cs_device (dm_store s))"
      using inv by (simp add: dm_inv_def)
  qed (simp_all only: stop over dev map_of_map_entry)
  moreover have "map fst (dm_devices ?t) = map fst (dm_devices s)"
    by (simp add: dev comp_def case_prod_beta)
  moreover have "ctrl_stopped ?t k" if "k < dm_next s" for k
    using inv that dm_okD(2) unfolding dm_inv_def stop by blast
  ultimately show ?thesis using inv by (simp add: dm_inv_def next1)
qed

text \<open>
  The events: the manager's operations, each as one step, and a step of a controller that runs on
  its own (it does not stop itself).
\<close>

datatype dm_event =
    DmPrepare string string "DeviceConfig option" ConnectParams
  | DmRelease string string
  | DmReset string string
  | DmStopAll
  | DmSetGlobal AgentConfig
  | DmController nat controller

definition ctrl_moves :: "nat \<Rightarrow> controller \<Rightarrow> 'a dms_scheme \<Rightarrow> 'a dms_scheme" where
  "ctrl_moves k c s =
     (if ct_stopped c = ctrl_stopped s k \<and> ct_inst c = ct_inst (dv_ctrl (dm_heap s k))
      then s\<lparr>dm_heap := (dm_heap s)(k := (dm_heap s k)\<lparr>dv_ctrl := c\<rparr>)\<rparr> else s)"

fun dm_step :: "dm_event \<Rightarrow> dms \<Rightarrow> dms" where
  "dm_step (DmPrepare x inst cfg cp) s = (case Prepare x inst cfg cp s of None \<Rightarrow> s | Some t \<Rightarrow> t)"
| "dm_step (DmRelease x reason) s = snd (ReleaseDevice x reason s)"
| "dm_step (DmReset x reason) s = snd (ResetDevice x reason s)"
| "dm_step DmStopAll s = StopAll s"
| "dm_step (DmSetGlobal cfg) s = s\<lparr>dm_store := SetGlobal cfg (dm_store s)\<rparr>"
| "dm_step (DmController k c) s = ctrl_moves k c s"

definition NewDeviceManager :: "ConfigStore \<Rightarrow> dms" where
  "NewDeviceManager store = \<lparr>dm_devices = [], dm_store = store,
     dm_heap = (\<lambda>_. \<lparr>dv_ctrl = newController \<lparr>inst_InstanceID = '''', inst_DeviceSerial = ''''\<rparr> True
       zero_ConnectParams, dv_adb_path = '''', dv_scrcpy = zero_ScrcpyConfig\<rparr>),
     dm_next = 0, dm_log = []\<rparr>"

interpretation devices: invariant_system
    "\<lambda>s. \<exists>g. s = NewDeviceManager (NewConfigStore g)" dm_step dm_inv
proof
  fix s assume "\<exists>g. s = NewDeviceManager (NewConfigStore g)"
  then show "dm_inv s"
    by (auto simp: dm_inv_def dm_ok_def NewDeviceManager_def NewConfigStore_def)
next
  fix s :: dms and e assume inv: "dm_inv s"
  show "dm_inv (dm_step e s)"
  proof (cases e)
    case (DmPrepare x inst cfg cp)
    with inv show ?thesis by (auto intro: dm_inv_Prepare split: option.splits)
  next
    case (DmSetGlobal cfg)
    with inv show ?thesis
      by (simp add: dm_inv_def ctrl_serial_def [abs_def] ctrl_stopped_def [abs_def])
  next
    case (DmController k c)
    have "ctrl_serial (ctrl_moves k c s) = ctrl_serial s" "ctrl_stopped (ctrl_moves k c s) = ctrl_stopped s"
      by (auto simp: ctrl_moves_def ctrl_serial_def [abs_def] ctrl_stopped_def [abs_def] fun_eq_iff)
    moreover have "dm_devices (ctrl_moves k c s) = dm_devices s" "dm_next (ctrl_moves k c s) = dm_next s"
        "dm_store (ctrl_moves k c s) = dm_store s" by (simp_all add: ctrl_moves_def)
    ultimately show ?thesis using inv DmController by (simp add: dm_inv_def)
  qed (use inv in \<open>auto intro: dm_inv_Release dm_inv_Reset simp: dm_inv_StopAll\<close>)
qed

lemma all_stopped_free:
  assumes "dm_inv s" "\<forall>k < dm_next s. ctrl_stopped s k"
  shows "Get x s = None" "cs_device (dm_store s) x = None"
proof -
  have ok: "dm_ok (map_of (dm_devices s)) (ctrl_serial s) (ctrl_stopped s) (dm_next s)
      (cs_device (dm_store s))" using assms(1) by (simp add: dm_inv_def)
  show g: "Get x s = None"
    using ok_has_ctrl(1,3) [OF ok, of x] assms(2) by (cases "Get x s") (auto simp: Get_has_ctrl)
  show "cs_device (dm_store s) x = None"
    using dm_okD(3) [OF ok, of x] g by (cases "cs_device (dm_store s) x") (auto simp: Get_has_ctrl)
qed

section \<open>What the platform can rely on\<close>


text \<open>
  \<open>Release\<close> is not atomic, although the type's comment says that it holds the lock throughout.
  A \<open>Prepare\<close> of the same device that comes between its two parts succeeds and starts a controller,
  and then loses its configuration: the device is listed as configured and served by the new
  controller, but its overrides are gone, so its sessions use the global configuration.
\<close>

theorem release_race_drops_overrides:
  assumes "dm_inv s" "entry_of x s = Some e" "release_locked x s = Some (e, s1)"
    and "Prepare x inst (Some d) cp s1 = Some s2"
  shows "let s3 = release_rest x reason e s2
    in cs_device (dm_store s2) x = Some d \<and> cs_device (dm_store s3) x = None
       \<and> ForDevice x (dm_store s3) = cs_global (dm_store s3)
       \<and> Get x s3 = Some (dm_next s) \<and> \<not> ctrl_stopped s3 (dm_next s)
       \<and> (\<exists>e'. entry_of x s3 = Some e' \<and> de_configured e')"
proof -
  have s1: "s1 = s\<lparr>dm_devices := AList.delete x (dm_devices s)\<rparr>"
    using assms(2,3) by (simp add: release_locked_def)
  have none: "entry_of x s1 = None" by (simp add: s1 entry_of_def AList.delete_conv')
  obtain dev where dev: "new_device x inst cp (SetDeviceOverrides x (Some d) (dm_store s)) = Some dev"
    and s2: "s2 = emit (OnDeviceStatus x inst False)
        (set_entry \<lparr>de_serial = x, de_instanceID = inst, de_ctrl = Some (dm_next s), de_configured = True\<rparr>
          ((set_overrides x (Some d) s1)\<lparr>dm_heap := (dm_heap s)(dm_next s := dev), dm_next := Suc (dm_next s)\<rparr>))"
    using assms(4) none by (auto simp: Prepare_def Let_def s1 split: option.splits)
  have "de_ctrl e \<noteq> Some (dm_next s)"
    using assms(1,2) ok_has_ctrl(1) [of "map_of (dm_devices s)" "ctrl_serial s" "ctrl_stopped s"
        "dm_next s" "cs_device (dm_store s)" x "dm_next s"]
    by (auto simp: dm_inv_def has_ctrl_def entry_of_def)
  then show ?thesis
    using new_device_fields [OF dev]
    by (simp add: Let_def release_rest_def s2 s1 Get_def ctrl_stopped_def ForDevice_def
        split: option.splits)
qed

definition demo_dm :: dms where
  "demo_dm = NewDeviceManager (NewConfigStore (Some zero_AgentConfig))"

definition demo_over :: "int \<Rightarrow> DeviceConfig" where
  "demo_over n = \<lparr>dc_MaxSize = Some n, dc_VideoBitRate = None, dc_MinVideoBitRate = None,
     dc_ClearBitrate = None, dc_HDBitrate = None, dc_VideoKeyframeInterval = None,
     dc_VideoMaxFPS = None, dc_AudioEnabled = None, dc_WarmKeepSeconds = None\<rparr>"

definition demo_prepared :: dms where
  "demo_prepared = the (Prepare ''dev1'' ''cloud1'' (Some (demo_over 720)) zero_ConnectParams demo_dm)"

lemma Prepare_fresh:
  assumes "entry_of x s = None" "new_device x inst cp (SetDeviceOverrides x d (dm_store s)) = Some dev"
  shows "Prepare x inst d cp s = Some (emit (OnDeviceStatus x inst False)
    (set_entry \<lparr>de_serial = x, de_instanceID = inst, de_ctrl = Some (dm_next s), de_configured = True\<rparr>
      ((set_overrides x d s)\<lparr>dm_heap := (dm_heap s)(dm_next s := dev), dm_next := Suc (dm_next s)\<rparr>)))"
  using assms by (simp add: Prepare_def Let_def)

definition demo_device :: device where
  "demo_device = \<lparr>dv_ctrl = newController \<lparr>inst_InstanceID = ''cloud1'', inst_DeviceSerial = ''dev1''\<rparr>
      True zero_ConnectParams, dv_adb_path = '''',
     dv_scrcpy = MergeDeviceConfig (scrcpy_defaults zero_ScrcpyConfig) (Some (demo_over 720))\<rparr>"

lemma demo_dm_fields [simp]:
  "entry_of x demo_dm = None" "dm_next demo_dm = 0" "dm_devices demo_dm = []"
  "cs_global (dm_store demo_dm) = Some (applyDefaults zero_AgentConfig)"
  by (simp_all add: demo_dm_def NewDeviceManager_def NewConfigStore_def entry_of_def)

lemma demo_new_device:
  "new_device ''dev1'' ''cloud1'' zero_ConnectParams
     (SetDeviceOverrides ''dev1'' (Some (demo_over 720)) (dm_store demo_dm)) = Some demo_device"
  by (simp add: new_device_def ForDevice_def demo_device_def applyDefaults_def zero_AgentConfig_def)

lemmas demo_Prepare = Prepare_fresh [OF demo_dm_fields(1) demo_new_device]

lemma demo_prepared:
  "Prepare ''dev1'' ''cloud1'' (Some (demo_over 720)) zero_ConnectParams demo_dm = Some demo_prepared"
  by (simp add: demo_prepared_def demo_Prepare)

lemma demo_dm_inv: "dm_inv demo_dm"
  by (auto simp: dm_inv_def dm_ok_def demo_dm_def NewDeviceManager_def NewConfigStore_def)

lemma demo_prepared_inv: "dm_inv demo_prepared"
  by (rule dm_inv_Prepare [OF demo_dm_inv demo_prepared])

lemma demo_prepared_entry:
  "entry_of ''dev1'' demo_prepared = Some \<lparr>de_serial = ''dev1'', de_instanceID = ''cloud1'',
     de_ctrl = Some 0, de_configured = True\<rparr>"
  "Get ''dev1'' demo_prepared = Some 0" "dm_next demo_prepared = 1"
  by (simp_all add: demo_prepared_def demo_Prepare Get_def)

lemma demo_prepared_more:
  "cs_global (dm_store demo_prepared) = Some (applyDefaults zero_AgentConfig)"
  "dm_heap demo_prepared 0 = demo_device"
  by (simp_all add: demo_prepared_def demo_Prepare)


theorem release_race_drops_overrides_witness:
  "let s1 = snd (the (release_locked ''dev1'' demo_prepared));
       s2 = the (Prepare ''dev1'' ''cloud1'' (Some (demo_over 1080)) zero_ConnectParams s1);
       s3 = release_rest ''dev1'' ''recycle'' (the (entry_of ''dev1'' demo_prepared)) s2
   in cs_device (dm_store s3) ''dev1'' = None \<and> Get ''dev1'' s3 = Some 1"
proof -
  define s1 where "s1 = snd (the (release_locked ''dev1'' demo_prepared))"
  define s2 where "s2 = the (Prepare ''dev1'' ''cloud1'' (Some (demo_over 1080)) zero_ConnectParams s1)"
  have 1: "release_locked ''dev1'' demo_prepared = Some (the (entry_of ''dev1'' demo_prepared), s1)"
    by (simp add: s1_def release_locked_def demo_prepared_entry)
  have "cs_global (dm_store s1) \<noteq> None"
    by (simp add: s1_def release_locked_def demo_prepared_entry demo_prepared_more)
  moreover have "entry_of ''dev1'' s1 = None"
    by (simp add: s1_def release_locked_def demo_prepared_entry)
      (simp add: entry_of_def AList.delete_conv')
  ultimately have 2: "Prepare ''dev1'' ''cloud1'' (Some (demo_over 1080)) zero_ConnectParams s1 = Some s2"
    by (auto simp: s2_def Prepare_def Let_def new_device_def ForDevice_def)
  from release_race_drops_overrides [OF demo_prepared_inv _ 1 2, of "''recycle''"]
  show ?thesis
    by (simp add: Let_def demo_prepared_entry flip: s1_def s2_def)
qed

text \<open>
  An update of a prepared device does not reach scrcpy.  The comment says that the new
  configuration takes effect for the next session; but a controller's session manager keeps the
  scrcpy configuration of the moment the controller was made, so sessions start with the old
  resolution, codecs, bit rate and frame rate until the device is released or reset; only what the
  controller itself reads from the store (the tiers, the floor, the warm-up time) is new.
\<close>

theorem prepare_update_ignored:
  assumes "dm_inv s" "Get x s = Some k" "Prepare x inst d cp s = Some t"
  shows "Get x t = Some k \<and> cs_device (dm_store t) x = d
    \<and> dv_scrcpy (dm_heap t k) = dv_scrcpy (dm_heap s k)
    \<and> dv_adb_path (dm_heap t k) = dv_adb_path (dm_heap s k)"
  using assms(1,3)
proof (cases rule: Prepare_cases)
  case (update k' e)
  with assms(2) show ?thesis by (auto simp: Get_def)
qed (use assms(2) in simp)

theorem prepare_update_ignored_witness:
  "\<exists>t cfg. Prepare ''dev1'' ''cloud1'' (Some (demo_over 1080)) zero_ConnectParams demo_prepared = Some t
     \<and> ForDevice ''dev1'' (dm_store t) = Some cfg \<and> sc_MaxSize (ac_Scrcpy cfg) = 1080
     \<and> sc_MaxSize (dv_scrcpy (dm_heap t 0)) = 720"
proof -
  obtain t where t: "Prepare ''dev1'' ''cloud1'' (Some (demo_over 1080)) zero_ConnectParams demo_prepared = Some t"
    by (simp add: Prepare_def Let_def demo_prepared_entry)
  have old: "sc_MaxSize (dv_scrcpy (dm_heap demo_prepared 0)) = 720"
    and g: "cs_global (dm_store demo_prepared) \<noteq> None"
    by (simp_all add: demo_prepared_more demo_device_def demo_over_def MergeDeviceConfig_def override_def)
  have g': "cs_global (dm_store t) = cs_global (dm_store demo_prepared)"
    using t by (auto simp: Prepare_def Let_def demo_prepared_entry)
  from prepare_update_ignored [OF demo_prepared_inv demo_prepared_entry(2) t]
  have "cs_device (dm_store t) ''dev1'' = Some (demo_over 1080)"
    "dv_scrcpy (dm_heap t 0) = dv_scrcpy (dm_heap demo_prepared 0)" by simp_all
  with t old g g' show ?thesis
    by (auto simp: ForDevice_def MergeDeviceConfig_def demo_over_def)
qed

end
