(* ===== verification/EventHub.thy ===== *)
theory EventHub
  imports Controller "HOL-Library.Sublist"
begin

text \<open>
  The event bus of \<open>agent/host/host.go\<close>: \<open>EventHub\<close>, the broadcast to the platform's event streams,
  and \<open>hookBridge\<close>, which turns the agent's hooks into events and throttles the QoS reports.

  A subscriber is the number of its channel; its queue holds what was sent and not yet received.
  \<open>Publish\<close>, \<open>Subscribe\<close> and the cancel function hold the hub's lock, so each is one step.
\<close>

section \<open>The hub\<close>

record 'a hub =
  hb_subs :: "(nat \<times> 'a list) list"
  hb_q :: nat
  hb_next :: nat

definition NewEventHub :: "int \<Rightarrow> 'a hub" where
  "NewEventHub queueSize =
     \<lparr>hb_subs = [], hb_q = (if queueSize \<le> 0 then 64 else nat queueSize), hb_next = 0\<rparr>"

definition offer :: "nat \<Rightarrow> 'a \<Rightarrow> 'a list \<Rightarrow> 'a list" where
  "offer q ev queue = (if length queue < q then queue @ [ev] else queue)"

definition Publish :: "'a \<Rightarrow> 'a hub \<Rightarrow> 'a hub" where
  "Publish ev h = h\<lparr>hb_subs := map (\<lambda>(i, queue). (i, offer (hb_q h) ev queue)) (hb_subs h)\<rparr>"

definition Subscribe :: "'a hub \<Rightarrow> nat \<times> 'a hub" where
  "Subscribe h = (hb_next h, h\<lparr>hb_subs := hb_subs h @ [(hb_next h, [])], hb_next := Suc (hb_next h)\<rparr>)"

text \<open>\<open>None\<close> is the panic of closing a channel twice.\<close>

definition cancel :: "nat \<Rightarrow> 'a hub \<Rightarrow> 'a hub option" where
  "cancel i h =
     (if i \<in> fst ` set (hb_subs h)
      then Some (h\<lparr>hb_subs := filter (\<lambda>(j, _). j \<noteq> i) (hb_subs h)\<rparr>) else None)"

text \<open>\<open>StreamEvents\<close> receives the next event of its channel, if there is one.\<close>

definition receive :: "nat \<Rightarrow> 'a hub \<Rightarrow> 'a option \<times> 'a hub" where
  "receive i h =
     (case map_of (hb_subs h) i of
        Some (ev # r) \<Rightarrow>
          (Some ev, h\<lparr>hb_subs := map (\<lambda>(j, queue). (j, if j = i then r else queue)) (hb_subs h)\<rparr>)
      | _ \<Rightarrow> (None, h))"

section \<open>Subscribers do not disturb each other\<close>

datatype 'a hub_event = Pub 'a | Sub | Cancel nat | Recv nat

fun hub_step :: "'a hub_event \<Rightarrow> 'a hub \<Rightarrow> 'a hub" where
  "hub_step (Pub ev) h = Publish ev h"
| "hub_step Sub h = snd (Subscribe h)"
| "hub_step (Cancel i) h = (case cancel i h of None \<Rightarrow> h | Some h' \<Rightarrow> h')"
| "hub_step (Recv i) h = snd (receive i h)"

text \<open>What subscriber \<open>i\<close> has received in a run.\<close>

fun received :: "nat \<Rightarrow> 'a hub_event list \<Rightarrow> 'a hub \<Rightarrow> 'a list" where
  "received i [] h = []"
| "received i (e # es) h =
     (case e of Recv j \<Rightarrow> if j = i then (case fst (receive i h) of None \<Rightarrow> [] | Some ev \<Rightarrow> [ev]) else []
      | _ \<Rightarrow> [])
     @ received i es (hub_step e h)"

text \<open>The reference: one bounded queue, that sees the publications and its own receptions only.\<close>

fun solo :: "nat \<Rightarrow> nat \<Rightarrow> 'a hub_event list \<Rightarrow> 'a list \<Rightarrow> 'a list \<times> 'a list" where
  "solo q i [] queue = ([], queue)"
| "solo q i (Pub ev # es) queue = solo q i es (offer q ev queue)"
| "solo q i (Recv j # es) queue =
     (if j = i then
        (case queue of [] \<Rightarrow> solo q i es []
         | ev # r \<Rightarrow> (let (gs, left) = solo q i es r in (ev # gs, left)))
      else solo q i es queue)"
| "solo q i (_ # es) queue = solo q i es queue"

fun published :: "'a hub_event list \<Rightarrow> 'a list" where
  "published [] = []"
| "published (Pub ev # es) = ev # published es"
| "published (_ # es) = published es"

definition hub_wf :: "'a hub \<Rightarrow> bool" where
  "hub_wf h \<longleftrightarrow> distinct (map fst (hb_subs h)) \<and> (\<forall>i \<in> fst ` set (hb_subs h). i < hb_next h)"

lemma map_of_map_queue:
  "map_of (map (\<lambda>(i, queue). (i, f i queue)) xs) j = map_option (f j) (map_of xs j)"
  by (induction xs) auto

lemma fst_queue [simp]: "fst \<circ> (\<lambda>(i, queue). (i, f i queue)) = fst"
  by auto

lemma fst_queue_app [simp]: "fst (case x of (i, queue) \<Rightarrow> (i, f i queue)) = fst x"
  by (cases x) simp

lemma map_of_filter_key: "j \<noteq> i \<Longrightarrow> map_of (filter (\<lambda>(j, _). j \<noteq> i) xs) j = map_of xs j"
  by (induction xs) auto

lemma hub_q [simp]: "hb_q (hub_step e h) = hb_q h"
  by (cases e) (auto simp: Publish_def Subscribe_def cancel_def receive_def split: option.splits list.splits)

lemma hub_wf_step:
  assumes "hub_wf h"
  shows "hub_wf (hub_step e h)"
proof (cases e)
  case (Pub ev)
  with assms show ?thesis by (simp add: hub_wf_def Publish_def)
next
  case Sub
  with assms show ?thesis by (auto simp: hub_wf_def Subscribe_def less_Suc_eq)
next
  case (Cancel i)
  with assms show ?thesis
    by (auto simp: hub_wf_def cancel_def distinct_map inj_on_def)
next
  case (Recv i)
  have "hub_wf (h\<lparr>hb_subs := map (\<lambda>(j, queue). (j, if j = i then r else queue)) (hb_subs h)\<rparr>)" for r
    using assms by (simp add: hub_wf_def)
  with assms Recv show ?thesis by (auto simp: receive_def split: option.splits list.splits)
qed

lemma hub_step_queue:
  assumes "hub_wf h" "map_of (hb_subs h) i = Some queue" "e \<noteq> Cancel i"
  shows "map_of (hb_subs (hub_step e h)) i =
    Some (case e of Pub ev \<Rightarrow> offer (hb_q h) ev queue | Recv j \<Rightarrow> if j = i then tl queue else queue | _ \<Rightarrow> queue)"
proof (cases e)
  case (Pub ev)
  with assms show ?thesis by (simp add: Publish_def map_of_map_queue)
next
  case Sub
  with assms show ?thesis by (simp add: Subscribe_def map_add_Some_iff)
next
  case (Cancel j)
  with assms show ?thesis by (simp add: cancel_def map_of_filter_key)
next
  case (Recv j)
  with assms show ?thesis
    by (auto simp: receive_def map_of_map_queue split: option.splits list.splits)
qed

lemma hub_is_solo:
  assumes "hub_wf h" "map_of (hb_subs h) i = Some queue" "Cancel i \<notin> set es"
  shows "received i es h = fst (solo (hb_q h) i es queue)
    \<and> map_of (hb_subs (fold hub_step es h)) i = Some (snd (solo (hb_q h) i es queue))"
  using assms
proof (induction es arbitrary: h queue)
  case (Cons e es)
  let ?queue' = "case e of Pub ev \<Rightarrow> offer (hb_q h) ev queue | Recv j \<Rightarrow> if j = i then tl queue else queue | _ \<Rightarrow> queue"
  have "map_of (hb_subs (hub_step e h)) i = Some ?queue'"
    using Cons.prems by (intro hub_step_queue) auto
  with Cons.IH [of "hub_step e h" ?queue'] Cons.prems hub_wf_step [of h e]
  have IH: "received i es (hub_step e h) = fst (solo (hb_q h) i es ?queue')
      \<and> map_of (hb_subs (fold hub_step es (hub_step e h))) i = Some (snd (solo (hb_q h) i es ?queue'))"
    by simp
  show ?case
  proof (cases e)
    case (Recv j)
    with IH Cons.prems show ?thesis
      by (cases "j = i"; cases queue) (auto simp: receive_def split: prod.splits)
  qed (use IH in auto)
qed simp

lemma solo_subseq:
  assumes "solo q i es queue = (gs, left)"
  shows "subseq (gs @ left) (queue @ published es)"
  using assms
proof (induction q i es queue arbitrary: gs left rule: solo.induct)
  case (2 q i ev es queue)
  show ?case
  proof (cases "length queue < q")
    case True
    with 2 show ?thesis by (simp add: offer_def)
  next
    case False
    with 2 have "subseq (gs @ left) (queue @ published es)" by (simp add: offer_def)
    then show ?thesis
      by (rule subseq_order.trans) (simp add: subseq_append' list_emb_Cons)
  qed
next
  case (3 q i j es queue)
  then show ?case by (cases "j = i"; cases queue) (auto split: prod.splits)
qed auto

lemma solo_bound: "length queue \<le> q \<Longrightarrow> length (snd (solo q i es queue)) \<le> q"
  by (induction q i es queue rule: solo.induct) (auto simp: offer_def split: list.splits prod.splits)

lemma solo_lossless:
  assumes "solo q i es queue = (gs, left)" "length queue + length (published es) \<le> q"
  shows "gs @ left = queue @ published es"
  using assms
proof (induction q i es queue arbitrary: gs left rule: solo.induct)
  case (3 q i j es queue)
  then show ?case by (cases "j = i"; cases queue) (auto split: prod.splits)
qed (auto simp: offer_def)

lemma hub_run_wf: "hub_wf (fold hub_step es (NewEventHub n))"
proof -
  have "hub_wf h \<Longrightarrow> hub_wf (fold hub_step es h)" for h :: "'a hub"
    by (induction es arbitrary: h) (auto intro: hub_wf_step)
  then show ?thesis by (simp add: hub_wf_def NewEventHub_def)
qed

lemma hub_run_q: "hb_q (fold hub_step es h) = hb_q h"
  by (induction es arbitrary: h) simp_all

text \<open>
  C29. A subscriber of the event bus is served as if it were alone: what it receives, and what waits in
  its queue, is what a single bounded queue would give it, whatever the others do and however slow
  they are.  Nothing is invented, repeated or reordered, its queue never exceeds the bound, and it
  loses nothing as long as no more events are published than the queue holds.
\<close>

theorem hub_isolation:
  fixes es0 es :: "'a hub_event list"
  assumes "Subscribe (fold hub_step es0 (NewEventHub n)) = (i, h)" "Cancel i \<notin> set es"
  shows "let q = (if n \<le> 0 then 64 else nat n); rcv = received i es h
    in \<exists>queue. map_of (hb_subs (fold hub_step es h)) i = Some queue
       \<and> (rcv, queue) = solo q i es [] \<and> subseq (rcv @ queue) (published es) \<and> length queue \<le> q
       \<and> (length (published es) \<le> q \<longrightarrow> rcv @ queue = published es)"
proof -
  define h0 :: "'a hub" where "h0 = fold hub_step es0 (NewEventHub n)"
  have wf0: "hub_wf h0" unfolding h0_def by (rule hub_run_wf)
  have h: "i = hb_next h0" "h = hub_step Sub h0"
    using assms(1) by (auto simp: h0_def [symmetric] Subscribe_def)
  have q: "hb_q h = (if n \<le> 0 then 64 else nat n)"
    unfolding h(2) hub_q h0_def hub_run_q by (simp add: NewEventHub_def)
  have "map_of (hb_subs h0) i = None"
    using wf0 by (auto simp: hub_wf_def h map_of_eq_None_iff)
  then have "map_of (hb_subs h) i = Some []" by (simp add: h Subscribe_def map_add_def)
  then have "received i es h = fst (solo (hb_q h) i es [])
      \<and> map_of (hb_subs (fold hub_step es h)) i = Some (snd (solo (hb_q h) i es []))"
    using wf0 assms(2) by (intro hub_is_solo) (auto simp: h(2) hub_wf_step simp del: hub_step.simps)
  then obtain queue where s: "solo (hb_q h) i es [] = (received i es h, queue)"
      "map_of (hb_subs (fold hub_step es h)) i = Some queue"
    by (metis prod.collapse)
  from solo_subseq [OF s(1)] solo_bound [of "[]" "hb_q h" i es] solo_lossless [OF s(1)] s
  show ?thesis unfolding Let_def q [symmetric] by auto
qed

theorem hub_isolation_witness:
  "let (i, h) = Subscribe (fold hub_step [Sub] (NewEventHub 2));
       es = [Pub ''a'', Pub ''b'', Pub ''c'', Recv 1, Recv 0]
   in received 1 es h = [''a''] \<and> subseq [''a'', ''b''] (published es)"
proof -
  let ?h0 = "fold hub_step [Sub] (NewEventHub 2) :: string hub"
  let ?es = "[Pub ''a'', Pub ''b'', Pub ''c'', Recv 1, Recv 0]"
  have s: "Subscribe ?h0 = (1, snd (Subscribe ?h0))" by (simp add: Subscribe_def NewEventHub_def)
  from hub_isolation [OF s, of ?es]
  show ?thesis by (auto simp: Let_def offer_def Subscribe_def NewEventHub_def)
qed

section \<open>Events\<close>

datatype event_body =
    DeviceStatusChanged bool
  | SessionStartedEv string
  | SessionStoppedEv string string
  | StreamDeadEv string
  | QosEv string f64 f64 int
  | AgentErrorEv string string
  | DeviceReleasedEv string
  | DeviceResetEv string

record AgentEvent =
  ev_DeviceSerial :: string
  ev_InstanceId :: string
  ev_SessionId :: string
  ev_TimestampMs :: int
  ev_Event :: event_body

record bridge =
  br_hub :: "AgentEvent hub"
  br_qosAt :: "string \<rightharpoonup> time"
  br_lastError :: string

text \<open>\<open>time.Now().UnixMilli()\<close>, for a time after 1970.\<close>

definition unix_milli :: "time \<Rightarrow> int" where
  "unix_milli t = (t - 62135596800 * second) div millisecond"

definition newEvent :: "time \<Rightarrow> string \<Rightarrow> string \<Rightarrow> string \<Rightarrow> event_body \<Rightarrow> AgentEvent" where
  "newEvent now serial inst sid body =
     \<lparr>ev_DeviceSerial = serial, ev_InstanceId = inst, ev_SessionId = sid,
      ev_TimestampMs = unix_milli now, ev_Event = body\<rparr>"

definition bridge_publish :: "AgentEvent \<Rightarrow> bridge \<Rightarrow> bridge" where
  "bridge_publish ev b = b\<lparr>br_hub := Publish ev (br_hub b)\<rparr>"

text \<open>
  \<open>OnQoS\<close>: \<open>global\<close> is the store's global configuration.  The report's frame rate and resolution are
  left out: the agent, its only source, never sets them.
\<close>

definition qos_interval :: "AgentConfig option \<Rightarrow> duration" where
  "qos_interval global =
     (case global of
        None \<Rightarrow> 2 * second
      | Some g \<Rightarrow> if ac_QoSIntervalMS g > 0 then wrap64 (ac_QoSIntervalMS g * millisecond) else 2 * second)"

definition qos_due :: "duration \<Rightarrow> time \<Rightarrow> string \<Rightarrow> bridge \<Rightarrow> bool" where
  "qos_due interval now sid b =
     (case br_qosAt b sid of None \<Rightarrow> True | Some last1 \<Rightarrow> \<not> time_sub now last1 < interval)"

definition bridge_OnQoS ::
  "duration \<Rightarrow> time \<Rightarrow> string \<Rightarrow> string \<Rightarrow> string \<Rightarrow> f64 \<Rightarrow> f64 \<Rightarrow> int \<Rightarrow> bridge \<Rightarrow> bridge" where
  "bridge_OnQoS interval now sid serial inst lossRate rtt bitrate b =
     (if qos_due interval now sid b then
        bridge_publish (newEvent now serial inst sid (QosEv sid lossRate rtt (wrap32 bitrate)))
          (b\<lparr>br_qosAt := (br_qosAt b)(sid \<mapsto> now)\<rparr>)
      else b)"

definition on_hook :: "AgentConfig option \<Rightarrow> time \<Rightarrow> hook \<Rightarrow> bridge \<Rightarrow> bridge" where
  "on_hook global now h b =
     (case h of
        OnDeviceStatus serial inst busy \<Rightarrow>
          bridge_publish (newEvent now serial inst '''' (DeviceStatusChanged busy)) b
      | OnSessionStarted serial inst sid \<Rightarrow>
          bridge_publish (newEvent now serial inst sid (SessionStartedEv sid)) b
      | OnSessionStopped serial inst sid reason \<Rightarrow>
          bridge_publish (newEvent now serial inst sid (SessionStoppedEv sid reason)) b
      | OnStreamDead serial inst sid \<Rightarrow>
          bridge_publish (newEvent now serial inst sid (StreamDeadEv sid)) b
      | OnQoS sid serial inst lossRate rtt bitrate \<Rightarrow>
          bridge_OnQoS (qos_interval global) now sid serial inst lossRate rtt bitrate b
      | OnError serial inst code msg \<Rightarrow>
          bridge_publish (newEvent now serial inst '''' (AgentErrorEv code msg))
            (b\<lparr>br_lastError := code @ '': '' @ msg\<rparr>)
      | OnDeviceReleased serial inst reason \<Rightarrow>
          bridge_publish (newEvent now serial inst '''' (DeviceReleasedEv reason)) b
      | OnDeviceReset serial inst reason \<Rightarrow>
          bridge_publish (newEvent now serial inst '''' (DeviceResetEv reason)) b)"

section \<open>QoS reports are throttled\<close>

text \<open>
  The reports of one session \<open>sid\<close>, while the global configuration stays \<open>g\<close>; an event is a hook with
  its time.  The throttle's stamp of a session that never reported is one interval before time 0.
\<close>

definition qos_fire :: "AgentConfig option \<Rightarrow> string \<Rightarrow> nat \<times> hook \<Rightarrow> bridge \<Rightarrow> bool" where
  "qos_fire g sid e b =
     (case snd e of
        OnQoS s _ _ _ _ _ \<Rightarrow> s = sid \<and> qos_due (qos_interval g) (int (fst e)) sid b | _ \<Rightarrow> False)"

definition qos_next :: "AgentConfig option \<Rightarrow> nat \<times> hook \<Rightarrow> bridge \<Rightarrow> bridge" where
  "qos_next g e b = on_hook g (int (fst e)) (snd e) b"

definition qos_stamp :: "AgentConfig option \<Rightarrow> string \<Rightarrow> bridge \<Rightarrow> time" where
  "qos_stamp g sid b = (case br_qosAt b sid of None \<Rightarrow> - qos_interval g | Some t \<Rightarrow> t)"

lemma publish_qosAt [simp]: "br_qosAt (bridge_publish ev b) = br_qosAt b"
  by (simp add: bridge_publish_def)

locale qos_throttle =
  fixes g :: "AgentConfig option" and sid :: string
  assumes interval_pos: "0 < qos_interval g"
begin

lemma qos_fire_gap: "qos_fire g sid e b \<Longrightarrow> qos_interval g \<le> int (fst e) - qos_stamp g sid b"
  using interval_pos time_sub_ge [of "qos_interval g"]
  by (auto simp: qos_fire_def qos_stamp_def qos_due_def not_less split: hook.splits option.splits)

end

sublocale qos_throttle \<subseteq> throttle "qos_fire g sid" "qos_next g" "qos_stamp g sid" "\<lambda>e. int (fst e)"
    "qos_interval g"
proof
  fix e b
  show "qos_fire g sid e b \<Longrightarrow> qos_interval g \<le> int (fst e) - qos_stamp g sid b"
    by (rule qos_fire_gap)
  show "qos_stamp g sid (qos_next g e b) = int (fst e)" if "qos_fire g sid e b"
    using that by (auto simp: qos_fire_def qos_next_def qos_stamp_def on_hook_def bridge_OnQoS_def
        split: hook.splits)
  show "qos_stamp g sid (qos_next g e b) = qos_stamp g sid b" if "\<not> qos_fire g sid e b"
    using that by (auto simp: qos_fire_def qos_next_def qos_stamp_def on_hook_def bridge_OnQoS_def
        split: hook.splits)
qed

context qos_throttle
begin

lemma reports_spaced:
  "spaced (qos_interval g) (firings (qos_fire g sid) (qos_next g) (\<lambda>e. int (fst e)) b es)"
  by (rule firings_spaced)

end

interpretation default_qos: qos_throttle None sid for sid
  by unfold_locales (simp add: qos_interval_def)

text \<open>
  However often a browser reports its decoder status, the QoS events the platform receives for
  one session are at least the configured interval apart (2 s when none is configured), and the
  reports of other sessions do not matter.
\<close>

theorem qos_events_spaced:
  assumes "0 < qos_interval g"
  shows "spaced (qos_interval g)
    (firings (qos_fire g sid) (qos_next g) (\<lambda>e. int (fst e)) b es)"
proof -
  have "qos_throttle g" by (rule qos_throttle.intro) (rule assms)
  then show ?thesis by (rule qos_throttle.reports_spaced)
qed

theorem qos_events_spaced_witness:
  "let e = (\<lambda>t sid. (t, OnQoS sid ''dev1'' ''cloud1'' (Fin 0) (Fin 20) 8000000));
       es = [e 0 ''s1'', e 500000000 ''s1'', e 600000000 ''s2'', e 2000000000 ''s1'', e 3000000000 ''s1''];
       b = \<lparr>br_hub = NewEventHub 64, br_qosAt = Map.empty, br_lastError = ''''\<rparr>;
       ts = firings (qos_fire None ''s1'') (qos_next None) (\<lambda>e. int (fst e)) b es
   in ts = [0, 2000000000] \<and> spaced (2 * second) ts"
  using qos_events_spaced [of None]
  by (simp add: Let_def qos_interval_def qos_fire_def qos_next_def qos_due_def on_hook_def
      bridge_OnQoS_def bridge_publish_def time_sub_def)

end
