(* ===== verification/Host.thy ===== *)
theory Host
  imports DeviceManager EventHub PortPool
begin

text \<open>
  \<open>agent/host\<close>: the life cycle of the agent process (\<open>host.go\<close>) and its gRPC service
  (\<open>grpc.go\<close>).

  \<open>host\<close> extends the device manager's state: the store and the heap of controllers live as long as
  the process, the manager itself only while \<open>h_dm\<close> holds (\<open>h.dm != nil\<close>).  \<open>h_pool\<close> is the port
  pool made for the manager.  A call's result is \<open>None\<close> when it dereferences the \<open>nil\<close> manager or
  configuration, which is a panic.  \<open>Host.Stop\<close> releases its lock while it stops the devices and is
  modelled in two parts.  The \<open>--one-shot\<close> callback of \<open>Stop\<close> is left out.
\<close>

section \<open>State\<close>

datatype lifecycle = Uninitialized | Initialized | Running

record host = dms +
  h_state :: lifecycle
  h_dm :: bool
  h_pool :: pool
  h_bootstrapped :: bool
  h_bridge :: bridge
  h_port :: int
  h_version :: string
  h_startedAt :: time

text \<open>\<open>CommonResponse\<close>, and \<open>InitResponse\<close>, whose port is 0 in the other answers.\<close>

record response =
  rs_Ok :: bool
  rs_ErrorCode :: string
  rs_Message :: string
  rs_ActualPort :: int

definition okResp :: response where
  "okResp = \<lparr>rs_Ok = True, rs_ErrorCode = ''OK'', rs_Message = '''', rs_ActualPort = 0\<rparr>"

definition errResp :: "string \<Rightarrow> string \<Rightarrow> response" where
  "errResp code msg = \<lparr>rs_Ok = False, rs_ErrorCode = code, rs_Message = msg, rs_ActualPort = 0\<rparr>"

record HealthResponse =
  hr_Ok :: bool
  hr_Version :: string
  hr_DeviceCount :: int
  hr_ActiveSessions :: int
  hr_UptimeSeconds :: int
  hr_LastError :: string

text \<open>\<open>New\<close>, with the store \<open>agentd\<close> made.\<close>

definition New_host :: "ConfigStore \<Rightarrow> int \<Rightarrow> string \<Rightarrow> time \<Rightarrow> host" where
  "New_host store port version now =
     dms.extend (NewDeviceManager store)
       \<lparr>h_state = Uninitialized, h_dm = False, h_pool = New_pool 0 0, h_bootstrapped = False,
        h_bridge = \<lparr>br_hub = NewEventHub 64, br_qosAt = Map.empty, br_lastError = ''''\<rparr>,
        h_port = port, h_version = version, h_startedAt = now\<rparr>"

section \<open>Life cycle\<close>

text \<open>A new device manager and its pool.\<close>

definition make_dm :: "AgentConfig \<Rightarrow> host \<Rightarrow> host" where
  "make_dm cfg h =
     h\<lparr>dm_devices := [], h_dm := True,
       h_pool := New_pool (sc_PortPoolStart (ac_Scrcpy cfg)) (sc_PortPoolSize (ac_Scrcpy cfg))\<rparr>"

definition MarkBootstrapped :: "host \<Rightarrow> host" where
  "MarkBootstrapped h =
     (case Global (dm_store h) of
        None \<Rightarrow> h
      | Some cfg \<Rightarrow>
          if h_state h \<noteq> Uninitialized then h
          else (make_dm cfg h)\<lparr>h_bootstrapped := True, h_state := Initialized\<rparr>)"

definition Init :: "GlobalConfig option \<Rightarrow> host \<Rightarrow> response \<times> host" where
  "Init req h =
     (if h_state h \<noteq> Uninitialized \<and> \<not> h_bootstrapped h then
        (errResp ''ERR_ALREADY_INIT'' ''already initialized; call Stop first'', h)
      else case ToAgentConfig req of
          None \<Rightarrow> (errResp ''ERR_INVALID_ARG'' ''missing global_config'', h)
        | Some cfg \<Rightarrow>
            let h1 = h\<lparr>dm_store := SetGlobal cfg (dm_store h)\<rparr>;
                h2 = (if h_dm h1 then h1 else make_dm cfg h1)
            in (okResp\<lparr>rs_ActualPort := wrap32 (h_port h)\<rparr>,
                h2\<lparr>h_bootstrapped := False, h_state := Initialized\<rparr>))"

definition Start :: "host \<Rightarrow> response \<times> host" where
  "Start h =
     (case h_state h of
        Uninitialized \<Rightarrow> (errResp ''ERR_NOT_INIT'' ''not initialized'', h)
      | Running \<Rightarrow> (okResp, h)
      | Initialized \<Rightarrow> (okResp, h\<lparr>h_state := Running\<rparr>))"

definition stop_devices :: "host \<Rightarrow> host" where
  "stop_devices h = (if h_dm h then StopAll h else h)"

definition stop_finish :: "host \<Rightarrow> host" where
  "stop_finish h = h\<lparr>h_state := Uninitialized, h_dm := False, h_bootstrapped := False\<rparr>"

definition StopHost :: "host \<Rightarrow> response \<times> host" where
  "StopHost h = (okResp, stop_finish (stop_devices h))"

definition ReloadConfig :: "GlobalConfig option \<Rightarrow> host \<Rightarrow> response \<times> host" where
  "ReloadConfig cfg h =
     (if h_state h = Uninitialized then (errResp ''ERR_NOT_INIT'' ''not initialized'', h)
      else case ToAgentConfig cfg of
          None \<Rightarrow> (errResp ''ERR_INVALID_ARG'' ''missing global_config'', h)
        | Some c \<Rightarrow> (okResp, h\<lparr>dm_store := SetGlobal c (dm_store h)\<rparr>))"

definition Health :: "time \<Rightarrow> time \<Rightarrow> host \<Rightarrow> HealthResponse" where
  "Health now unix_now h =
     (if h_state h = Uninitialized then
        \<lparr>hr_Ok = False, hr_Version = h_version h, hr_DeviceCount = 0, hr_ActiveSessions = 0,
         hr_UptimeSeconds = 0, hr_LastError = ''ERR_NOT_INIT''\<rparr>
      else
        let devices = (if h_dm h then ListDevices unix_now h else [])
        in \<lparr>hr_Ok = True, hr_Version = h_version h, hr_DeviceCount = wrap32 (int (length devices)),
            hr_ActiveSessions = wrap32 (int (length (filter vw_Busy devices))),
            hr_UptimeSeconds = go_div (time_sub now (h_startedAt h)) second,
            hr_LastError = br_lastError (h_bridge h)\<rparr>)"

section \<open>The gRPC service\<close>

text \<open>\<open>Config()\<close> of the controller of a device.\<close>

definition device_config_of :: "string \<Rightarrow> host \<Rightarrow> AgentConfig" where
  "device_config_of serial h =
     (case ForDevice serial (dm_store h) of None \<Rightarrow> zero_AgentConfig | Some c \<Rightarrow> c)"

definition with_controller ::
  "nat \<Rightarrow> (controller \<Rightarrow> string option \<times> controller) \<Rightarrow> host \<Rightarrow> string option \<times> host" where
  "with_controller k f h =
     (let d = dm_heap h k; (e, c) = f (dv_ctrl d)
      in (e, h\<lparr>dm_heap := (dm_heap h)(k := d\<lparr>dv_ctrl := c\<rparr>)\<rparr>))"

definition toConnectParams :: "ConnectParams option \<Rightarrow> ConnectParams" where
  "toConnectParams p = (case p of None \<Rightarrow> zero_ConnectParams | Some q \<Rightarrow> q)"

definition requireInit :: "host \<Rightarrow> bool" where
  "requireInit h \<longleftrightarrow> h_state h \<noteq> Uninitialized"

abbreviation not_init :: response where
  "not_init \<equiv> errResp ''ERR_NOT_INIT'' ''not initialized''"

text \<open>The answer of a call from the error it returned.\<close>

definition answer :: "string \<Rightarrow> string option \<times> host \<Rightarrow> (response \<times> host) option" where
  "answer code r = (case r of (None, h) \<Rightarrow> Some (okResp, h) | (Some e, h) \<Rightarrow> Some (errResp code e, h))"

definition PrepareDevice ::
  "string \<Rightarrow> string \<Rightarrow> proto_DeviceConfig option \<Rightarrow> ConnectParams option \<Rightarrow> host \<Rightarrow> (response \<times> host) option" where
  "PrepareDevice serial instanceID devCfg cp h =
     (if \<not> requireInit h then Some (not_init, h)
      else if serial = '''' \<or> instanceID = '''' then
        Some (errResp ''ERR_INVALID_ARG'' ''device_serial and instance_id are required'', h)
      else if \<not> h_dm h then None
      else map_option (Pair okResp) (Prepare serial instanceID (ToDeviceConfig devCfg) (toConnectParams cp) h))"

definition rpc_Release :: "string \<Rightarrow> string \<Rightarrow> host \<Rightarrow> (response \<times> host) option" where
  "rpc_Release serial reason h =
     (if \<not> requireInit h then Some (not_init, h)
      else if \<not> h_dm h then None
      else answer ''ERR_DEVICE_NOT_FOUND'' (ReleaseDevice serial reason h))"

definition rpc_Reset :: "string \<Rightarrow> string \<Rightarrow> host \<Rightarrow> (response \<times> host) option" where
  "rpc_Reset serial reason h =
     (if \<not> requireInit h then Some (not_init, h)
      else if \<not> h_dm h then None
      else answer ''ERR_DEVICE_NOT_FOUND'' (ResetDevice serial reason h))"

definition rpc_ListDevices :: "time \<Rightarrow> host \<Rightarrow> (response \<times> DeviceView list) option" where
  "rpc_ListDevices unix_now h =
     (if \<not> requireInit h then Some (not_init, [])
      else if \<not> h_dm h then None
      else Some (okResp, ListDevices unix_now h))"

definition rpc_ForceClose :: "bool \<Rightarrow> string \<Rightarrow> string \<Rightarrow> host \<Rightarrow> (response \<times> host) option" where
  "rpc_ForceClose fin sid reason h =
     (if \<not> requireInit h then Some (not_init, h)
      else if sid = '''' then Some (errResp ''ERR_INVALID_ARG'' ''session_id is required'', h)
      else if \<not> h_dm h then None
      else case GetBySessionID sid h of
          None \<Rightarrow> Some (errResp ''ERR_SESSION_NOT_FOUND'' ''session not found'', h)
        | Some k \<Rightarrow> answer ''ERR_SESSION_NOT_FOUND''
            (with_controller k (ForceCloseSession (device_config_of (ctrl_serial h k) h) fin sid reason) h))"

definition rpc_SetQuality :: "string \<Rightarrow> string \<Rightarrow> host \<Rightarrow> (response \<times> host) option" where
  "rpc_SetQuality serial level h =
     (if \<not> requireInit h then Some (not_init, h)
      else if \<not> h_dm h then None
      else case Get serial h of
          None \<Rightarrow> Some (errResp ''ERR_DEVICE_NOT_FOUND'' ''device not found'', h)
        | Some k \<Rightarrow> answer ''ERR_INVALID_ARG''
            (with_controller k (SetQuality (device_config_of (ctrl_serial h k) h) level) h))"

text \<open>The request's control message is a type and a map, or missing.\<close>

definition rpc_SendControl ::
  "conv \<Rightarrow> (string \<Rightarrow> f64 option) \<Rightarrow> string \<Rightarrow> (string \<times> (string \<times> string) list) option \<Rightarrow> host
   \<Rightarrow> (response \<times> host) option" where
  "rpc_SendControl cv parse_float serial ctl h =
     (if \<not> requireInit h then Some (not_init, h)
      else if \<not> h_dm h then None
      else case Get serial h of
          None \<Rightarrow> Some (errResp ''ERR_DEVICE_NOT_FOUND'' ''device not found'', h)
        | Some k \<Rightarrow>
            (case ctl of
               None \<Rightarrow> Some (errResp ''ERR_INVALID_ARG'' ''control is required'', h)
             | Some (ty, dat) \<Rightarrow>
                 if ty = '''' then Some (errResp ''ERR_INVALID_ARG'' ''control is required'', h)
                 else answer ''ERR_INVALID_ARG''
                   (with_controller k (SendControlRaw cv ty (toControlData parse_float dat)) h)))"

section \<open>Calls\<close>

text \<open>The calls that change the state, as one type, and the code each answers with.\<close>

datatype rpc =
    RpcInit "GlobalConfig option"
  | RpcStart
  | RpcStop
  | RpcReload "GlobalConfig option"
  | RpcPrepare string string "proto_DeviceConfig option" "ConnectParams option"
  | RpcRelease string string
  | RpcReset string string
  | RpcForceClose bool string string
  | RpcSetQuality string string
  | RpcSendControl string "(string \<times> (string \<times> string) list) option"

fun call :: "conv \<Rightarrow> (string \<Rightarrow> f64 option) \<Rightarrow> rpc \<Rightarrow> host \<Rightarrow> (response \<times> host) option" where
  "call cv pf (RpcInit req) h = Some (Init req h)"
| "call cv pf RpcStart h = Some (Start h)"
| "call cv pf RpcStop h = Some (StopHost h)"
| "call cv pf (RpcReload cfg) h = Some (ReloadConfig cfg h)"
| "call cv pf (RpcPrepare serial inst d cp) h = PrepareDevice serial inst d cp h"
| "call cv pf (RpcRelease serial reason) h = rpc_Release serial reason h"
| "call cv pf (RpcReset serial reason) h = rpc_Reset serial reason h"
| "call cv pf (RpcForceClose fin sid reason) h = rpc_ForceClose fin sid reason h"
| "call cv pf (RpcSetQuality serial level) h = rpc_SetQuality serial level h"
| "call cv pf (RpcSendControl serial ctl) h = rpc_SendControl cv pf serial ctl h"

fun run_calls :: "conv \<Rightarrow> (string \<Rightarrow> f64 option) \<Rightarrow> rpc list \<Rightarrow> host \<Rightarrow> (response list \<times> host) option" where
  "run_calls cv pf [] h = Some ([], h)"
| "run_calls cv pf (r # rs) h =
     (case call cv pf r h of
        None \<Rightarrow> None
      | Some (resp, h') \<Rightarrow> map_option (\<lambda>(resps, h''). (resp # resps, h'')) (run_calls cv pf rs h'))"

section \<open>The host's invariant\<close>

lemma host_dm_fields [simp]:
  "dm_inv (h\<lparr>h_state := l\<rparr>) = dm_inv h" "dm_inv (h\<lparr>h_dm := b\<rparr>) = dm_inv h"
  "dm_inv (h\<lparr>h_bootstrapped := b\<rparr>) = dm_inv h" "dm_inv (h\<lparr>h_pool := p\<rparr>) = dm_inv h"
  "ctrl_stopped (h\<lparr>h_state := l\<rparr>) = ctrl_stopped h" "ctrl_stopped (h\<lparr>h_dm := b\<rparr>) = ctrl_stopped h"
  "ctrl_stopped (h\<lparr>h_bootstrapped := b\<rparr>) = ctrl_stopped h"
  "ctrl_stopped (h\<lparr>h_pool := p\<rparr>) = ctrl_stopped h"
  for h :: "'a host_scheme"
  by (simp_all add: dm_inv_def ctrl_serial_def [abs_def] ctrl_stopped_def [abs_def])

lemma store_upd [simp]:
  "ctrl_stopped (h\<lparr>dm_store := st\<rparr>) = ctrl_stopped h" "ctrl_serial (h\<lparr>dm_store := st\<rparr>) = ctrl_serial h"
  by (simp_all add: ctrl_serial_def [abs_def] ctrl_stopped_def [abs_def])

lemma dm_inv_SetGlobal [simp]: "dm_inv (h\<lparr>dm_store := SetGlobal cfg (dm_store h)\<rparr>) = dm_inv h"
  by (simp add: dm_inv_def)

definition host_inv :: "host \<Rightarrow> bool" where
  "host_inv h \<longleftrightarrow>
     dm_inv h
     \<and> (if h_dm h then h_state h \<noteq> Uninitialized \<and> cs_global (dm_store h) \<noteq> None
        else h_state h = Uninitialized \<and> (\<forall>k < dm_next h. ctrl_stopped h k))
     \<and> (h_bootstrapped h \<longrightarrow> h_state h \<noteq> Uninitialized)"

lemma dm_inv_fresh:
  assumes "dm_inv s" "\<forall>k < dm_next s. ctrl_stopped s k"
  shows "dm_inv (s\<lparr>dm_devices := []\<rparr>)"
proof -
  have "ctrl_serial (s\<lparr>dm_devices := []\<rparr>) = ctrl_serial s" "ctrl_stopped (s\<lparr>dm_devices := []\<rparr>) = ctrl_stopped s"
    by (simp_all add: ctrl_serial_def [abs_def] ctrl_stopped_def [abs_def])
  moreover have "cs_device (dm_store s) x = None" for x
    using assms by (rule all_stopped_free)
  ultimately show ?thesis using assms(2) by (simp add: dm_inv_def dm_ok_def)
qed

lemma make_dm_fields [simp]:
  "h_dm (make_dm cfg h)" "dm_store (make_dm cfg h) = dm_store h" "dm_next (make_dm cfg h) = dm_next h"
  "h_state (make_dm cfg h) = h_state h" "ctrl_stopped (make_dm cfg h) = ctrl_stopped h"
  "h_bootstrapped (make_dm cfg h) = h_bootstrapped h"
  by (simp_all add: make_dm_def ctrl_stopped_def [abs_def])

lemma dm_inv_make_dm:
  "dm_inv h \<Longrightarrow> \<forall>k < dm_next h. ctrl_stopped h k \<Longrightarrow> dm_inv (make_dm cfg h)"
  using dm_inv_fresh [of h] by (simp add: make_dm_def)

lemma host_inv_new: "host_inv (New_host (NewConfigStore g) port version now)"
proof -
  let ?h = "New_host (NewConfigStore g) port version now"
  have "dm_devices ?h = []" "dm_next ?h = 0" "dm_store ?h = NewConfigStore g"
    by (simp_all add: New_host_def NewDeviceManager_def dms.defs)
  then show ?thesis
    by (simp add: host_inv_def dm_inv_def dm_ok_def NewConfigStore_def)
      (simp add: New_host_def NewDeviceManager_def dms.defs)
qed

text \<open>The manager is made while there is none.\<close>

lemma host_inv_make:
  assumes "host_inv h" "h_state h = Uninitialized" "cs_global (dm_store h') \<noteq> None"
    and "dm_inv h'" "dm_next h' = dm_next h" "ctrl_stopped h' = ctrl_stopped h" "l \<noteq> Uninitialized"
  shows "host_inv ((make_dm cfg h')\<lparr>h_bootstrapped := b, h_state := l\<rparr>)"
proof -
  have "\<forall>k < dm_next h. ctrl_stopped h k"
    using assms(1,2) by (auto simp: host_inv_def split: if_splits)
  then have "dm_inv (make_dm cfg h')" using assms by (intro dm_inv_make_dm) simp_all
  with assms show ?thesis by (simp add: host_inv_def)
qed

lemma host_inv_bootstrap:
  assumes "host_inv h"
  shows "host_inv (MarkBootstrapped h)"
proof (cases "Global (dm_store h) = None \<or> h_state h \<noteq> Uninitialized")
  case True
  with assms show ?thesis by (auto simp: MarkBootstrapped_def split: option.splits)
next
  case False
  then obtain cfg where g: "cs_global (dm_store h) = Some cfg" by (auto simp: Global_def)
  have "host_inv ((make_dm cfg h)\<lparr>h_bootstrapped := True, h_state := Initialized\<rparr>)"
    by (rule host_inv_make [OF assms]) (use False g assms in \<open>simp_all add: host_inv_def\<close>)
  with False g show ?thesis by (simp add: MarkBootstrapped_def Global_def)
qed

lemma host_inv_Init:
  assumes inv: "host_inv h"
  shows "host_inv (snd (Init req h))"
proof -
  define h1 where "h1 = (\<lambda>cfg. h\<lparr>dm_store := SetGlobal cfg (dm_store h)\<rparr>)"
  have 1: "dm_inv (h1 cfg)" "dm_next (h1 cfg) = dm_next h" "ctrl_stopped (h1 cfg) = ctrl_stopped h"
      "cs_global (dm_store (h1 cfg)) \<noteq> None" "h_dm (h1 cfg) = h_dm h" for cfg
    using inv by (simp_all add: h1_def host_inv_def)
  have "host_inv ((if h_dm h then h1 cfg else make_dm cfg (h1 cfg))\<lparr>h_bootstrapped := False, h_state := Initialized\<rparr>)"
    for cfg
  proof (cases "h_dm h")
    case True
    with inv 1 show ?thesis by (simp add: host_inv_def)
  next
    case False
    then have "h_state h = Uninitialized" using inv by (simp add: host_inv_def)
    from host_inv_make [OF inv this 1(4,1,2,3), where l = Initialized and cfg = cfg and b = False] False
    show ?thesis by simp
  qed
  with inv show ?thesis by (auto simp: Init_def Let_def h1_def 1(5) split: option.splits)
qed

lemma host_inv_state:
  assumes "host_inv h" "h_state h \<noteq> Uninitialized" "l \<noteq> Uninitialized"
  shows "host_inv (h\<lparr>h_state := l\<rparr>)"
  using assms by (auto simp: host_inv_def split: if_splits)

lemma host_inv_Stop: "host_inv h \<Longrightarrow> host_inv (stop_finish (stop_devices h))"
  using dm_inv_StopAll [of h] by (simp add: host_inv_def stop_finish_def stop_devices_def split: if_splits)

text \<open>An operation of the manager, which leaves the host's own fields alone.\<close>

lemma host_inv_dm:
  assumes "host_inv h" "h_dm h" "dm_inv h'" "dms.more h' = dms.more h"
    "cs_global (dm_store h') = cs_global (dm_store h)"
  shows "host_inv h'"
proof -
  have "h_dm h' = h_dm h" "h_state h' = h_state h" "h_bootstrapped h' = h_bootstrapped h"
    using assms(4) by (cases h; cases h'; simp)+
  with assms show ?thesis by (simp add: host_inv_def)
qed

lemma more_ops [simp]:
  "dms.more (set_entry e s) = dms.more s" "dms.more (set_overrides x d s) = dms.more s"
  "dms.more (emit hk s) = dms.more s" "dms.more (stop_ctrl c s) = dms.more s"
  by (simp_all add: set_entry_def set_overrides_def emit_def stop_ctrl_def Let_def split: option.splits)

lemma more_drop [simp]: "dms.more (drop_device x c s) = dms.more s"
  by (simp add: drop_device_def)

lemma Prepare_frame:
  assumes "Prepare x inst d cp s = Some t"
  shows "dms.more t = dms.more s" "cs_global (dm_store t) = cs_global (dm_store s)"
  using assms by (auto simp: Prepare_def Let_def split: option.splits)

lemma Release_frame:
  "dms.more (snd (ReleaseDevice x reason s)) = dms.more s"
  "cs_global (dm_store (snd (ReleaseDevice x reason s))) = cs_global (dm_store s)"
  by (auto simp: ReleaseDevice_def release_locked_def release_rest_def split: option.splits)

lemma Reset_frame:
  "dms.more (snd (ResetDevice x reason s)) = dms.more s"
  "cs_global (dm_store (snd (ResetDevice x reason s))) = cs_global (dm_store s)"
  by (auto simp: ResetDevice_def reset_locked_def reset_rest_def split: option.splits)

lemma host_inv_with_controller:
  assumes inv: "host_inv h" and f: "\<And>c. ct_stopped (snd (f c)) = ct_stopped c" "\<And>c. ct_inst (snd (f c)) = ct_inst c"
  shows "host_inv (snd (with_controller k f h))"
proof -
  let ?h = "snd (with_controller k f h)"
  have h: "?h = h\<lparr>dm_heap := (dm_heap h)(k := (dm_heap h k)\<lparr>dv_ctrl := snd (f (dv_ctrl (dm_heap h k)))\<rparr>)\<rparr>"
    by (simp add: with_controller_def Let_def split: prod.splits)
  have "ctrl_serial ?h = ctrl_serial h" "ctrl_stopped ?h = ctrl_stopped h"
    unfolding h by (auto simp: ctrl_serial_def [abs_def] ctrl_stopped_def [abs_def] f fun_eq_iff)
  with inv show ?thesis unfolding host_inv_def dm_inv_def by (simp add: h)
qed

lemma api_frame [simp]:
  "ct_stopped (snd (ForceCloseSession cfg fin sid reason c)) = ct_stopped c"
  "ct_inst (snd (ForceCloseSession cfg fin sid reason c)) = ct_inst c"
  "ct_stopped (snd (SetQuality cfg level c)) = ct_stopped c"
  "ct_inst (snd (SetQuality cfg level c)) = ct_inst c"
  "ct_stopped (snd (SendControlRaw cv ty dat c)) = ct_stopped c"
  "ct_inst (snd (SendControlRaw cv ty dat c)) = ct_inst c"
  by (auto simp: ForceCloseSession_def preemptAndWait_def preempt_begin_def preempt_end_def Let_def
      stop_ctx_def finish_ctx_def SetQuality_def SendControlRaw_def split: option.splits)

lemma answer_spec:
  "answer code r = Some (if fst r = None then okResp else errResp code (the (fst r)), snd r)"
  by (auto simp: answer_def split: prod.splits option.splits)

lemma host_inv_call:
  assumes inv: "host_inv h"
  shows "\<exists>resp h'. call cv pf r h = Some (resp, h') \<and> host_inv h'"
proof -
  have nil: "h_dm h" "cs_global (dm_store h) \<noteq> None" "dm_inv h" if "requireInit h"
    using inv that by (auto simp: host_inv_def requireInit_def split: if_splits)
  show ?thesis
  proof (cases r)
    case (RpcInit req)
    then show ?thesis using host_inv_Init [OF inv, of req] by (cases "Init req h") simp
  next
    case RpcStart
    then show ?thesis using inv host_inv_state [OF inv]
      by (cases "h_state h") (auto simp: Start_def)
  next
    case RpcStop
    then show ?thesis using host_inv_Stop [OF inv] by (simp add: StopHost_def)
  next
    case (RpcReload cfg)
    have "host_inv (h\<lparr>dm_store := SetGlobal c (dm_store h)\<rparr>)" for c
      using inv by (simp add: host_inv_def split: if_splits)
    with RpcReload inv show ?thesis by (auto simp: ReloadConfig_def split: option.splits)
  next
    case (RpcPrepare serial inst d cp)
    show ?thesis
    proof (cases "requireInit h \<and> serial \<noteq> '''' \<and> inst \<noteq> ''''")
      case True
      obtain t where t: "Prepare serial inst (ToDeviceConfig d) (toConnectParams cp) h = Some t"
        using nil(2) True
        by (cases "Prepare serial inst (ToDeviceConfig d) (toConnectParams cp) h")
          (auto simp: Prepare_def Let_def new_device_def ForDevice_def split: option.splits)
      have "host_inv t"
        by (rule host_inv_dm [OF inv _ dm_inv_Prepare [OF _ t] Prepare_frame [OF t]])
          (use nil True in simp_all)
      with t True nil RpcPrepare show ?thesis by (simp add: PrepareDevice_def)
    qed (use inv RpcPrepare in \<open>auto simp: PrepareDevice_def\<close>)
  next
    case (RpcRelease serial reason)
    have "requireInit h \<Longrightarrow> host_inv (snd (ReleaseDevice serial reason h))"
      by (rule host_inv_dm [OF inv nil(1) dm_inv_Release [OF nil(3)] Release_frame])
    with inv nil RpcRelease show ?thesis by (auto simp: rpc_Release_def answer_spec)
  next
    case (RpcReset serial reason)
    have "requireInit h \<Longrightarrow> host_inv (snd (ResetDevice serial reason h))"
      by (rule host_inv_dm [OF inv nil(1) dm_inv_Reset [OF nil(3)] Reset_frame])
    with inv nil RpcReset show ?thesis by (auto simp: rpc_Reset_def answer_spec)
  next
    case (RpcForceClose fin sid reason)
    with inv nil show ?thesis
      by (auto simp: rpc_ForceClose_def answer_spec intro!: host_inv_with_controller split: option.splits)
  next
    case (RpcSetQuality serial level)
    with inv nil show ?thesis
      by (auto simp: rpc_SetQuality_def answer_spec intro!: host_inv_with_controller split: option.splits)
  next
    case (RpcSendControl serial ctl)
    with inv nil show ?thesis
      by (auto simp: rpc_SendControl_def answer_spec intro!: host_inv_with_controller split: option.splits prod.splits)
  qed
qed

lemma run_calls_inv:
  assumes "host_inv h"
  shows "\<exists>resps h'. run_calls cv pf rs h = Some (resps, h') \<and> length resps = length rs \<and> host_inv h'"
  using assms
proof (induction rs arbitrary: h)
  case (Cons r rs)
  obtain resp h' where c: "call cv pf r h = Some (resp, h')" "host_inv h'"
    using host_inv_call [OF Cons.prems] by blast
  from Cons.IH [OF c(2)] obtain resps h'' where
    "run_calls cv pf rs h' = Some (resps, h'')" "length resps = length rs" "host_inv h''" by blast
  with c show ?case by simp
qed simp

section \<open>What the platform can rely on\<close>

text \<open>A host as \<open>agentd\<close> starts it, with or without a bootstrap configuration.\<close>

definition started :: "AgentConfig option \<Rightarrow> int \<Rightarrow> string \<Rightarrow> time \<Rightarrow> host" where
  "started boot port version now =
     (let h = New_host (NewConfigStore boot) port version now
      in case boot of None \<Rightarrow> h | Some _ \<Rightarrow> MarkBootstrapped h)"

lemma started_inv: "host_inv (started boot port version now)"
  using host_inv_new host_inv_bootstrap [OF host_inv_new]
  by (auto simp: started_def Let_def split: option.splits)


text \<open>The documented life cycle: the state, whether it came from a bootstrap, and the code.\<close>

fun lifecycle_spec :: "rpc \<Rightarrow> lifecycle \<times> bool \<Rightarrow> string \<times> lifecycle \<times> bool" where
  "lifecycle_spec (RpcInit req) (l, b) =
     (if l \<noteq> Uninitialized \<and> \<not> b then (''ERR_ALREADY_INIT'', l, b)
      else if req = None then (''ERR_INVALID_ARG'', l, b) else (''OK'', Initialized, False))"
| "lifecycle_spec RpcStart (l, b) =
     (if l = Uninitialized then (''ERR_NOT_INIT'', l, b) else (''OK'', Running, b))"
| "lifecycle_spec RpcStop (l, b) = (''OK'', Uninitialized, False)"
| "lifecycle_spec (RpcReload cfg) (l, b) =
     (if l = Uninitialized then ''ERR_NOT_INIT''
      else if cfg = None then ''ERR_INVALID_ARG'' else ''OK'', l, b)"
| "lifecycle_spec _ (l, b) = (if l = Uninitialized then ''ERR_NOT_INIT'' else '''', l, b)"

lemma more_lifecycle:
  assumes "dms.more h' = dms.more h"
  shows "h_state h' = h_state h" "h_bootstrapped h' = h_bootstrapped h"
  using assms by (cases h; cases h'; simp)+

lemma with_controller_more: "dms.more (snd (with_controller k f h)) = dms.more h"
  by (simp add: with_controller_def Let_def split: prod.splits)

lemma ToAgentConfig_None [simp]: "ToAgentConfig req = None \<longleftrightarrow> req = None"
  by (simp add: ToAgentConfig_def split: option.splits)

lemma fold_overrides_more: "dms.more (fold (\<lambda>(x, e). set_overrides (de_serial e) None) ds s) = dms.more s"
  by (induction ds arbitrary: s) auto

lemma fold_stop_more: "dms.more (fold (\<lambda>k. stop_ctrl (Some k)) ks s) = dms.more s"
  by (induction ks arbitrary: s) auto

lemma StopAll_more: "dms.more (StopAll s) = dms.more s"
  by (simp add: StopAll_def stop_all_locked_def Let_def fold_stop_more fold_overrides_more)

lemma fold_overrides_global:
  "cs_global (dm_store (fold (\<lambda>(x, e). set_overrides (de_serial e) None) ds s)) = cs_global (dm_store s)"
  by (induction ds arbitrary: s) auto

lemma fold_stop_store: "dm_store (fold (\<lambda>k. stop_ctrl (Some k)) ks s) = dm_store s"
  by (induction ks arbitrary: s) auto

lemma StopAll_global: "cs_global (dm_store (StopAll s)) = cs_global (dm_store s)"
  by (simp add: StopAll_def stop_all_locked_def Let_def fold_stop_store fold_overrides_global)

lemma dm_call_more:
  assumes "call cv pf r h = Some (resp, h')" "h_state h \<noteq> Uninitialized"
    and "case r of RpcPrepare _ _ _ _ \<Rightarrow> True | RpcRelease _ _ \<Rightarrow> True | RpcReset _ _ \<Rightarrow> True
        | RpcForceClose _ _ _ \<Rightarrow> True | RpcSetQuality _ _ \<Rightarrow> True | RpcSendControl _ _ \<Rightarrow> True | _ \<Rightarrow> False"
  shows "dms.more h' = dms.more h \<and> (rs_Ok resp \<longleftrightarrow> rs_ErrorCode resp = ''OK'')"
  using assms
  by (cases r)
    (auto simp: PrepareDevice_def rpc_Release_def rpc_Reset_def rpc_ForceClose_def rpc_SetQuality_def
      rpc_SendControl_def requireInit_def answer_spec Release_frame Reset_frame with_controller_more
      okResp_def errResp_def dest: Prepare_frame split: if_splits option.splits prod.splits)


definition demo_global :: GlobalConfig where
  "demo_global = \<lparr>gc_SignalingUrl = ''ws://sig'', gc_ServiceId = ''svc'', gc_StunServers = [],
     gc_TurnServer = None, gc_Scrcpy = None, gc_AdbPath = '''', gc_QosIntervalMs = 0\<rparr>"


text \<open>
  The documented default of the port pool does not apply.  \<open>Init\<close> stores the configuration with
  its defaults, but makes the pool from the configuration as it was sent: when the size is left out,
  the stored configuration says 100 ports, \<open>Init\<close> answers OK, and the pool has none, so that no
  device session can ever get a port.
\<close>

theorem init_pool_undersized:
  assumes "h_state h = Uninitialized" "\<not> h_dm h"
    and "case gc_Scrcpy req of None \<Rightarrow> True | Some s \<Rightarrow> ps_PortPoolSize s = 0"
  shows "case Init (Some req) h of (resp, h') \<Rightarrow>
      rs_Ok resp
      \<and> (\<exists>cfg. Global (dm_store h') = Some cfg \<and> sc_PortPoolSize (ac_Scrcpy cfg) = 100)
      \<and> Acquire (h_pool h') = (Inl PoolExhausted, h_pool h')"
  using assms
  by (auto simp: Init_def Let_def ToAgentConfig_def Global_def make_dm_def Acquire_def New_pool_def okResp_def
      applyDefaults_def scrcpy_defaults_def or_int_def zero_ScrcpyConfig_def FromProtoScrcpy_def
      split: option.splits)

theorem init_pool_undersized_witness:
  "Acquire (h_pool (snd (Init (Some demo_global) (started None 17890 ''0.1.0'' 0)))) =
     (Inl PoolExhausted, h_pool (snd (Init (Some demo_global) (started None 17890 ''0.1.0'' 0))))"
  using init_pool_undersized [of "started None 17890 ''0.1.0'' 0" demo_global]
  by (auto simp: demo_global_def started_def Let_def New_host_def dms.defs)

text \<open>
  A bootstrap's pool survives the \<open>Init\<close> that is meant to replace the whole configuration.
\<close>

lemma init_keeps_bootstrap_pool:
  "h_bootstrapped h \<Longrightarrow> h_dm h \<Longrightarrow> h_pool (snd (Init (Some req) h)) = h_pool h"
  by (simp add: Init_def Let_def ToAgentConfig_def)

lemma Acquire_fresh:
  assumes "0 < n"
  shows "fst (Acquire (New_pool st n)) = Inr st" "st \<in> held (snd (Acquire (New_pool st n)))"
proof -
  obtain k where "nat n = Suc k" using assms by (metis gr0_implies_Suc zero_less_nat_eq)
  then show "fst (Acquire (New_pool st n)) = Inr st" "st \<in> held (snd (Acquire (New_pool st n)))"
    by (simp_all add: Acquire_def New_pool_def in_use_def held_def)
qed

lemma StopHost_pool: "h_pool (snd (StopHost h)) = h_pool h"
proof -
  have "h_pool (StopAll h) = h_pool h"
    using StopAll_more [of h] by (cases "StopAll h"; cases h) simp
  then show ?thesis by (simp add: StopHost_def stop_finish_def stop_devices_def)
qed

lemma Init_fresh:
  assumes "ToAgentConfig req = Some cfg" "h_state h = Uninitialized" "\<not> h_dm h"
  shows "fst (Init req h) = okResp\<lparr>rs_ActualPort := wrap32 (h_port h)\<rparr>"
    and "h_pool (snd (Init req h)) = New_pool (sc_PortPoolStart (ac_Scrcpy cfg)) (sc_PortPoolSize (ac_Scrcpy cfg))"
    and "h_dm (snd (Init req h))" "h_state (snd (Init req h)) = Initialized"
    and "dm_devices (snd (Init req h)) = []" "dm_heap (snd (Init req h)) = dm_heap h"
  using assms by (simp_all add: Init_def make_dm_def Let_def)

lemma StopHost_state: "h_state (snd (StopHost h)) = Uninitialized" "\<not> h_dm (snd (StopHost h))"
  by (simp_all add: StopHost_def stop_finish_def)

text \<open>
  The platform's reset loses the ports that are still in use.  \<open>Stop\<close> hands the device sessions
  to their warm timers, which keep the servers and their ports for minutes; the next \<open>Init\<close> makes a
  new pool, which knows nothing of them: the first session it serves is given a port that an
  \<open>adb forward\<close> rule of the old pool still holds.
\<close>

theorem reinit_reuses_held_port:
  assumes "ToAgentConfig req = Some cfg" "0 < sc_PortPoolSize (ac_Scrcpy cfg)"
    and "sc_PortPoolStart (ac_Scrcpy cfg) \<in> held (h_pool h)"
  shows "let h1 = snd (StopHost h); h2 = snd (Init req h1); p = sc_PortPoolStart (ac_Scrcpy cfg)
    in rs_Ok (fst (Init req h1)) \<and> p \<in> held (h_pool h1) \<and> fst (Acquire (h_pool h2)) = Inr p"
  using assms StopHost_pool [of h] StopHost_state [of h] Init_fresh [OF assms(1), of "snd (StopHost h)"]
  by (simp add: Let_def Acquire_fresh okResp_def)

definition demo_req :: GlobalConfig where
  "demo_req = demo_global\<lparr>gc_Scrcpy := Some (ToProtoScrcpy (scrcpy_defaults zero_ScrcpyConfig))\<rparr>"

lemma demo_req_config:
  "\<exists>cfg. ToAgentConfig (Some demo_req) = Some cfg \<and> sc_PortPoolStart (ac_Scrcpy cfg) = 30000
     \<and> sc_PortPoolSize (ac_Scrcpy cfg) = 100"
  by (simp add: ToAgentConfig_def demo_req_def demo_global_def FromProtoScrcpy_def ToProtoScrcpy_def
      scrcpy_defaults_def or_int_def zero_ScrcpyConfig_def wrap32_def)

lemma started_port: "h_port (started None port v now) = port"
  by (simp add: started_def Let_def New_host_def dms.defs)

lemma started_none: "h_state (started None port v now) = Uninitialized" "\<not> h_dm (started None port v now)"
  by (simp_all add: started_def Let_def New_host_def dms.defs)

text \<open>The host after its first session took a port.\<close>

definition demo_host :: host where
  "demo_host = snd (Init (Some demo_req) (started None 17890 ''0.1.0'' 0))"

definition demo_serving :: host where
  "demo_serving = demo_host\<lparr>h_pool := snd (Acquire (h_pool demo_host))\<rparr>"

theorem reinit_reuses_held_port_witness:
  "let h1 = snd (StopHost demo_serving); h2 = snd (Init (Some demo_req) h1)
   in fst (Acquire (h_pool demo_host)) = Inr 30000 \<and> 30000 \<in> held (h_pool h1)
      \<and> fst (Acquire (h_pool h2)) = Inr 30000"
proof -
  obtain cfg where cfg: "ToAgentConfig (Some demo_req) = Some cfg"
      "sc_PortPoolStart (ac_Scrcpy cfg) = 30000" "sc_PortPoolSize (ac_Scrcpy cfg) = 100"
    using demo_req_config by blast
  have p: "h_pool demo_host = New_pool 30000 100"
    using Init_fresh(2) [OF cfg(1) started_none] cfg by (simp add: demo_host_def)
  then have "30000 \<in> held (h_pool demo_serving)"
    by (simp add: demo_serving_def Acquire_fresh)
  with reinit_reuses_held_port [OF cfg(1), of demo_serving] p show ?thesis
    by (simp add: cfg Let_def Acquire_fresh)
qed

lemma Prepare_gets:
  assumes "dm_inv s" "Prepare x inst d cp s = Some t"
  shows "Get x t \<noteq> None"
  using assms by (cases rule: Prepare_cases) (auto simp: Get_def)

lemma StopHost_empty: "dm_devices h = [] \<Longrightarrow> dm_heap (snd (StopHost h)) = dm_heap h"
  by (simp add: StopHost_def stop_finish_def stop_devices_def StopAll_def stop_all_locked_def)

text \<open>
  C39. \<open>Stop\<close> is not atomic: it releases the host's lock while it stops the devices and forgets the
  device manager afterwards.  A device prepared in between, which is answered OK, keeps its
  controller: the agent is uninitialized, but the controller still runs and holds its signaling
  connection; after the next \<open>Init\<close> no call reaches it, it is not listed, and the next \<open>Stop\<close> does not
  stop it.
\<close>

theorem stop_race_leaks_controller:
  assumes "run_calls cv pf rs (started boot port v now) = Some (resps, h)" "h_state h \<noteq> Uninitialized"
    and "serial \<noteq> ''''" "inst \<noteq> ''''"
  shows "\<exists>h2 k. PrepareDevice serial inst d cp (stop_devices h) = Some (okResp, h2)
    \<and> Get serial h2 = Some k
    \<and> (let h3 = stop_finish h2; h4 = snd (Init (Some req) h3); h5 = snd (StopHost h4)
       in h_state h3 = Uninitialized \<and> \<not> ctrl_stopped h3 k
          \<and> ListDevices unow h4 = [] \<and> \<not> ctrl_stopped h4 k \<and> \<not> ctrl_stopped h5 k)"
proof -
  have inv: "host_inv h"
    using run_calls_inv [OF started_inv, of cv pf rs boot port v now] assms(1) by auto
  have dm: "h_dm h" using inv assms(2) by (auto simp: host_inv_def split: if_splits)
  have more: "dms.more (stop_devices h) = dms.more h" by (simp add: stop_devices_def StopAll_more)
  have "dm_inv (stop_devices h)" "cs_global (dm_store (stop_devices h)) = cs_global (dm_store h)"
    using dm_inv_StopAll [of h] inv dm by (simp_all add: stop_devices_def host_inv_def StopAll_global)
  then have inv1: "host_inv (stop_devices h)" using host_inv_dm [OF inv dm _ more] by blast
  obtain resp h2 where c: "call cv pf (RpcPrepare serial inst d cp) (stop_devices h) = Some (resp, h2)"
      "host_inv h2"
    using host_inv_call [OF inv1] by blast
  have "requireInit (stop_devices h)" using more_lifecycle(1) [OF more] assms(2) by (simp add: requireInit_def)
  with c(1) assms(3,4) have p: "PrepareDevice serial inst d cp (stop_devices h) = Some (okResp, h2)"
      "Prepare serial inst (ToDeviceConfig d) (toConnectParams cp) (stop_devices h) = Some h2"
    by (auto simp: PrepareDevice_def split: if_splits)
  have inv2: "dm_inv (stop_devices h)" "dm_inv h2" using inv1 c(2) by (simp_all add: host_inv_def)
  obtain k where k: "Get serial h2 = Some k" using Prepare_gets [OF inv2(1) p(2)] by blast
  have "\<not> ctrl_stopped h2 k"
    using inv2(2) k unfolding dm_inv_def Get_has_ctrl by (meson ok_has_ctrl(3))
  obtain cfg where cfg: "ToAgentConfig (Some req) = Some cfg" by (simp add: ToAgentConfig_def)
  define h3 where "h3 = stop_finish h2"
  define h4 where "h4 = snd (Init (Some req) h3)"
  have s3: "h_state h3 = Uninitialized" "\<not> h_dm h3" "dm_heap h3 = dm_heap h2"
    by (simp_all add: h3_def stop_finish_def)
  note i = Init_fresh [OF cfg s3(1,2), folded h4_def]
  have "ListDevices unow h4 = []" "dm_heap (snd (StopHost h4)) = dm_heap h2"
    using i s3 StopHost_empty by (simp_all add: ListDevices_def)
  with p(1) k \<open>\<not> ctrl_stopped h2 k\<close> i s3 show ?thesis
    by (simp add: Let_def ctrl_stopped_def flip: h3_def h4_def)
qed

theorem stop_race_leaks_controller_witness:
  "\<exists>h2 k. PrepareDevice ''dev1'' ''cloud1'' None None (stop_devices demo_host) = Some (okResp, h2)
     \<and> h_state (stop_finish h2) = Uninitialized \<and> \<not> ctrl_stopped (stop_finish h2) k"
proof -
  obtain cfg where cfg: "ToAgentConfig (Some demo_req) = Some cfg" using demo_req_config by blast
  have "run_calls conv_zero (\<lambda>_. None) [RpcInit (Some demo_req)] (started None 17890 ''0.1.0'' 0)
      = Some ([okResp\<lparr>rs_ActualPort := 17890\<rparr>], demo_host)"
    using Init_fresh(1) [OF cfg started_none, of 17890 "''0.1.0''" 0] unfolding demo_host_def started_port
    by (cases "Init (Some demo_req) (started None 17890 ''0.1.0'' 0)") (simp add: wrap32_def)
  from stop_race_leaks_controller [OF this, of "''dev1''" "''cloud1''" None None demo_req 0]
  show ?thesis
    using Init_fresh(4) [OF cfg started_none] by (auto simp: Let_def demo_host_def)
qed


end
