(* ===== verification/Signaling.thy ===== *)
theory Signaling
  imports Messages GoStrings Config "HOL-Library.Sublist"
begin

text \<open>
  The signaling server: \<open>pkg/signaling/registry.go\<close> and \<open>pkg/signaling/server.go\<close>, with the
  request paths and the server options of \<open>cmd/signaling/main.go\<close>.

  A WebSocket is a number.  \<open>AgentInfo\<close> objects are compared by pointer: \<open>sv_infos\<close> is the heap
  they live in.  \<open>sv_log\<close> records what is written and closed, in order; a write to a closed socket
  has no effect.  The handlers run in goroutines of their own: each step below is one message, one
  connection or one disconnection handled, in any order.  The map of browser sessions is ranged
  over in no particular order: it is a list of entries, in any order.
\<close>

section \<open>The registry of agents\<close>

record AgentInfo =
  ai_ServiceID :: string
  ai_InstanceID :: string
  ai_DeviceSerial :: string
  ai_Conn :: nat

definition full_id :: "string \<Rightarrow> string \<Rightarrow> string" where
  "full_id serviceID instanceID = serviceID @ ''/'' @ instanceID"

definition fullID :: "AgentInfo \<Rightarrow> string" where
  "fullID a = full_id (ai_ServiceID a) (ai_InstanceID a)"

record browserSession =
  bs_sessionID :: string
  bs_serviceID :: string
  bs_instanceID :: string

record Options =
  op_STUNServers :: "string list"
  op_TURNServer :: "IceServerEntry option"

datatype ws_event = Sent nat WsMsg | Closed nat

record server =
  sv_opts :: Options
  sv_infos :: "nat \<Rightarrow> AgentInfo"
  sv_byID :: "string \<rightharpoonup> nat"
  sv_browserSessions :: "(nat \<times> browserSession) list"
  sv_relaySessions :: "string \<rightharpoonup> nat"
  sv_closed :: "nat set"
  sv_log :: "ws_event list"

definition New_server :: "Options \<Rightarrow> server" where
  "New_server opts = \<lparr>
     sv_opts = opts\<lparr>op_STUNServers :=
       (if op_STUNServers opts = [] then [''stun:stun.l.google.com:19302''] else op_STUNServers opts)\<rparr>,
     sv_infos = (\<lambda>_. \<lparr>ai_ServiceID = '''', ai_InstanceID = '''', ai_DeviceSerial = '''', ai_Conn = 0\<rparr>),
     sv_byID = Map.empty, sv_browserSessions = [], sv_relaySessions = Map.empty,
     sv_closed = {}, sv_log = []\<rparr>"

definition close_ws :: "nat \<Rightarrow> server \<Rightarrow> server" where
  "close_ws ws s = s\<lparr>sv_closed := insert ws (sv_closed s), sv_log := sv_log s @ [Closed ws]\<rparr>"

definition writeWS :: "nat \<Rightarrow> WsMsg \<Rightarrow> server \<Rightarrow> server" where
  "writeWS ws msg s = (if ws \<in> sv_closed s then s else s\<lparr>sv_log := sv_log s @ [Sent ws msg]\<rparr>)"

definition writeAgentWS :: "nat \<Rightarrow> WsMsg \<Rightarrow> server \<Rightarrow> server" where
  "writeAgentWS a msg s = writeWS (ai_Conn (sv_infos s a)) msg s"

definition register :: "nat \<Rightarrow> server \<Rightarrow> server" where
  "register a s =
     (let fid = fullID (sv_infos s a);
          s1 = (case sv_byID s fid of
                  Some old \<Rightarrow> if ai_Conn (sv_infos s old) \<noteq> ai_Conn (sv_infos s a)
                               then close_ws (ai_Conn (sv_infos s old)) s else s
                | None \<Rightarrow> s)
      in s1\<lparr>sv_byID := (sv_byID s1)(fid \<mapsto> a)\<rparr>)"

definition remove_agent :: "nat \<Rightarrow> server \<Rightarrow> server" where
  "remove_agent a s =
     (let fid = fullID (sv_infos s a)
      in if sv_byID s fid = Some a then s\<lparr>sv_byID := (sv_byID s)(fid := None)\<rparr> else s)"

definition lookup_agent :: "string \<Rightarrow> string \<Rightarrow> server \<Rightarrow> nat option" where
  "lookup_agent serviceID instanceID s = sv_byID s (full_id serviceID instanceID)"

definition all_agents :: "server \<Rightarrow> AgentInfo set" where
  "all_agents s = sv_infos s ` ran (sv_byID s)"

section \<open>ICE servers\<close>

definition buildICEServerEntries :: "Options \<Rightarrow> IceServerEntry list" where
  "buildICEServerEntries o1 =
     map (\<lambda>u. \<lparr>ise_URLs = [u], ise_Username = '''', ise_Credential = '''', ise_CredentialType = ''''\<rparr>)
         (filter (\<lambda>u. u \<noteq> '''') (op_STUNServers o1))
     @ (case op_TURNServer o1 of
          None \<Rightarrow> []
        | Some t \<Rightarrow>
            (let valid = filter (\<lambda>u. u \<noteq> '''') (ise_URLs t)
             in if valid \<noteq> [] then [t\<lparr>ise_URLs := valid\<rparr>] else []))"

text \<open>The options \<open>main\<close> makes of the configuration: the first TURN server, with its credentials.\<close>

definition server_options :: "SignalingWebRTCConfig \<Rightarrow> Options" where
  "server_options c = \<lparr>
     op_STUNServers = sw_STUNServers c,
     op_TURNServer =
       (case sw_TURNServers c of
          [] \<Rightarrow> None
        | t # _ \<Rightarrow> Some \<lparr>ise_URLs = tics_URLs t,
             ise_Username = (case tics_Auth t of Some a \<Rightarrow> auth_Username a | None \<Rightarrow> ''''),
             ise_Credential = (case tics_Auth t of Some a \<Rightarrow> auth_Credential a | None \<Rightarrow> ''''),
             ise_CredentialType = ''''\<rparr>)\<rparr>"

section \<open>Sessions of browsers\<close>

fun forwardToBrowser_loop :: "(nat \<times> browserSession) list \<Rightarrow> WsMsg \<Rightarrow> server \<Rightarrow> server" where
  "forwardToBrowser_loop [] msg s = s"
| "forwardToBrowser_loop ((ws, sess) # r) msg s =
     (if bs_sessionID sess = ws_SessionID msg then writeWS ws msg s
      else forwardToBrowser_loop r msg s)"

definition forwardToBrowser :: "WsMsg \<Rightarrow> server \<Rightarrow> server" where
  "forwardToBrowser msg s = forwardToBrowser_loop (sv_browserSessions s) msg s"

definition delete_browser :: "nat \<Rightarrow> server \<Rightarrow> server" where
  "delete_browser ws s =
     s\<lparr>sv_browserSessions := filter (\<lambda>(w, _). w \<noteq> ws) (sv_browserSessions s)\<rparr>"

fun preempt_loop :: "(nat \<times> browserSession) list \<Rightarrow> string \<Rightarrow> server \<Rightarrow> server" where
  "preempt_loop [] sid s = s"
| "preempt_loop ((ws, sess) # r) sid s =
     (if bs_sessionID sess = sid then
        delete_browser ws (close_ws ws
          (writeWS ws ((msg_of_type TypePreempted)\<lparr>ws_SessionID := sid\<rparr>) s))
      else preempt_loop r sid s)"

definition preemptBrowser :: "string \<Rightarrow> server \<Rightarrow> server" where
  "preemptBrowser sid s = preempt_loop (sv_browserSessions s) sid s"

fun close_loop :: "(nat \<times> browserSession) list \<Rightarrow> string \<Rightarrow> string \<Rightarrow> server \<Rightarrow> server" where
  "close_loop [] svc inst s = s"
| "close_loop ((ws, sess) # r) svc inst s =
     close_loop r svc inst
       (if bs_serviceID sess = svc \<and> bs_instanceID sess = inst
        then delete_browser ws (close_ws ws s) else s)"

definition closeBrowsersForAgent :: "string \<Rightarrow> string \<Rightarrow> server \<Rightarrow> server" where
  "closeBrowsersForAgent svc inst s = close_loop (sv_browserSessions s) svc inst s"

definition forwardToRelay :: "WsMsg \<Rightarrow> server \<Rightarrow> server" where
  "forwardToRelay msg s =
     (case sv_relaySessions s (ws_RelayID msg) of None \<Rightarrow> s | Some ws \<Rightarrow> writeWS ws msg s)"

section \<open>Handlers\<close>

text \<open>
  \<open>HandleAgentWS\<close>: the first message (\<open>None\<close>: it could not be read), the messages after it, and the
  deferred clean-up when the connection ends.  \<open>a\<close> is the new \<open>AgentInfo\<close> object.
\<close>

definition agent_connects :: "nat \<Rightarrow> nat \<Rightarrow> string \<Rightarrow> WsMsg option \<Rightarrow> server \<Rightarrow> server" where
  "agent_connects a ws serviceID first s =
     (case first of
        None \<Rightarrow> close_ws ws s
      | Some reg \<Rightarrow>
          if ws_Type reg \<noteq> TypeRegister then close_ws ws s
          else
            let info = \<lparr>ai_ServiceID = serviceID, ai_InstanceID = ws_InstanceID reg,
                        ai_DeviceSerial = ws_DeviceSerial reg, ai_Conn = ws\<rparr>;
                s1 = register a (s\<lparr>sv_infos := (sv_infos s)(a := info)\<rparr>);
                s2 = writeAgentWS a (msg_of_type ''registered'') s1
            in writeAgentWS a
                 ((msg_of_type TypeIceServers)\<lparr>ws_IceServers := buildICEServerEntries (sv_opts s2)\<rparr>) s2)"

definition agent_message :: "nat \<Rightarrow> WsMsg \<Rightarrow> server \<Rightarrow> server" where
  "agent_message a msg s =
     (if ws_Type msg \<in> {TypeAnswer, TypeIceCandidate, TypeError, TypeStreamDead}
      then forwardToBrowser msg s
      else if ws_Type msg = ''relay'' then forwardToRelay msg s
      else if ws_Type msg = TypePreempted then preemptBrowser (ws_SessionID msg) s
      else if ws_Type msg = TypePing then writeAgentWS a (msg_of_type TypePong) s
      else s)"

definition agent_gone :: "nat \<Rightarrow> server \<Rightarrow> server" where
  "agent_gone a s =
     closeBrowsersForAgent (ai_ServiceID (sv_infos s a)) (ai_InstanceID (sv_infos s a))
       (remove_agent a s)"

text \<open>\<open>HandleBrowserWS\<close>; \<open>sid\<close> is the new UUID.\<close>

definition browser_connects :: "nat \<Rightarrow> string \<Rightarrow> string \<Rightarrow> string \<Rightarrow> server \<Rightarrow> server" where
  "browser_connects ws sid serviceID instanceID s =
     (case lookup_agent serviceID instanceID s of
        None \<Rightarrow>
          close_ws ws (writeWS ws ((msg_of_type TypeError)\<lparr>ws_PCID := ''device not found'',
            ws_Message := ''device not found''\<rparr>) s)
      | Some a \<Rightarrow>
          (let s1 = s\<lparr>sv_browserSessions :=
                 (ws, \<lparr>bs_sessionID = sid, bs_serviceID = serviceID, bs_instanceID = instanceID\<rparr>)
                 # filter (\<lambda>(w, _). w \<noteq> ws) (sv_browserSessions s)\<rparr>;
               s2 = writeAgentWS a ((msg_of_type TypeBound)\<lparr>ws_SessionID := sid\<rparr>) s1
           in writeWS ws
                ((msg_of_type TypeIceServers)\<lparr>ws_IceServers := buildICEServerEntries (sv_opts s2)\<rparr>) s2))"

text \<open>The clean-up of the goroutine that reads the browser.\<close>

definition browser_gone :: "nat \<Rightarrow> string \<Rightarrow> string \<Rightarrow> string \<Rightarrow> server \<Rightarrow> server" where
  "browser_gone ws sid serviceID instanceID s =
     (let s1 = (case lookup_agent serviceID instanceID s of
                  None \<Rightarrow> s
                | Some cur \<Rightarrow> writeAgentWS cur ((msg_of_type TypeUnbound)\<lparr>ws_SessionID := sid\<rparr>) s)
      in close_ws ws (delete_browser ws s1))"

definition browser_message :: "nat \<Rightarrow> string \<Rightarrow> string \<Rightarrow> string \<Rightarrow> WsMsg \<Rightarrow> server \<Rightarrow> server" where
  "browser_message ws sid serviceID instanceID msg0 s =
     (let msg = msg0\<lparr>ws_SessionID := sid\<rparr>
      in case lookup_agent serviceID instanceID s of
           None \<Rightarrow>
             browser_gone ws sid serviceID instanceID
               (writeWS ws ((msg_of_type TypeError)\<lparr>ws_Message := ''device offline''\<rparr>) s)
         | Some cur \<Rightarrow> writeAgentWS cur msg s)"

text \<open>\<open>HandleRelayWS\<close>: one message, with the identifiers the connection owns so far; and its end.\<close>

definition relay_message ::
  "nat \<Rightarrow> string \<Rightarrow> string \<Rightarrow> WsMsg \<Rightarrow> string set \<times> server \<Rightarrow> string set \<times> server" where
  "relay_message ws serviceID instanceID msg = (\<lambda>(owned, s).
     if ws_Type msg \<noteq> ''relay'' \<or> ws_Payload msg = None \<or> ws_RelayID msg = '''' then (owned, s)
     else
       let s1 = s\<lparr>sv_relaySessions := (sv_relaySessions s)(ws_RelayID msg \<mapsto> ws)\<rparr>;
           owned1 = insert (ws_RelayID msg) owned
       in case lookup_agent serviceID instanceID s1 of
            None \<Rightarrow>
              (owned1, writeWS ws ((msg_of_type ''relay'')\<lparr>ws_RelayID := ws_RelayID msg,
                 ws_Payload := Some [(''type'', JStr ''error''), (''message'', JStr ''device offline'')]\<rparr>) s1)
          | Some a \<Rightarrow> (owned1, writeAgentWS a msg s1))"

definition relay_gone :: "nat \<Rightarrow> string set \<Rightarrow> server \<Rightarrow> server" where
  "relay_gone ws owned s =
     close_ws ws (s\<lparr>sv_relaySessions :=
       (\<lambda>rid. if rid \<in> owned \<and> sv_relaySessions s rid = Some ws then None else sv_relaySessions s rid)\<rparr>)"

section \<open>Request paths\<close>

definition pathLast :: "string \<Rightarrow> string" where
  "pathLast path = last (split_on (CHR ''/'') path)"

definition trim_right_slash :: "string \<Rightarrow> string" where
  "trim_right_slash path = rev (dropWhile (\<lambda>c. c = CHR ''/'') (rev path))"

definition pathLast2 :: "string \<Rightarrow> string \<times> string" where
  "pathLast2 path =
     (let parts = split_on (CHR ''/'') (trim_right_slash path)
      in if length parts < 2 then ('''', '''')
         else (parts ! (length parts - 2), parts ! (length parts - 1)))"

text \<open>
  The handlers \<open>main\<close> registers, for the paths the multiplexer delivers (it has already redirected a
  path with an empty or a dot element).  \<open>static\<close> is whether a directory of files is configured.
\<close>

datatype endpoint =
    BadRequest string | AgentWS string | BrowserWS string string | RelayWS string string
  | Health | ApiAgents | ApiHealth | StaticFile | Redirect string | MethodNotAllowed | NotFound

definition ws_pair :: "(string \<Rightarrow> string \<Rightarrow> endpoint) \<Rightarrow> string \<Rightarrow> endpoint" where
  "ws_pair handler path =
     (let (svc, inst) = pathLast2 path
      in if svc = '''' \<or> inst = '''' then BadRequest ''missing service_id or instance_id''
         else handler svc inst)"

definition get_only :: "bool \<Rightarrow> string \<Rightarrow> endpoint \<Rightarrow> endpoint" where
  "get_only static meth e =
     (if meth = ''GET'' \<or> meth = ''HEAD'' then e else if static then StaticFile else MethodNotAllowed)"

definition route :: "bool \<Rightarrow> string \<Rightarrow> string \<Rightarrow> endpoint" where
  "route static meth path =
     (if path \<in> {''/ws/agent'', ''/ws/browser'', ''/ws/relay''} then Redirect (path @ ''/'')
      else if prefix ''/ws/agent/'' path then
        (let svc = pathLast path in if svc = '''' then BadRequest ''missing service_id'' else AgentWS svc)
      else if prefix ''/ws/browser/'' path then ws_pair BrowserWS path
      else if prefix ''/ws/relay/'' path then ws_pair RelayWS path
      else if path = ''/health'' then get_only static meth Health
      else if path = ''/api/agents'' then get_only static meth ApiAgents
      else if path = ''/api/health'' then get_only static meth ApiHealth
      else if static then StaticFile else NotFound)"

text \<open>
  What a handler does with a connection the upgrade made: \<open>ws\<close>, with the new agent object \<open>a\<close> and the
  agent's first message, or the browser's new session \<open>sid\<close>.
\<close>

definition upgraded :: "endpoint \<Rightarrow> nat \<Rightarrow> nat \<Rightarrow> WsMsg option \<Rightarrow> string \<Rightarrow> server \<Rightarrow> server" where
  "upgraded e ws a first sid s =
     (case e of
        AgentWS svc \<Rightarrow> agent_connects a ws svc first s
      | BrowserWS svc inst \<Rightarrow> browser_connects ws sid svc inst s
      | _ \<Rightarrow> s)"

text \<open>The rows of \<open>/api/agents\<close>, in the order of no map, and the count of the health checks.\<close>

definition api_agents :: "server \<Rightarrow> (string \<times> string \<times> string \<times> bool) set" where
  "api_agents s =
     (\<lambda>a. (ai_ServiceID a, ai_InstanceID a, ai_DeviceSerial a, True)) ` all_agents s"

definition agent_count :: "server \<Rightarrow> nat" where
  "agent_count s = card (dom (sv_byID s))"

text \<open>\<open>Close\<close> closes the agents' connections, in the given order of the registry.\<close>

definition Close_server :: "nat list \<Rightarrow> server \<Rightarrow> server" where
  "Close_server order s = fold (\<lambda>a. close_ws (ai_Conn (sv_infos s a))) order s"

section \<open>Identities\<close>

lemma full_id_inject:
  assumes "CHR ''/'' \<notin> set a" "CHR ''/'' \<notin> set c"
  shows "full_id a b = full_id c d \<longleftrightarrow> a = c \<and> b = d"
proof
  assume "full_id a b = full_id c d"
  then have "a @ CHR ''/'' # b = c @ CHR ''/'' # d" by (simp add: full_id_def)
  with assms show "a = c \<and> b = d"
    by (auto simp: append_eq_append_conv2 append_eq_Cons_conv Cons_eq_append_conv)
qed simp

lemma pathLast_no_slash: "CHR ''/'' \<notin> set (pathLast path)"
  unfolding pathLast_def by (rule split_on_no_sep [of _ _ path]) simp

lemma pathLast2_no_slash:
  "CHR ''/'' \<notin> set (fst (pathLast2 path))" "CHR ''/'' \<notin> set (snd (pathLast2 path))"
proof -
  let ?parts = "split_on (CHR ''/'') (trim_right_slash path)"
  have "x \<in> set ?parts \<Longrightarrow> CHR ''/'' \<notin> set x" for x by (rule split_on_no_sep)
  then show "CHR ''/'' \<notin> set (fst (pathLast2 path))" "CHR ''/'' \<notin> set (snd (pathLast2 path))"
    by (auto simp: pathLast2_def Let_def)
qed

text \<open>
  The identity under which a browser or a relay finds an agent is unambiguous, although the
  server joins service and instance with a slash and an agent chooses its instance freely: a request
  for a path reaches an agent registered from another path exactly when both name the same service
  and the same instance.
\<close>

theorem identity_unambiguous:
  "full_id (pathLast agent_path) inst = full_id (fst (pathLast2 path)) (snd (pathLast2 path))
     \<longleftrightarrow> pathLast agent_path = fst (pathLast2 path) \<and> inst = snd (pathLast2 path)"
  by (rule full_id_inject) (rule pathLast_no_slash pathLast2_no_slash)+

text \<open>The paths the agent and the browser ask for reach their handlers with the names they hold.\<close>

definition path_name :: "string \<Rightarrow> bool" where
  "path_name s \<longleftrightarrow> s \<noteq> [] \<and> list_all (\<lambda>c. let n = of_char c :: nat
     in 48 \<le> n \<and> n \<le> 57 \<or> 65 \<le> n \<and> n \<le> 90 \<or> 97 \<le> n \<and> n \<le> 122 \<or> n = 45 \<or> n = 95) s"

lemma path_name_no_slash: "path_name s \<Longrightarrow> CHR ''/'' \<notin> set s"
proof
  assume "path_name s" "CHR ''/'' \<in> set s"
  then have "let n = of_char (CHR ''/'') :: nat
     in 48 \<le> n \<and> n \<le> 57 \<or> 65 \<le> n \<and> n \<le> 90 \<or> 97 \<le> n \<and> n \<le> 122 \<or> n = 45 \<or> n = 95"
    by (simp only: path_name_def list_all_iff)
  then show False by (simp add: Let_def)
qed

lemma split_on_ws:
  assumes "CHR ''/'' \<notin> set w"
  shows "split_on (CHR ''/'') (''/ws/'' @ w @ ''/'' @ r) = [[], ''ws'', w] @ split_on (CHR ''/'') r"
  using split_on_append [of "CHR ''/''" w r] assms by simp

lemma route_agent:
  assumes "path_name svc"
  shows "route static meth (''/ws/agent/'' @ svc) = AgentWS svc"
proof -
  have "pathLast (''/ws/agent/'' @ svc) = svc"
    using split_on_ws [of "''agent''" svc] split_on_plain [OF path_name_no_slash [OF assms]]
    by (simp add: pathLast_def)
  then show ?thesis using assms by (simp add: route_def path_name_def)
qed

lemma route_pair:
  assumes "path_name svc" "path_name inst" "CHR ''/'' \<notin> set w"
  shows "pathLast2 (''/ws/'' @ w @ ''/'' @ svc @ ''/'' @ inst) = (svc, inst)"
proof -
  note ns = path_name_no_slash [OF assms(1)] path_name_no_slash [OF assms(2)]
  obtain u c where i: "inst = u @ [c]" "c \<noteq> CHR ''/''"
    using assms(2) ns(2) by (cases inst rule: rev_cases) (auto simp: path_name_def)
  have "trim_right_slash (''/ws/'' @ w @ ''/'' @ svc @ ''/'' @ inst) = ''/ws/'' @ w @ ''/'' @ svc @ ''/'' @ inst"
    using i by (simp add: trim_right_slash_def)
  moreover have "split_on (CHR ''/'') (''/ws/'' @ w @ ''/'' @ svc @ ''/'' @ inst) = [[], ''ws'', w, svc, inst]"
    using split_on_ws [OF assms(3), of "svc @ ''/'' @ inst"] split_on_append [OF ns(1), of inst] split_on_plain [OF ns(2)]
    by simp
  ultimately show ?thesis by (simp add: pathLast2_def)
qed

lemma route_browser:
  assumes "path_name svc" "path_name inst"
  shows "route static meth (''/ws/browser/'' @ svc @ ''/'' @ inst) = BrowserWS svc inst"
  using route_pair [OF assms, of "''browser''"] assms by (simp add: route_def ws_pair_def path_name_def)

lemma route_relay:
  assumes "path_name svc" "path_name inst"
  shows "route static meth (''/ws/relay/'' @ svc @ ''/'' @ inst) = RelayWS svc inst"
  using route_pair [OF assms, of "''relay''"] assms by (simp add: route_def ws_pair_def path_name_def)

text \<open>
  A request without an instance is not rejected: the route's own last word is taken for the
  service.
\<close>

lemma pathLast2_short:
  "pathLast2 ''/ws/browser/'' = (''ws'', ''browser'')"
  "pathLast2 ''/ws/browser/svc'' = (''browser'', ''svc'')"
  by (simp_all add: pathLast2_def trim_right_slash_def)

section \<open>ICE servers are usable\<close>

text \<open>
  Every entry distributed has a URL and none has an empty one, and the entries list exactly the
  configured non-empty URLs: the STUN servers in order, one entry each, then the TURN server's.
\<close>

theorem ice_entries_usable:
  "list_all (\<lambda>e. ise_URLs e \<noteq> [] \<and> '''' \<notin> set (ise_URLs e)) (buildICEServerEntries o1)
   \<and> concat (map ise_URLs (buildICEServerEntries o1)) =
       filter (\<lambda>u. u \<noteq> '''')
         (op_STUNServers o1 @ (case op_TURNServer o1 of None \<Rightarrow> [] | Some t \<Rightarrow> ise_URLs t))"
proof -
  have "concat (map ise_URLs (map (\<lambda>u. \<lparr>ise_URLs = [u], ise_Username = '''', ise_Credential = '''',
      ise_CredentialType = ''''\<rparr>) us)) = us" for us
    by (induction us) simp_all
  then show ?thesis
    by (auto simp: buildICEServerEntries_def Let_def list_all_iff split: option.splits)
qed

section \<open>Routing\<close>

lemma writeWS_keeps [simp]:
  "sv_browserSessions (writeWS ws msg s) = sv_browserSessions s"
  "sv_byID (writeWS ws msg s) = sv_byID s" "sv_infos (writeWS ws msg s) = sv_infos s"
  "sv_closed (writeWS ws msg s) = sv_closed s" "sv_opts (writeWS ws msg s) = sv_opts s"
  "sv_relaySessions (writeWS ws msg s) = sv_relaySessions s"
  by (simp_all add: writeWS_def)

lemma close_delete_keeps [simp]:
  "sv_byID (close_ws ws s) = sv_byID s" "sv_infos (close_ws ws s) = sv_infos s"
  "sv_browserSessions (close_ws ws s) = sv_browserSessions s" "sv_opts (close_ws ws s) = sv_opts s"
  "sv_closed (close_ws ws s) = insert ws (sv_closed s)"
  "sv_relaySessions (close_ws ws s) = sv_relaySessions s"
  "sv_byID (delete_browser ws s) = sv_byID s" "sv_infos (delete_browser ws s) = sv_infos s"
  "sv_closed (delete_browser ws s) = sv_closed s" "sv_log (delete_browser ws s) = sv_log s"
  "sv_opts (delete_browser ws s) = sv_opts s"
  by (simp_all add: close_ws_def delete_browser_def)

text \<open>The sockets of the browsers in a session.\<close>

definition in_session :: "server \<Rightarrow> string \<Rightarrow> nat \<Rightarrow> bool" where
  "in_session s sid ws \<longleftrightarrow> list_ex (\<lambda>(w, sess). w = ws \<and> bs_sessionID sess = sid) (sv_browserSessions s)"

lemma forward_loop_log:
  "\<exists>out. sv_log (forwardToBrowser_loop bs msg s) = sv_log s @ out
     \<and> list_all (\<lambda>e. \<exists>ws sess. e = Sent ws msg \<and> (ws, sess) \<in> set bs
          \<and> bs_sessionID sess = ws_SessionID msg) out"
proof (induction bs)
  case (Cons b bs)
  obtain ws sess where b: "b = (ws, sess)" by (cases b)
  show ?case
  proof (cases "bs_sessionID sess = ws_SessionID msg")
    case True
    then show ?thesis
      by (cases "ws \<in> sv_closed s") (auto simp: b writeWS_def intro: exI [of _ "[]"])
  next
    case False
    with Cons show ?thesis by (fastforce simp: b list_all_iff)
  qed
qed simp

lemma preempt_loop_cases:
  "(preempt_loop bs sid s = s \<and> (\<forall>(ws, sess) \<in> set bs. bs_sessionID sess \<noteq> sid))
   \<or> (\<exists>ws sess. (ws, sess) \<in> set bs \<and> bs_sessionID sess = sid
        \<and> preempt_loop bs sid s = delete_browser ws (close_ws ws
            (writeWS ws ((msg_of_type TypePreempted)\<lparr>ws_SessionID := sid\<rparr>) s)))"
proof (induction bs)
  case (Cons b bs)
  obtain ws sess where b: "b = (ws, sess)" by (cases b)
  show ?case
  proof (cases "bs_sessionID sess = sid")
    case True
    then show ?thesis unfolding b
      by (intro disjI2 exI [of _ ws] exI [of _ sess]) simp
  next
    case False
    then have "preempt_loop (b # bs) sid s = preempt_loop bs sid s" by (simp add: b)
    with Cons False b show ?thesis by auto
  qed
qed simp

lemma preemptBrowser_log:
  obtains (none) "preemptBrowser sid s = s"
  | (hit) ws where "in_session s sid ws"
      "sv_log (preemptBrowser sid s) = sv_log s @ (if ws \<in> sv_closed s then [Closed ws]
         else [Sent ws ((msg_of_type TypePreempted)\<lparr>ws_SessionID := sid\<rparr>), Closed ws])"
proof (cases "preemptBrowser sid s = s")
  case False
  then obtain ws sess where ws: "(ws, sess) \<in> set (sv_browserSessions s)" "bs_sessionID sess = sid"
      "preemptBrowser sid s = delete_browser ws (close_ws ws
         (writeWS ws ((msg_of_type TypePreempted)\<lparr>ws_SessionID := sid\<rparr>) s))"
    using preempt_loop_cases [of "sv_browserSessions s" sid s] by (auto simp: preemptBrowser_def)
  then show thesis
    by (intro hit [of ws]) (auto simp: in_session_def list_ex_iff close_ws_def writeWS_def)
qed (rule none)

text \<open>
  C30. What an agent says reaches nobody else.  Handling one message of an agent writes at most to
  the browser of the session the message names, to the relay client that uses the message's relay
  identifier, or a pong to the agent itself; and it closes a connection only for a preemption, the
  browser's of the named session, after having told it.
\<close>

theorem agent_message_routing:
  "\<exists>out. sv_log (agent_message a msg s) = sv_log s @ out
    \<and> list_all (\<lambda>e. case e of
          Sent ws m \<Rightarrow>
            in_session s (ws_SessionID msg) ws
              \<and> (m = msg \<or> m = (msg_of_type TypePreempted)\<lparr>ws_SessionID := ws_SessionID msg\<rparr>)
            \<or> sv_relaySessions s (ws_RelayID msg) = Some ws \<and> m = msg
            \<or> ws = ai_Conn (sv_infos s a) \<and> m = msg_of_type TypePong
        | Closed ws \<Rightarrow> ws_Type msg = TypePreempted \<and> in_session s (ws_SessionID msg) ws) out
    \<and> (ws_Type msg = TypePreempted \<longrightarrow>
         out = [] \<or> (\<exists>ws. out = [Closed ws] \<and> ws \<in> sv_closed s)
         \<or> (\<exists>ws. out = [Sent ws ((msg_of_type TypePreempted)\<lparr>ws_SessionID := ws_SessionID msg\<rparr>),
                         Closed ws]))"
proof -
  have np: "ws_Type msg \<noteq> TypePreempted"
    if "ws_Type msg \<in> {TypeAnswer, TypeIceCandidate, TypeError, TypeStreamDead} \<or> ws_Type msg = ''relay''"
    using that by (auto simp: msg_types)
  consider (fwd) "ws_Type msg \<in> {TypeAnswer, TypeIceCandidate, TypeError, TypeStreamDead}"
    | (relay) "ws_Type msg \<notin> {TypeAnswer, TypeIceCandidate, TypeError, TypeStreamDead}" "ws_Type msg = ''relay''"
    | (pre) "ws_Type msg = TypePreempted"
    | (ping) "ws_Type msg \<notin> {TypeAnswer, TypeIceCandidate, TypeError, TypeStreamDead}"
        "ws_Type msg \<noteq> ''relay''" "ws_Type msg \<noteq> TypePreempted"
    by blast
  then show ?thesis
  proof cases
    case fwd
    obtain out where "sv_log (forwardToBrowser msg s) = sv_log s @ out"
      "list_all (\<lambda>e. \<exists>ws sess. e = Sent ws msg \<and> (ws, sess) \<in> set (sv_browserSessions s)
          \<and> bs_sessionID sess = ws_SessionID msg) out"
      using forward_loop_log [of "sv_browserSessions s" msg s] by (auto simp: forwardToBrowser_def)
    with fwd np show ?thesis
      by (intro exI [of _ out]) (fastforce simp: agent_message_def list_all_iff in_session_def list_ex_iff)
  next
    case relay
    with np show ?thesis
      by (auto simp: agent_message_def forwardToRelay_def writeWS_def split: option.splits
          intro: exI [of _ "[]"])
  next
    case pre
    let ?m = "(msg_of_type TypePreempted)\<lparr>ws_SessionID := ws_SessionID msg\<rparr>"
    have eq: "agent_message a msg s = preemptBrowser (ws_SessionID msg) s"
      using pre by (simp add: agent_message_def msg_types)
    show ?thesis
    proof (cases rule: preemptBrowser_log [of "ws_SessionID msg" s])
      case none
      with eq show ?thesis by (intro exI [of _ "[]"]) simp
    next
      case (hit ws)
      with pre eq show ?thesis
        by (intro exI [of _ "if ws \<in> sv_closed s then [Closed ws] else [Sent ws ?m, Closed ws]"]) auto
    qed
  next
    case ping
    then show ?thesis
      by (auto simp: agent_message_def writeAgentWS_def writeWS_def intro: exI [of _ "[]"])
  qed
qed


text \<open>A server with one agent on socket 3 and one browser on socket 7, in session \<open>s1\<close>.\<close>

definition demo_server :: server where
  "demo_server = (New_server \<lparr>op_STUNServers = [], op_TURNServer = None\<rparr>)\<lparr>
     sv_infos := (\<lambda>_. \<lparr>ai_ServiceID = ''svc'', ai_InstanceID = ''i'', ai_DeviceSerial = ''d'', ai_Conn = 3\<rparr>),
     sv_byID := [''svc/i'' \<mapsto> 0],
     sv_browserSessions := [(7, \<lparr>bs_sessionID = ''s1'', bs_serviceID = ''svc'', bs_instanceID = ''i''\<rparr>)]\<rparr>"

lemma agent_message_routing_witness:
  "\<exists>out. sv_log (agent_message 0 ((msg_of_type TypePreempted)\<lparr>ws_SessionID := ''s1''\<rparr>) demo_server) = out
     \<and> (out = [] \<or> (\<exists>ws. out = [Closed ws] \<and> ws \<in> sv_closed demo_server)
         \<or> (\<exists>ws. out = [Sent ws ((msg_of_type TypePreempted)\<lparr>ws_SessionID := ''s1''\<rparr>), Closed ws]))"
  using agent_message_routing [of 0 "(msg_of_type TypePreempted)\<lparr>ws_SessionID := ''s1''\<rparr>" demo_server]
  by (auto simp: msg_of_type_def demo_server_def New_server_def)

section \<open>An agent that reconnects\<close>

lemma close_loop_keeps [simp]:
  "sv_byID (close_loop bs svc inst s) = sv_byID s" "sv_infos (close_loop bs svc inst s) = sv_infos s"
  by (induction bs svc inst s rule: close_loop.induct) auto

lemma close_loop_closes:
  "sv_closed s \<subseteq> sv_closed (close_loop bs svc inst s)"
  "(ws, sess) \<in> set bs \<Longrightarrow> bs_serviceID sess = svc \<Longrightarrow> bs_instanceID sess = inst \<Longrightarrow>
     ws \<in> sv_closed (close_loop bs svc inst s)"
proof (induction bs svc inst s rule: close_loop.induct)
  case (2 ws' sess' r svc inst s)
  {
    case 1
    with "2.IH"(1) show ?case by (auto split: if_splits)
  next
    case 2
    with "2.IH" show ?case by (auto split: if_splits)
  }
qed simp_all

text \<open>
  C31. When an agent reconnects before the server noticed that its old connection broke, the clean-up
  of the old connection hits the new one's browsers: the registry keeps the new agent, but every
  browser that was bound to it meanwhile is disconnected.
\<close>

theorem stale_agent_closes_browsers:
  assumes "ai_ServiceID (sv_infos s old) = svc" "ai_InstanceID (sv_infos s old) = ws_InstanceID reg"
    and "ws_Type reg = TypeRegister" "new \<noteq> old"
  shows "let s1 = agent_connects new ws svc (Some reg) s;
             s2 = browser_connects browser sid svc (ws_InstanceID reg) s1;
             s3 = agent_gone old s2
         in list_ex (\<lambda>(w, sess). w = browser) (sv_browserSessions s2)
            \<and> lookup_agent svc (ws_InstanceID reg) s3 = Some new \<and> browser \<in> sv_closed s3"
proof -
  let ?info = "\<lparr>ai_ServiceID = svc, ai_InstanceID = ws_InstanceID reg,
                ai_DeviceSerial = ws_DeviceSerial reg, ai_Conn = ws\<rparr>"
  define s1 where "s1 = agent_connects new ws svc (Some reg) s"
  define s2 where "s2 = browser_connects browser sid svc (ws_InstanceID reg) s1"
  have s1: "sv_byID s1 (full_id svc (ws_InstanceID reg)) = Some new"
      "sv_infos s1 old = sv_infos s old"
    using assms(3,4)
    by (auto simp: s1_def agent_connects_def register_def writeAgentWS_def Let_def fullID_def
        split: option.splits)
  then have s2: "sv_byID s2 (full_id svc (ws_InstanceID reg)) = Some new"
      "sv_infos s2 old = sv_infos s old"
      "(browser, \<lparr>bs_sessionID = sid, bs_serviceID = svc, bs_instanceID = ws_InstanceID reg\<rparr>)
         \<in> set (sv_browserSessions s2)"
    by (simp_all add: s2_def browser_connects_def lookup_agent_def Let_def writeAgentWS_def)
  have rem: "remove_agent old s2 = s2"
    using s2 assms by (simp add: remove_agent_def fullID_def Let_def)
  have "browser \<in> sv_closed (agent_gone old s2)"
    using close_loop_closes(2) [OF s2(3), of svc "ws_InstanceID reg"] s2(2) assms
    by (simp add: agent_gone_def closeBrowsersForAgent_def rem)
  moreover have "lookup_agent svc (ws_InstanceID reg) (agent_gone old s2) = Some new"
    using s2 assms by (simp add: agent_gone_def closeBrowsersForAgent_def rem lookup_agent_def)
  moreover have "list_ex (\<lambda>(w, sess). w = browser) (sv_browserSessions s2)"
    using s2(3) by (auto simp: list_ex_iff)
  ultimately show ?thesis by (simp add: Let_def s1_def s2_def)
qed

lemma stale_agent_closes_browsers_witness:
  "let s1 = agent_connects 1 4 ''svc'' (Some ((msg_of_type TypeRegister)\<lparr>ws_InstanceID := ''i''\<rparr>)) demo_server;
       s2 = browser_connects 8 ''s2'' ''svc'' ''i'' s1;
       s3 = agent_gone 0 s2
   in lookup_agent ''svc'' ''i'' s3 = Some 1 \<and> 8 \<in> sv_closed s3"
  using stale_agent_closes_browsers [of demo_server 0 "''svc''"
      "(msg_of_type TypeRegister)\<lparr>ws_InstanceID := ''i''\<rparr>" 1 4 8 "''s2''"]
  by (simp add: demo_server_def msg_of_type_def Let_def)

end
