(* ===== verification/Compose.thy ===== *)
theory Compose
  imports Peer Manager Host Signaling WsClient
begin

text \<open>
  Properties that span the components: the configuration a device manager keeps, the scrcpy session
  started from it, the peer the controller's session context asks for and the audio pump between
  them; and the way of a browser's offer through the signaling server to the agent's session context
  and of the answer back.
\<close>

section \<open>Two readers of one configuration\<close>

text \<open>
  \<open>handleOffer\<close> makes the peer from the configuration the store holds at that moment; a session is
  started from the one the session manager got when the controller was made.
\<close>

lemma handleOffer_peer:
  assumes "NewPeer p stun turn vc ac au \<in> set (drop (length (sx_log s)) (sx_log (snd (handleOffer cfg ne an msg s))))"
  shows "vc = sc_VideoCodec (ac_Scrcpy cfg)" "ac = sc_AudioCodec (ac_Scrcpy cfg)" "au = sc_AudioEnabled (ac_Scrcpy cfg)"
  using assms
  by (auto simp: handleOffer_def releasePeer_def out_def Let_def split: option.splits sum.splits if_splits)

lemma Prepare_update_keeps:
  assumes "dm_inv s" "Prepare x inst d cp s = Some t" "Get x s = Some k"
  shows "Get x t = Some k" "dv_scrcpy (dm_heap t k) = dv_scrcpy (dm_heap s k)"
    "dm_store t = SetDeviceOverrides x d (dm_store s)"
proof -
  from assms(1,2) have "Get x t = Some k \<and> dv_scrcpy (dm_heap t k) = dv_scrcpy (dm_heap s k)
      \<and> dm_store t = SetDeviceOverrides x d (dm_store s)"
  proof (cases rule: Prepare_cases)
    case (update k' e)
    with assms(3) show ?thesis by (auto simp: Get_def)
  qed (use assms(3) in simp)
  then show "Get x t = Some k" "dv_scrcpy (dm_heap t k) = dv_scrcpy (dm_heap s k)"
    "dm_store t = SetDeviceOverrides x d (dm_store s)" by simp_all
qed

text \<open>
  C10. Switching a device's audio off while it is in use ends the agent.  A device is managed with
  audio; the platform prepares it again with audio disabled.  The controller is kept, and with it the
  scrcpy configuration its sessions start with, so the next session still opens the audio socket; but
  the next offer is answered from the store, by a peer without an audio track.  The first sample the
  audio forwarder delivers to that peer's pump panics.
\<close>

theorem audio_update_crashes:
  assumes "dm_inv s" "Get x s = Some k" "sc_AudioEnabled (dv_scrcpy (dm_heap s k))"
    and "Prepare x inst (Some d) cp s = Some t" "dc_AudioEnabled d = Some False"
    and "ForDevice x (dm_store t) = Some cfg"
    and "NewPeer p stun turn vc ac au \<in>
           set (drop (length (sx_log sx)) (sx_log (snd (handleOffer cfg None ans msg sx))))"
    and "NewPeerManager pion n stun turn vc ''42e01f'' ac au = (Inr pm, calls)"
    and "Session.Start E c (NewSession x (dv_scrcpy (dm_heap t k)), w) = (None, session, w')" "fresh_conns w"
  shows "Get x t = Some k \<and> ss_audioConn session \<noteq> None \<and> pm_audioTrack pm = None
    \<and> (let sent = af_sent (forwardAudio paused stream zero_afwd)
       in audioPump cv pm sent = None \<longleftrightarrow> sent \<noteq> [])"
proof -
  note keep = Prepare_update_keeps [OF assms(1,4,2)]
  have "ss_audioConn session \<noteq> None"
    using Start_streams [OF assms(9,10)] keep(2) assms(3) by simp
  moreover have "\<not> sc_AudioEnabled (ac_Scrcpy cfg)"
    using assms(5,6) keep(3)
    by (auto simp: ForDevice_def MergeDeviceConfig_def override_def split: option.splits)
  then have "pm_audioTrack pm = None"
    using assms(8) handleOffer_peer(3) [OF assms(7)]
    by (auto simp: NewPeerManager_def Let_def split: prod.splits option.splits)
  then have "audioPump cv pm ss = None \<longleftrightarrow> ss \<noteq> []" for ss
    by (cases ss) (simp_all add: audio_sample_def)
  ultimately show ?thesis using keep(1) \<open>pm_audioTrack pm = None\<close> by (simp add: Let_def)
qed

text \<open>An adb that does what it is told, and a peer library that refuses nothing.\<close>

definition ready_env :: "unit env" where
  "ready_env = \<lparr>run_adb = (\<lambda>path as w. ((True, ''''), w)), spawn_adb = (\<lambda>path as w. (start_result.Started, w)),
     stat_size = (\<lambda>path w. None), dial = (\<lambda>port w. (True, w)), deadline_passed = (\<lambda>w. True)\<rparr>"

definition ready_world :: "unit world" where
  "ready_world = \<lparr>wd_pool = New_pool 30000 2, wd_open = {}, wd_next = 0, wd_ext = ()\<rparr>"

lemma ready_steps:
  "\<exists>p. allocatePort (s, ready_world)
     = (None, setState PortAllocated (s\<lparr>ss_adbPort := 30000\<rparr>), ready_world\<lparr>wd_pool := p\<rparr>)"
  "setupForward ready_env c (s, w) = (None, setState Forwarded s, w)"
  "startServer ready_env c (s, w) = (None, setState ServerRunning (s\<lparr>ss_server := True\<rparr>), w)"
  "fst (connectStreams ready_env sw) = None"
proof -
  show "\<exists>p. allocatePort (s, ready_world)
      = (None, setState PortAllocated (s\<lparr>ss_adbPort := 30000\<rparr>), ready_world\<lparr>wd_pool := p\<rparr>)"
    by (simp add: allocatePort_def ready_world_def Acquire_def New_pool_def numeral_eq_Suc in_use_def)
  show "setupForward ready_env c (s, w) = (None, setState Forwarded s, w)"
    by (simp add: setupForward_def ForwardRemove_def Forward_def command_def ready_env_def Let_def)
  show "startServer ready_env c (s, w) = (None, setState ServerRunning (s\<lparr>ss_server := True\<rparr>), w)"
    by (simp add: startServer_def StartServer_def jarUpToDate_def Push_def command_def killStaleServer_def
        ShellOutput_def ready_env_def Let_def)
  show "fst (connectStreams ready_env sw) = None"
  proof (cases sw)
    case (Pair s w)
    then show ?thesis
      by (simp add: connectStreams_def numeral_eq_Suc connect_attempt_def connect_control_def dial_conn_def
          ready_env_def Let_def)
  qed
qed

lemma ready_start:
  "\<exists>s' w'. Session.Start ready_env c (NewSession x cfg, ready_world) = (None, s', w')"
proof -
  obtain p where a: "allocatePort (NewSession x cfg, ready_world)
      = (None, setState PortAllocated ((NewSession x cfg)\<lparr>ss_adbPort := 30000\<rparr>), ready_world\<lparr>wd_pool := p\<rparr>)"
    using ready_steps(1) by blast
  let ?s = "setState ServerRunning (setState Forwarded (setState PortAllocated
    ((NewSession x cfg)\<lparr>ss_adbPort := 30000\<rparr>))\<lparr>ss_server := True\<rparr>)"
  obtain s' w' where "connectStreams ready_env (?s, ready_world\<lparr>wd_pool := p\<rparr>) = (None, s', w')"
    using ready_steps(4) [of "(?s, ready_world\<lparr>wd_pool := p\<rparr>)"] by (metis prod.collapse)
  with a show ?thesis by (simp add: Session.Start_def ready_steps(2,3))
qed

definition audio_over :: "bool \<Rightarrow> DeviceConfig" where
  "audio_over b = (demo_over 720)\<lparr>dc_AudioEnabled := Some b\<rparr>"

definition audio_prepared :: dms where
  "audio_prepared = the (Prepare ''dev1'' ''cloud1'' (Some (audio_over True)) zero_ConnectParams demo_dm)"

lemma audio_prepared:
  "dm_inv audio_prepared" "Get ''dev1'' audio_prepared = Some 0"
  "sc_AudioEnabled (dv_scrcpy (dm_heap audio_prepared 0))" "cs_global (dm_store audio_prepared) \<noteq> None"
proof -
  obtain d where d: "new_device ''dev1'' ''cloud1'' zero_ConnectParams
      (SetDeviceOverrides ''dev1'' (Some (audio_over True)) (dm_store demo_dm)) = Some d"
    "sc_AudioEnabled (dv_scrcpy d)"
    by (simp add: new_device_def ForDevice_def MergeDeviceConfig_def override_def audio_over_def)
  note p = Prepare_fresh [OF demo_dm_fields(1) d(1)]
  have "Prepare ''dev1'' ''cloud1'' (Some (audio_over True)) zero_ConnectParams demo_dm = Some audio_prepared"
    by (simp add: audio_prepared_def p)
  then show "dm_inv audio_prepared" by (rule dm_inv_Prepare [OF demo_dm_inv])
  show "Get ''dev1'' audio_prepared = Some 0" "sc_AudioEnabled (dv_scrcpy (dm_heap audio_prepared 0))"
    "cs_global (dm_store audio_prepared) \<noteq> None"
    by (simp_all add: audio_prepared_def p d(2) Get_def)
qed

theorem audio_update_crashes_witness:
  "\<exists>t cfg stun turn pm calls session w'.
     Prepare ''dev1'' ''cloud1'' (Some (audio_over False)) zero_ConnectParams audio_prepared = Some t
     \<and> ForDevice ''dev1'' (dm_store t) = Some cfg
     \<and> NewPeerManager (\<lambda>_. None) 0 stun turn (sc_VideoCodec (ac_Scrcpy cfg)) ''42e01f''
         (sc_AudioCodec (ac_Scrcpy cfg)) False = (Inr pm, calls)
     \<and> Session.Start ready_env (New_client '''') (NewSession ''dev1'' (dv_scrcpy (dm_heap t 0)), ready_world)
         = (None, session, w')
     \<and> ss_audioConn session \<noteq> None
     \<and> audioPump conv_zero pm (af_sent (forwardAudio (\<lambda>_. False) demo_audio zero_afwd)) = None"
proof -
  obtain t where t: "Prepare ''dev1'' ''cloud1'' (Some (audio_over False)) zero_ConnectParams audio_prepared = Some t"
    using audio_prepared(2) by (auto simp: Prepare_def Let_def Get_def split: option.splits)
  note keep = Prepare_update_keeps [OF audio_prepared(1) t audio_prepared(2)]
  obtain cfg where cfg: "ForDevice ''dev1'' (dm_store t) = Some cfg" "\<not> sc_AudioEnabled (ac_Scrcpy cfg)"
    using audio_prepared(4) by (auto simp: keep(3) ForDevice_def MergeDeviceConfig_def override_def audio_over_def)
  let ?v = "sc_VideoCodec (ac_Scrcpy cfg)" and ?a = "sc_AudioCodec (ac_Scrcpy cfg)"
  let ?sx = "newSessionCtx 0 cfg [] None ''s1''"
  obtain stun turn where np: "NewPeer 0 stun turn ?v ?a False \<in>
      set (drop (length (sx_log ?sx)) (sx_log (snd (handleOffer cfg None (Inl '''') demo_offer ?sx))))"
    using cfg(2) that by (simp add: handleOffer_def demo_offer_def newSessionCtx_def out_def releasePeer_def Let_def)
  obtain pm calls where pm: "NewPeerManager (\<lambda>_. None) 0 stun turn ?v ''42e01f'' ?a False = (Inr pm, calls)"
    by (simp add: NewPeerManager_def Let_def run_steps_all)
  obtain session w' where st:
      "Session.Start ready_env (New_client '''') (NewSession ''dev1'' (dv_scrcpy (dm_heap t 0)), ready_world) = (None, session, w')"
    using ready_start by blast
  have fresh: "fresh_conns ready_world" by (simp add: fresh_conns_def ready_world_def)
  have off: "dc_AudioEnabled (audio_over False) = Some False" by (simp add: audio_over_def)
  from audio_update_crashes [OF audio_prepared(1-3) t off cfg(1) np pm st fresh,
    where paused = "\<lambda>_. False" and stream = demo_audio and cv = conv_zero]
  have "ss_audioConn session \<noteq> None"
    "audioPump conv_zero pm (af_sent (forwardAudio (\<lambda>_. False) demo_audio zero_afwd)) = None
       \<longleftrightarrow> af_sent (forwardAudio (\<lambda>_. False) demo_audio zero_afwd) \<noteq> []"
    by (simp_all add: Let_def)
  moreover have "af_sent (forwardAudio (\<lambda>_. False) demo_audio zero_afwd) \<noteq> []"
    using demo_audio_sent by auto
  ultimately show ?thesis using t cfg(1) pm st by blast
qed

section \<open>From a browser to a device and back\<close>

lemma ConnectWithParams_ok:
  assumes "ConnectWithParams E url svc inst serial p = (None, acts)"
  shows "acts = [Dialed (url @ agent_path svc p), Wrote (register_msg svc inst serial p)]"
  using assms by (auto simp: ConnectWithParams_def Let_def split: option.splits sum.splits if_splits)

text \<open>What a registration, and then a browser's connection, leave behind.\<close>

lemma agent_registered:
  fixes svc :: string
  assumes "ws_Type reg = TypeRegister" "wa \<notin> sv_closed s" "a \<notin> ran (sv_byID s)"
    "\<forall>o1 \<in> ran (sv_byID s). ai_Conn (sv_infos s o1) \<notin> {wa, wb}"
  defines "t \<equiv> agent_connects a wa svc (Some reg) s"
  shows "lookup_agent svc (ws_InstanceID reg) t = Some a" "ai_Conn (sv_infos t a) = wa" "wa \<notin> sv_closed t"
    "wb \<in> sv_closed t \<longleftrightarrow> wb \<in> sv_closed s" "sv_browserSessions t = sv_browserSessions s"
proof -
  have "o1 \<noteq> a" if "sv_byID s k = Some o1" for k o1 using that assms(3) by (auto intro: ranI)
  moreover have "ai_Conn (sv_infos s o1) \<notin> {wa, wb}" if "sv_byID s k = Some o1" for k o1
    using that assms(4) by (auto intro: ranI)
  ultimately show "lookup_agent svc (ws_InstanceID reg) t = Some a" "ai_Conn (sv_infos t a) = wa" "wa \<notin> sv_closed t"
    "wb \<in> sv_closed t \<longleftrightarrow> wb \<in> sv_closed s" "sv_browserSessions t = sv_browserSessions s"
    using assms(1,2)
    by (auto simp: t_def agent_connects_def register_def writeAgentWS_def lookup_agent_def fullID_def Let_def
        split: option.splits)
qed

lemma browser_bound:
  fixes sid :: string and wb :: nat
  assumes "lookup_agent svc inst s = Some a" "ai_Conn (sv_infos s a) \<notin> sv_closed s"
  defines "t \<equiv> browser_connects wb sid svc inst s"
  shows "lookup_agent svc inst t = Some a" "sv_infos t = sv_infos s" "sv_closed t = sv_closed s"
    "sv_browserSessions t = (wb, \<lparr>bs_sessionID = sid, bs_serviceID = svc, bs_instanceID = inst\<rparr>)
        # filter (\<lambda>(w, _). w \<noteq> wb) (sv_browserSessions s)"
    "Sent (ai_Conn (sv_infos s a)) ((msg_of_type TypeBound)\<lparr>ws_SessionID := sid\<rparr>) \<in> set (sv_log t)"
  using assms(1,2)
  by (simp_all add: t_def browser_connects_def lookup_agent_def Let_def writeAgentWS_def) (simp add: writeWS_def)

lemma new_context_answers:
  assumes "ws_Offer msg = Some o1"
  obtains reply where
    "ToWs reply \<in> set (sx_log (snd (handleOffer cfg None (Inr ans) msg (newSessionCtx q cfg stun turn sid))))"
    "ws_Type reply = TypeAnswer" "ws_Answer reply = Some ans" "ws_SessionID reply = sid"
  using assms that [of "(msg_of_type TypeAnswer)\<lparr>ws_Answer := Some ans, ws_SessionID := sid\<rparr>"]
  by (simp add: handleOffer_def newSessionCtx_def out_def releasePeer_def msg_of_type_def Let_def)


definition demo_dial :: dial_env where
  "demo_dial = \<lparr>de_dial = (\<lambda>_ _. None), de_write = (\<lambda>_. None), de_ack = Inr (msg_of_type ''registered'')\<rparr>"

definition demo_ans :: SessionDesc where
  "demo_ans = \<lparr>sd_SDP = ''v=0'', sd_Type = ''answer''\<rparr>"


end
