(* ===== verification/Pumps.thy ===== *)
theory Pumps
  imports Peer SessionCtx "HOL-Library.Multiset"
begin

text \<open>
  The video pumps of a peer as goroutines that share the session's channel: \<open>StartMediaPumps\<close>, and
  the receive and the write of \<open>videoPump\<close> as separate steps, since each goroutine can be suspended
  between them.  What one pump keeps of the order of the stream, and what happens when a peer that
  reconnects starts a second one.
\<close>

section \<open>Pumps on a channel\<close>

text \<open>
  \<open>pu_held\<close> has an entry for each pump, with the sample it received and has not written yet;
  \<open>pu_sent\<close> is everything the forwarder put into the channel.
\<close>

record pumps =
  pu_sent :: "Sample list"
  pu_chan :: "Sample list"
  pu_held :: "Sample option list"
  pu_written :: "Sample list"

definition no_pumps :: pumps where
  "no_pumps = \<lparr>pu_sent = [], pu_chan = [], pu_held = [], pu_written = []\<rparr>"

definition StartMediaPumps :: "pumps \<Rightarrow> pumps" where
  "StartMediaPumps u = u\<lparr>pu_held := pu_held u @ [None]\<rparr>"

definition channel_send :: "Sample \<Rightarrow> pumps \<Rightarrow> pumps" where
  "channel_send a u =
     (if length (pu_chan u) < 180 then u\<lparr>pu_sent := pu_sent u @ [a], pu_chan := pu_chan u @ [a]\<rparr> else u)"

definition pump_receive :: "nat \<Rightarrow> pumps \<Rightarrow> pumps" where
  "pump_receive i u =
     (case (pu_held u ! i, pu_chan u) of
        (None, a # r) \<Rightarrow> u\<lparr>pu_held := (pu_held u)[i := Some a], pu_chan := r\<rparr>
      | _ \<Rightarrow> u)"

definition pump_write :: "nat \<Rightarrow> pumps \<Rightarrow> pumps" where
  "pump_write i u =
     (case pu_held u ! i of
        Some a \<Rightarrow> u\<lparr>pu_held := (pu_held u)[i := None], pu_written := pu_written u @ [a]\<rparr>
      | None \<Rightarrow> u)"

inductive pump_run :: "pumps \<Rightarrow> bool" where
  run_none: "pump_run no_pumps"
| run_start: "pump_run u \<Longrightarrow> pump_run (StartMediaPumps u)"
| run_send: "pump_run u \<Longrightarrow> pump_run (channel_send a u)"
| run_receive: "pump_run u \<Longrightarrow> i < length (pu_held u) \<Longrightarrow> pump_run (pump_receive i u)"
| run_write: "pump_run u \<Longrightarrow> i < length (pu_held u) \<Longrightarrow> pump_run (pump_write i u)"

lemmas pump_defs = StartMediaPumps_def channel_send_def pump_receive_def pump_write_def

text \<open>The samples the pumps have in hand, in the order of the pumps.\<close>

fun hand :: "Sample option list \<Rightarrow> Sample list" where
  "hand [] = []"
| "hand (None # hs) = hand hs"
| "hand (Some a # hs) = a # hand hs"

lemma hand_append [simp]: "hand (hs @ hs') = hand hs @ hand hs'"
  by (induction hs rule: hand.induct) simp_all

lemma hand_update:
  "i < length hs \<Longrightarrow> hs ! i = None \<Longrightarrow> mset (hand (hs[i := Some a])) = add_mset a (mset (hand hs))"
  "i < length hs \<Longrightarrow> hs ! i = Some a \<Longrightarrow> mset (hand hs) = add_mset a (mset (hand (hs[i := None])))"
  by (induction hs arbitrary: i rule: hand.induct) (auto simp: less_Suc_eq_0_disj)

section \<open>What the pumps keep\<close>

definition pumps_inv :: "pumps \<Rightarrow> bool" where
  "pumps_inv u \<longleftrightarrow>
     mset (pu_sent u) = mset (pu_written u) + mset (hand (pu_held u)) + mset (pu_chan u)
     \<and> (length (pu_held u) \<le> 1 \<longrightarrow> pu_sent u = pu_written u @ hand (pu_held u) @ pu_chan u)
     \<and> length (pu_chan u) \<le> 180"

lemma single_pump: "length hs \<le> 1 \<Longrightarrow> i < length hs \<Longrightarrow> i = 0 \<and> hs = [hs ! 0]"
  by (cases hs) auto

lemma pumps_inv_run: "pump_run u \<Longrightarrow> pumps_inv u"
proof (induction rule: pump_run.induct)
  case run_none
  show ?case by (simp add: pumps_inv_def no_pumps_def)
next
  case (run_start u)
  then show ?case by (auto simp: pumps_inv_def StartMediaPumps_def)
next
  case (run_send u a)
  then show ?case by (auto simp: pumps_inv_def channel_send_def)
next
  case (run_receive u i)
  show ?case
  proof (cases "pu_held u ! i = None \<and> pu_chan u \<noteq> []")
    case True
    then obtain a r where c: "pu_chan u = a # r" "pu_held u ! i = None" by (cases "pu_chan u") auto
    have "hand ((pu_held u)[i := Some a]) = [a] \<and> hand (pu_held u) = []" if "length (pu_held u) \<le> 1"
      using single_pump [OF that run_receive(2)] c(2) by (metis hand.simps list_update_code(2))
    with run_receive c hand_update(1) [OF run_receive(2) c(2), of a] show ?thesis
      by (auto simp: pumps_inv_def pump_receive_def)
  qed (use run_receive in \<open>auto simp: pumps_inv_def pump_receive_def split: option.splits list.splits\<close>)
next
  case (run_write u i)
  show ?case
  proof (cases "pu_held u ! i")
    case (Some a)
    have "hand ((pu_held u)[i := None]) = [] \<and> hand (pu_held u) = [a]" if "length (pu_held u) \<le> 1"
      using single_pump [OF that run_write(2)] Some by (metis hand.simps list_update_code(2))
    with run_write Some hand_update(2) [OF run_write(2) Some] show ?thesis
      by (auto simp: pumps_inv_def pump_write_def)
  qed (use run_write in \<open>simp add: pumps_inv_def pump_write_def\<close>)
qed


definition demo_sample :: "byte \<Rightarrow> Sample" where
  "demo_sample b = \<lparr>sa_Data = [b], sa_PTS = 0, sa_Duration = 33 * millisecond, sa_KeyFrame = False\<rparr>"


section \<open>A peer that connects again\<close>

text \<open>The pumps a context has started on session \<open>x\<close> for peer \<open>p\<close>.\<close>

definition pumps_of :: "nat \<Rightarrow> nat \<Rightarrow> sctx \<Rightarrow> nat" where
  "pumps_of p x s = count_list (sx_log s) (StartPumps p x)"

definition ready_for :: "nat \<Rightarrow> nat \<Rightarrow> sctx \<Rightarrow> bool" where
  "ready_for p x s \<longleftrightarrow>
     p < sx_peers s \<and> sx_session s = Some x \<and> (\<exists>c. sx_ready s = Some c \<and> c \<in> set (sx_closed s))"

lemma connects:
  assumes "ready_for p x s"
  obtains t where "sx_run s t" "ready_for p x t" "pumps_of p x t = Suc (pumps_of p x s)"
    "sx_peers t = sx_peers s"
proof -
  obtain c where c: "sx_ready s = Some c" "c \<in> set (sx_closed s)" using assms by (auto simp: ready_for_def)
  let ?t = "start_media p ((onConnected p s)\<lparr>sx_waiters := sx_waiters s\<rparr>)"
  have "sx_run s (onConnected p s)"
    using assms by (intro run_step [OF run_refl] step_connected) (simp add: ready_for_def)
  moreover have "sx_step (onConnected p s) (start_media p ((onConnected p s)\<lparr>sx_waiters := sx_waiters s @ []\<rparr>))"
    by (rule step_media [of _ _ _ c]) (simp_all add: c)
  ultimately have "sx_run s ?t" by (simp add: run_step)
  moreover have "ready_for p x ?t" using assms by (simp add: ready_for_def)
  moreover have "pumps_of p x ?t = Suc (pumps_of p x s)"
    using assms by (simp add: pumps_of_def start_media_def onConnected_def out_def ready_for_def)
  ultimately show thesis by (rule that) simp
qed

lemma pumps_race:
  assumes "2 \<le> n"
  obtains u where "pump_run u" "length (pu_held u) = n" "pu_sent u = [a, b]" "pu_written u = [b, a]"
proof -
  let ?s = "no_pumps\<lparr>pu_held := replicate n None\<rparr>"
  let ?u = "pump_write 0 (pump_write 1 (pump_receive 1 (pump_receive 0 (channel_send b (channel_send a ?s)))))"
  have s: "(StartMediaPumps ^^ k) no_pumps = no_pumps\<lparr>pu_held := replicate k None\<rparr>" for k
    by (induction k) (simp_all add: no_pumps_def StartMediaPumps_def flip: replicate_append_same)
  have "pump_run ((StartMediaPumps ^^ k) no_pumps)" for k
    by (induction k) (auto intro: run_none run_start)
  then have "pump_run ?s" by (metis s)
  then have "pump_run ?u" using assms
    by (intro run_write run_receive run_send) (simp_all add: pump_defs no_pumps_def)
  moreover have "length (pu_held ?u) = n \<and> pu_sent ?u = [a, b] \<and> pu_written ?u = [b, a]"
    using assms by (simp add: pump_defs no_pumps_def)
  ultimately show thesis using that by blast
qed

text \<open>
  C11. A peer that reconnects can play frames out of order.  Once a browser's session is prepared, its
  peer can report that it is connected more than once (a connection that was lost for a moment and
  comes back does), and every report starts the pumps again on the same channels.  With the two video
  pumps that run then, for any two frames sent one after the other there is a schedule that writes
  the second one first.
\<close>

theorem reconnect_reorders_video:
  assumes "sx_run (newSessionCtx q cfg stun turn i) s"
    and "sx_peers s = 1" "\<not> sx_stopped s" "sx_prepare s = PrepDone" "sx_session s = Some x"
  shows "\<exists>t u. sx_run s t \<and> sx_peers t = 1 \<and> pumps_of 0 x t = pumps_of 0 x s + 2
    \<and> pump_run u \<and> length (pu_held u) = pumps_of 0 x t \<and> pu_sent u = [a, b] \<and> pu_written u = [b, a]"
proof -
  have "ready_for 0 x s"
    using prepared_ready [OF assms] assms(2,5) by (auto simp: ready_for_def)
  then obtain t1 where 1: "sx_run s t1" "ready_for 0 x t1" "pumps_of 0 x t1 = Suc (pumps_of 0 x s)"
      "sx_peers t1 = sx_peers s"
    by (rule connects)
  from 1(2) obtain t2 where 2: "sx_run t1 t2" "pumps_of 0 x t2 = Suc (pumps_of 0 x t1)"
      "sx_peers t2 = sx_peers t1"
    by (rule connects)
  obtain u where "pump_run u" "length (pu_held u) = pumps_of 0 x t2" "pu_sent u = [a, b]" "pu_written u = [b, a]"
    using pumps_race [of "pumps_of 0 x t2" a b] 1(3) 2(2) by auto
  moreover have "sx_run s t2" using 2(1) 1(1) by (rule sx_run_trans)
  ultimately show ?thesis using 1(3,4) 2(2,3) assms(2) by (intro exI [of _ t2] exI [of _ u]) simp
qed

theorem reconnect_reorders_video_witness:
  "let s = probed (Some 0) (acquired (Inr 7) (onConnected 0 (offered demo_ctx)))
   in \<exists>t u. sx_run s t \<and> pumps_of 0 7 t = 2 \<and> pump_run u
     \<and> map sa_Data (pu_sent u) = [[1], [2]] \<and> map sa_Data (pu_written u) = [[2], [1]]"
proof -
  define s where "s = probed (Some 0) (acquired (Inr 7) (onConnected 0 (offered demo_ctx)))"
  have s: "sx_run demo_ctx s" unfolding s_def by (rule demo_prepared_run)
  have "pumps_of 0 7 s = 0"
    by (simp add: s_def pumps_of_def probed_def acquired_def onConnected_def out_def offered_defs demo_ctx_def
        newSessionCtx_def releasePeer_def)
  moreover have "\<exists>t u. sx_run s t \<and> sx_peers t = 1 \<and> pumps_of 0 7 t = pumps_of 0 7 s + 2
      \<and> pump_run u \<and> length (pu_held u) = pumps_of 0 7 t
      \<and> pu_sent u = [demo_sample 1, demo_sample 2] \<and> pu_written u = [demo_sample 2, demo_sample 1]"
    by (rule reconnect_reorders_video [OF s [unfolded demo_ctx_def]]) (simp_all add: s_def)
  ultimately obtain t u where "sx_run s t" "pumps_of 0 7 t = 2" "pump_run u"
      "pu_sent u = [demo_sample 1, demo_sample 2]" "pu_written u = [demo_sample 2, demo_sample 1]"
    by (elim exE conjE) simp
  then show ?thesis unfolding Let_def s_def [symmetric]
    by (intro exI [of _ t] exI [of _ u]) (simp add: demo_sample_def)
qed

end
