(* ===== verification/Agentd.thy ===== *)
theory Agentd
  imports Host Adb
begin

text \<open>
  The agent process: how \<open>cmd/agentd/main.go\<close> turns its flags, its environment and an optional
  bootstrap configuration into a host, and \<open>AutoConnectDevices\<close> of \<open>agent/controller.go\<close>, which a
  program that embeds the agent calls before it prepares its devices.
\<close>

section \<open>Starting the process\<close>

text \<open>The port: the flag, or the environment variable where it holds a number.\<close>

definition grpc_port :: "int \<Rightarrow> string \<Rightarrow> int" where
  "grpc_port flag env =
     (if env = [] then flag else case ParseInt env of Some n \<Rightarrow> n | None \<Rightarrow> flag)"

text \<open>
  \<open>loadBootstrap\<close>: \<open>read_file\<close> and \<open>read_stdin\<close> are what the file and the standard input hold, or
  the error of reading them.
\<close>

definition loadBootstrap ::
  "(string \<Rightarrow> string + bytes) \<Rightarrow> string + bytes \<Rightarrow> string \<Rightarrow> bool \<Rightarrow> string + bytes option" where
  "loadBootstrap read_file read_stdin path useStdin =
     (if path \<noteq> [] \<and> useStdin then Inl ''use either --bootstrap or --bootstrap-stdin, not both''
      else if path \<noteq> [] then map_sum id Some (read_file path)
      else if useStdin then map_sum id Some read_stdin
      else Inr None)"

datatype exit_error = LoadBootstrap string | ParseBootstrap string | Listen string

text \<open>
  \<open>main\<close>, up to the moment it serves: \<open>unmarshal\<close> reads the JSON text into a configuration,
  \<open>listen\<close> is the error of listening on the address.
\<close>

definition listen_addr :: "int \<Rightarrow> string" where
  "listen_addr port = ''127.0.0.1:'' @ show_int port"

definition agentd_start ::
  "(string \<Rightarrow> string + bytes) \<Rightarrow> string + bytes \<Rightarrow> (bytes \<Rightarrow> string + AgentConfig)
   \<Rightarrow> (string \<Rightarrow> string option) \<Rightarrow> time \<Rightarrow> int \<Rightarrow> string \<Rightarrow> string \<Rightarrow> bool \<Rightarrow> exit_error + host" where
  "agentd_start read_file read_stdin unmarshal listen now flag env path useStdin =
     (let port = grpc_port flag env
      in case loadBootstrap read_file read_stdin path useStdin of
           Inl e \<Rightarrow> Inl (LoadBootstrap e)
         | Inr jsonData \<Rightarrow>
     (case (case jsonData of None \<Rightarrow> Inr None | Some b \<Rightarrow> map_sum id Some (unmarshal b)) of
           Inl e \<Rightarrow> Inl (ParseBootstrap e)
         | Inr boot \<Rightarrow>
             (case listen (listen_addr port) of
                Some e \<Rightarrow> Inl (Listen e)
              | None \<Rightarrow> Inr (started boot port ''0.1.0'' now))))"

section \<open>Connecting the devices of the network\<close>

fun connect_each :: "'w env \<Rightarrow> Client \<Rightarrow> string list \<Rightarrow> string list \<Rightarrow> 'w \<Rightarrow> 'w" where
  "connect_each E c online [] w = w"
| "connect_each E c online (serial # r) w =
     (if serial \<in> set online then connect_each E c online r w
      else if \<not> Contains serial '':'' then connect_each E c online r w
      else connect_each E c online r (snd (Adb.Connect E c serial w)))"

definition AutoConnectDevices :: "'w env \<Rightarrow> string \<Rightarrow> InstanceConfig list \<Rightarrow> 'w \<Rightarrow> 'w" where
  "AutoConnectDevices E adbPath instances w =
     (let c = New_client adbPath
      in case Devices E c w of
           (Inl _, w1) \<Rightarrow> w1
         | (Inr online, w1) \<Rightarrow> connect_each E c online (map inst_DeviceSerial instances) w1)"

lemma connect_each_filter:
  "connect_each E c online serials w =
     fold (\<lambda>serial w. snd (Adb.Connect E c serial w))
       (filter (\<lambda>s. s \<notin> set online \<and> Contains s '':'') serials) w"
  by (induction E c online serials w rule: connect_each.induct) simp_all

section \<open>The life cycle of a process\<close>

lemma agentd_start_cases:
  assumes "agentd_start read_file read_stdin unmarshal listen now flag env path useStdin = Inr h"
  obtains (bare) "h = New_host (NewConfigStore None) (grpc_port flag env) ''0.1.0'' now" "path = []" "\<not> useStdin"
  | (boot) ac where "h = MarkBootstrapped (New_host (NewConfigStore (Some ac)) (grpc_port flag env) ''0.1.0'' now)"
      "(path \<noteq> []) \<noteq> useStdin"
  using assms
  by (auto simp: agentd_start_def loadBootstrap_def started_def Let_def map_sum_def id_def
      split: option.splits if_splits sum.splits)

lemma New_host_fields:
  "h_state (New_host store port version now) = Uninitialized" "\<not> h_bootstrapped (New_host store port version now)"
  "h_port (New_host store port version now) = port" "dm_store (New_host store port version now) = store"
  by (simp_all add: New_host_def NewDeviceManager_def dms.defs)

lemma MarkBootstrapped_new:
  assumes "h = MarkBootstrapped (New_host (NewConfigStore (Some ac)) port version now)"
  shows "h_state h = Initialized" "h_bootstrapped h" "h_port h = port"
  by (simp_all add: assms MarkBootstrapped_def New_host_fields make_dm_def Global_def NewConfigStore_def)

lemma Init_first:
  assumes "h_state h = Uninitialized \<or> h_bootstrapped h"
  shows "case Init (Some g) h of (r, h1) \<Rightarrow>
    r = okResp\<lparr>rs_ActualPort := wrap32 (h_port h)\<rparr> \<and> h_state h1 = Initialized
    \<and> Init g' h1 = (errResp ''ERR_ALREADY_INIT'' ''already initialized; call Stop first'', h1)"
  using assms by (auto simp: Init_def ToAgentConfig_def Let_def)



end
