(* ===== verification/DeviceMsgs.thy ===== *)
theory DeviceMsgs
  imports Control
begin

text \<open>
  The device-to-client half of \<open>agent/internal/gateway/control.go\<close>: \<open>ParseDeviceMessages\<close> and
  \<open>decodeDeviceMessage\<close>, and the reader of the control socket in \<open>session.go\<close>, which feeds the
  parser the bytes as they arrive.

  A panic of a slice expression is \<open>None\<close>.  The parser consumes at least one byte per round, so its
  loop is a total function.
\<close>

record DeviceMsg =
  dm_Type :: string
  dm_Text :: bytes
  dm_Sequence :: u64
  dm_DevID :: u16
  dm_DataHex :: string
  dm_Raw :: "bytes option"

definition zero_DeviceMsg :: DeviceMsg where
  "zero_DeviceMsg = \<lparr>dm_Type = '''', dm_Text = [], dm_Sequence = 0, dm_DevID = 0,
     dm_DataHex = '''', dm_Raw = None\<rparr>"

datatype decode_error = UnknownDeviceMessage byte

text \<open>
  The upper bounds \<open>5+textLen\<close> and \<open>5+dataLen\<close> are sums of \<open>uint32\<close> and \<open>uint16\<close>: they wrap.
\<close>

definition decodeDeviceMessage :: "bytes \<Rightarrow> (decode_error + DeviceMsg) option" where
  "decodeDeviceMessage dat =
     (case dat of [] \<Rightarrow> None
      | msgType # _ \<Rightarrow>
          if msgType = 0x00 then
            Option.bind (go_slice 1 5 dat) (\<lambda>f. Option.bind (get_u32 f) (\<lambda>textLen.
              Option.bind (go_slice 5 (unat (5 + textLen)) dat) (\<lambda>t.
                Some (Inr (zero_DeviceMsg\<lparr>dm_Type := ''clipboard'', dm_Text := t\<rparr>)))))
          else if msgType = 0x01 then
            Option.bind (go_slice 1 9 dat) (\<lambda>f. Option.bind (get_u64 f) (\<lambda>sq.
              Some (Inr (zero_DeviceMsg\<lparr>dm_Type := ''ack_clipboard'', dm_Sequence := sq\<rparr>))))
          else if msgType = 0x02 then
            Option.bind (go_slice 1 3 dat) (\<lambda>f. Option.bind (get_u16 f) (\<lambda>devID.
              Option.bind (go_slice 3 5 dat) (\<lambda>f. Option.bind (get_u16 f) (\<lambda>dataLen.
                Option.bind (go_slice 5 (unat (5 + dataLen)) dat) (\<lambda>payload.
                  Some (Inr (zero_DeviceMsg\<lparr>dm_Type := ''uhid_output'', dm_DevID := devID,
                               dm_DataHex := hex_bytes payload, dm_Raw := Some payload\<rparr>)))))))
          else Some (Inl (UnknownDeviceMessage msgType)))"

text \<open>
  One round's view of the buffer: wait for more bytes, drop a byte, or take a message of a length.
\<close>

datatype round = Wait | Resync | Take nat

definition msg_round :: "bytes \<Rightarrow> round" where
  "msg_round buf =
     (let msgType = hd buf in
      if msgType = 0x00 then
        (if length buf < 5 then Wait else Take (5 + unat (the (get_u32 (take 4 (drop 1 buf))))))
      else if msgType = 0x01 then Take 9
      else if msgType = 0x02 then
        (if length buf < 5 then Wait else Take (5 + unat (the (get_u16 (take 2 (drop 3 buf))))))
      else Resync)"

text \<open>The messages parsed, the remainder of the buffer and the error (\<open>nil\<close> is \<open>None\<close>).\<close>

function ParseDeviceMessages ::
  "bytes \<Rightarrow> (DeviceMsg list \<times> bytes \<times> decode_error option) option" where
  "ParseDeviceMessages buf =
     (if buf = [] then Some ([], [], None)
      else case msg_round buf of
             Wait \<Rightarrow> Some ([], buf, None)
           | Resync \<Rightarrow> ParseDeviceMessages (tl buf)
           | Take msgLen \<Rightarrow>
               if length buf < msgLen then Some ([], buf, None)
               else case decodeDeviceMessage (take msgLen buf) of
                      None \<Rightarrow> None
                    | Some (Inl err) \<Rightarrow> Some ([], buf, Some err)
                    | Some (Inr msg) \<Rightarrow>
                        map_option (\<lambda>(msgs, r). (msg # msgs, r))
                          (ParseDeviceMessages (drop msgLen buf)))"
  by pat_completeness auto
termination
  by (relation "measure length") (auto simp: msg_round_def Let_def split: if_splits)

declare ParseDeviceMessages.simps [simp del]

lemma msg_round_Take: "msg_round buf = Take n \<Longrightarrow> buf \<noteq> [] \<Longrightarrow> 5 \<le> n \<and> hd buf \<in> {0, 1, 2}"
  by (auto simp: msg_round_def Let_def split: if_splits)

lemma msg_round_append:
  "buf \<noteq> [] \<Longrightarrow> msg_round buf \<noteq> Wait \<Longrightarrow> msg_round (buf @ r) = msg_round buf"
  by (cases buf) (auto simp: msg_round_def Let_def split: if_splits)

text \<open>The types that reach the decoder are the ones it knows, so its error branch is dead.\<close>

lemma decode_no_error:
  "dat \<noteq> [] \<Longrightarrow> hd dat \<in> {0, 1, 2} \<Longrightarrow> decodeDeviceMessage dat \<noteq> Some (Inl e)"
  by (cases dat) (auto simp: decodeDeviceMessage_def bind_eq_Some_conv)

lemma Parse_step:
  assumes "buf \<noteq> []"
  shows "ParseDeviceMessages buf =
     (case msg_round buf of
        Wait \<Rightarrow> Some ([], buf, None)
      | Resync \<Rightarrow> ParseDeviceMessages (tl buf)
      | Take msgLen \<Rightarrow>
          if length buf < msgLen then Some ([], buf, None)
          else case decodeDeviceMessage (take msgLen buf) of
                 None \<Rightarrow> None
               | Some (Inl err) \<Rightarrow> Some ([], buf, Some err)
               | Some (Inr msg) \<Rightarrow>
                   map_option (\<lambda>(msgs, r). (msg # msgs, r)) (ParseDeviceMessages (drop msgLen buf)))"
  using assms by (subst ParseDeviceMessages.simps) simp


section \<open>Streaming\<close>

lemma Parse_no_error: "ParseDeviceMessages buf \<noteq> Some (ms, r, Some e)"
proof (induction buf arbitrary: ms rule: ParseDeviceMessages.induct)
  case (1 buf)
  show ?case
  proof (cases "buf = []")
    case False
    show ?thesis
    proof (cases "msg_round buf")
      case (Take n)
      have "decodeDeviceMessage (take n buf) \<noteq> Some (Inl e')" for e'
        using msg_round_Take [OF Take False] False
        by (intro decode_no_error) (auto simp: hd_take)
      with "1.IH"(2) [OF False Take] False Take show ?thesis
        by (auto simp: Parse_step split: option.splits sum.splits)
    qed (use 1 False in \<open>simp_all add: Parse_step\<close>)
  qed (simp add: ParseDeviceMessages.simps)
qed

lemma Parse_append:
  "ParseDeviceMessages (a @ b) =
     (case ParseDeviceMessages a of
        None \<Rightarrow> None
      | Some (ms, r, _) \<Rightarrow>
          map_option (\<lambda>(ms', r'). (ms @ ms', r')) (ParseDeviceMessages (r @ b)))"
proof (induction a rule: ParseDeviceMessages.induct)
  case (1 a)
  show ?case
  proof (cases "a = []")
    case True
    then show ?thesis
      by (simp add: ParseDeviceMessages.simps [of "[]"] option.map_ident_strong split: prod.splits)
  next
    case False
    then have ab: "a @ b \<noteq> []" by simp
    show ?thesis
    proof (cases "msg_round a")
      case Wait
      with False show ?thesis
        by (simp add: Parse_step [of a] option.map_ident_strong split: prod.splits)
    next
      case Resync
      with False msg_round_append [of a b] have "msg_round (a @ b) = Resync" by simp
      with 1(1) [OF False Resync] False Resync show ?thesis
        by (simp add: Parse_step [OF ab] Parse_step [OF False])
    next
      case (Take n)
      with False msg_round_append [of a b] have rab: "msg_round (a @ b) = Take n" by simp
      show ?thesis
      proof (cases "length a < n")
        case True
        with False Take show ?thesis
          by (simp add: Parse_step [of a] option.map_ident_strong split: prod.splits)
      next
        case enough: False
        have "decodeDeviceMessage (take n a) \<noteq> Some (Inl e')" for e'
          using msg_round_Take [OF Take False] False
          by (intro decode_no_error) (auto simp: hd_take)
        with 1(2) [OF False Take enough] enough Take show ?thesis
          by (auto simp: Parse_step [OF ab] Parse_step [OF False] rab map_option_case
              split: option.splits sum.splits)
      qed
    qed
  qed
qed

text \<open>
  \<open>controlReader\<close>: one turn of its loop for each chunk \<open>Read\<close> returns.  The state is the leftover
  and the messages sent to \<open>CtrlCh\<close>; \<open>None\<close> is the panic of the parser.  A read timeout changes
  nothing; an error or an empty read ends the loop.
\<close>

datatype ctrl_read = Chunk bytes | ReadTimeout | ReadError

fun controlReader :: "ctrl_read list \<Rightarrow> bytes \<Rightarrow> DeviceMsg list option" where
  "controlReader [] leftover = Some []"
| "controlReader (ReadTimeout # rs) leftover = controlReader rs leftover"
| "controlReader (ReadError # rs) leftover = Some []"
| "controlReader (Chunk buf # rs) leftover =
     (if buf = [] then Some []
      else case ParseDeviceMessages (leftover @ buf) of
             None \<Rightarrow> None
           | Some (msgs, remainder, Some err) \<Rightarrow> controlReader rs []
           | Some (msgs, remainder, None) \<Rightarrow> map_option ((@) msgs) (controlReader rs remainder))"

text \<open>The bytes a list of reads delivers before the loop ends.\<close>

fun delivered :: "ctrl_read list \<Rightarrow> bytes" where
  "delivered (Chunk buf # rs) = (if buf = [] then [] else buf @ delivered rs)"
| "delivered (ReadTimeout # rs) = delivered rs"
| "delivered _ = []"

lemma Parse_leftover:
  "ParseDeviceMessages a = Some (ms, r, e) \<Longrightarrow> ParseDeviceMessages r = Some ([], r, None)"
proof (induction a arbitrary: ms rule: ParseDeviceMessages.induct)
  case (1 a)
  show ?case
  proof (cases "a = []")
    case True
    with "1.prems" show ?thesis by (simp add: ParseDeviceMessages.simps)
  next
    case False
    show ?thesis
    proof (cases "msg_round a")
      case (Take n)
      have "decodeDeviceMessage (take n a) \<noteq> Some (Inl e')" for e'
        using msg_round_Take [OF Take False] False
        by (intro decode_no_error) (auto simp: hd_take)
      with "1.IH"(2) [OF False Take] "1.prems" False Take show ?thesis
        by (auto simp: Parse_step split: option.splits sum.splits if_splits)
    qed (use 1 False in \<open>auto simp: Parse_step\<close>)
  qed
qed

text \<open>
  However the device's bytes are cut into reads, \<open>controlReader\<close> sends the messages of the
  whole stream, in order, and nothing else: it agrees with one parse of all the bytes delivered,
  panic included.
\<close>

theorem controlReader_chunks:
  "controlReader rs [] = map_option fst (ParseDeviceMessages (delivered rs))"
proof -
  have "ParseDeviceMessages l = Some ([], l, None) \<Longrightarrow>
      controlReader rs l = map_option fst (ParseDeviceMessages (l @ delivered rs))" for l
  proof (induction rs l rule: controlReader.induct)
    case (4 buf rs l)
    show ?case
    proof (cases "buf = []")
      case False
      show ?thesis
      proof (cases "ParseDeviceMessages (l @ buf)")
        case None
        with False show ?thesis using Parse_append [of "l @ buf" "delivered rs"] by simp
      next
        case (Some x)
        then obtain ms r where x: "ParseDeviceMessages (l @ buf) = Some (ms, r, None)"
          using Parse_no_error [of "l @ buf"] by (cases x) (metis option.exhaust)
        have "controlReader rs r = map_option fst (ParseDeviceMessages (r @ delivered rs))"
          using 4(1) [OF False x refl refl refl] Parse_leftover [OF x] by blast
        with False x show ?thesis
          using Parse_append [of "l @ buf" "delivered rs"]
          by (simp add: option.map_comp comp_def case_prod_beta)
      qed
    qed (use 4 in simp)
  qed simp_all
  from this [of "[]"] show ?thesis by (simp add: ParseDeviceMessages.simps [of "[]"])
qed


section \<open>What the device sends\<close>

datatype device_msg = Clipboard bytes | AckClipboard u64 | UhidOutput u16 bytes

fun device_wire :: "device_msg \<Rightarrow> bytes" where
  "device_wire (Clipboard t) = [0x00] @ put_u32 (of_nat (length t)) @ t"
| "device_wire (AckClipboard sq) = [0x01] @ put_u64 sq"
| "device_wire (UhidOutput dev payload) =
     [0x02] @ put_u16 dev @ put_u16 (of_nat (length payload)) @ payload"

fun device_ok :: "device_msg \<Rightarrow> bool" where
  "device_ok (Clipboard t) \<longleftrightarrow> length t < 2 ^ 32 - 5"
| "device_ok (AckClipboard sq) \<longleftrightarrow> True"
| "device_ok (UhidOutput dev payload) \<longleftrightarrow> length payload < 2 ^ 16 - 5"

fun DeviceMsg_of :: "device_msg \<Rightarrow> DeviceMsg" where
  "DeviceMsg_of (Clipboard t) = zero_DeviceMsg\<lparr>dm_Type := ''clipboard'', dm_Text := t\<rparr>"
| "DeviceMsg_of (AckClipboard sq) = zero_DeviceMsg\<lparr>dm_Type := ''ack_clipboard'', dm_Sequence := sq\<rparr>"
| "DeviceMsg_of (UhidOutput dev payload) =
     zero_DeviceMsg\<lparr>dm_Type := ''uhid_output'', dm_DevID := dev, dm_DataHex := hex_bytes payload,
       dm_Raw := Some payload\<rparr>"

lemma unat_5_plus: "n < 2 ^ LENGTH('a) - 5 \<Longrightarrow> 3 \<le> LENGTH('a) \<Longrightarrow>
  unat (5 + of_nat n :: 'a::len word) = 5 + n"
proof -
  assume n: "n < 2 ^ LENGTH('a) - 5"
  have "(5 + of_nat n :: 'a word) = of_nat (5 + n)" by simp
  moreover have "unat (of_nat (5 + n) :: 'a word) = 5 + n"
    using n by (intro unat_word_of_length) linarith
  ultimately show ?thesis by simp
qed

lemma Parse_message:
  assumes "msg_round (w @ r) = Take (length w)" "w \<noteq> []"
  shows "ParseDeviceMessages (w @ r) =
     (case decodeDeviceMessage w of
        None \<Rightarrow> None
      | Some (Inl err) \<Rightarrow> Some ([], w @ r, Some err)
      | Some (Inr msg) \<Rightarrow>
          map_option (\<lambda>(msgs, r'). (msg # msgs, r')) (ParseDeviceMessages r))"
  using assms by (auto simp: Parse_step split: option.split sum.split)

lemma Parse_wire:
  assumes "device_ok m"
  shows "ParseDeviceMessages (device_wire m @ r)
    = map_option (\<lambda>(ms, r'). (DeviceMsg_of m # ms, r')) (ParseDeviceMessages r)"
proof (cases m)
  case (Clipboard t)
  with assms have n: "length t < 2 ^ 32 - 5" by simp
  let ?w = "0 # put_u32 (of_nat (length t)) @ t"
  have round: "msg_round (?w @ r) = Take (length ?w)"
    using n by (simp add: msg_round_def codec unat_word_of_length)
  have "unat (5 + of_nat (length t) :: u32) = 5 + length t"
    using n by (intro unat_5_plus) simp_all
  then have "decodeDeviceMessage ?w = Some (Inr (DeviceMsg_of m))"
    by (simp add: decodeDeviceMessage_def go_slice_def codec Clipboard)
  with Parse_message [OF round] show ?thesis by (simp add: Clipboard)
next
  case (AckClipboard sq)
  then show ?thesis
    by (simp add: Parse_step msg_round_def decodeDeviceMessage_def go_slice_def codec)
next
  case (UhidOutput dev p)
  with assms have n: "length p < 2 ^ 16 - 5" by simp
  let ?w = "2 # put_u16 dev @ put_u16 (of_nat (length p)) @ p"
  have round: "msg_round (?w @ r) = Take (length ?w)"
    using n by (simp add: msg_round_def codec unat_word_of_length)
  have "unat (5 + of_nat (length p) :: u16) = 5 + length p"
    using n by (intro unat_5_plus) simp_all
  then have "decodeDeviceMessage ?w = Some (Inr (DeviceMsg_of m))"
    by (simp add: decodeDeviceMessage_def go_slice_def codec UhidOutput)
  with Parse_message [OF round] show ?thesis by (simp add: UhidOutput)
qed

text \<open>
  C37. The parser inverts the device's encoding: a stream of well-sized messages is parsed back,
  each to its own fields and in order, and nothing is left over.
\<close>

theorem device_messages_roundtrip:
  assumes "list_all device_ok ms"
  shows "ParseDeviceMessages (concat (map device_wire ms)) = Some (map DeviceMsg_of ms, [], None)"
  using assms
  by (induction ms) (simp_all add: Parse_wire ParseDeviceMessages.simps [of "[]"])

lemma device_messages_roundtrip_witness:
  "ParseDeviceMessages (concat (map device_wire
     [Clipboard [104, 105], AckClipboard 7, UhidOutput 1 [0xAB]]))
   = Some (map DeviceMsg_of [Clipboard [104, 105], AckClipboard 7, UhidOutput 1 [0xAB]], [], None)"
  by (rule device_messages_roundtrip) simp

text \<open>
  A UHID output report of 65531 to 65535 bytes, which its 16-bit length field can announce,
  makes the parser panic: the bound \<open>5+dataLen\<close> wraps below the start of the slice.
\<close>

theorem uhid_output_panics:
  assumes "2 ^ 16 - 5 \<le> length payload" "length payload < 2 ^ 16"
  shows "ParseDeviceMessages (device_wire (UhidOutput dev payload) @ r) = None"
proof -
  let ?w = "2 # put_u16 dev @ put_u16 (of_nat (length payload)) @ payload"
  have round: "msg_round (?w @ r) = Take (length ?w)"
    using assms by (simp add: msg_round_def codec unat_word_of_length)
  have "unat (5 + of_nat (length payload) :: u16) < 5"
  proof -
    have "(5 + of_nat (length payload) :: u16) = of_nat (length payload + 5)" by simp
    also have "\<dots> = of_nat (length payload + 5 - 2 ^ 16)"
      using assms by (simp flip: of_nat_diff) (simp add: of_nat_diff)
    finally have sum: "(5 + of_nat (length payload) :: u16) = of_nat (length payload + 5 - 2 ^ 16)" .
    have "length payload + 5 - 2 ^ 16 < 2 ^ LENGTH(16)" using assms by simp
    from unat_word_of_length [OF this] have
      "unat (5 + of_nat (length payload) :: u16) = length payload + 5 - 2 ^ 16"
      unfolding sum .
    with assms show ?thesis by simp
  qed
  then have "decodeDeviceMessage ?w = None"
    by (simp add: decodeDeviceMessage_def go_slice_def codec)
  with Parse_message [OF round] show ?thesis by simp
qed

lemma uhid_output_panics_witness:
  "ParseDeviceMessages (device_wire (UhidOutput 1 (replicate 65531 0)) @ []) = None"
  by (rule uhid_output_panics) simp_all

end
