(* ===== verification/Recovery.thy ===== *)
theory Recovery
  imports Prelude
begin

text \<open>
  The picture-loss recovery of \<open>agent/internal/webrtc/peer.go\<close> (\<open>rtcpListener\<close>): on PLI packets of
  the browser the agent asks the encoder for a keyframe (L1) and, when that does not help, resets it
  (L2); a FIR packet resets it at once.

  An event carries the instant at which it is handled; the clock reads of one packet's handling are
  one instant.  The call-backs \<open>onRequestKeyframe\<close> and \<open>onResetVideo\<close> are the actions of the step
  (the controller sets both).
\<close>

datatype pliState = Normal | Request | Reset

datatype recovery_action = RequestKeyframe | ResetVideo

record recovery =
  rc_pliCount :: int
  rc_pliState :: pliState
  rc_lastDecoded :: u32
  rc_decodedAtStateChange :: u32
  rc_lastDecodedTime :: time
  rc_lastPLITime :: time
  rc_lastResetTime :: time
  rc_lastFIR :: time

definition pliBaseInterval :: duration where "pliBaseInterval = 1 * second"
definition resetThrottle :: duration where "resetThrottle = 10 * second"
definition minResetInterval :: duration where "minResetInterval = 15 * second"

lemmas intervals = pliBaseInterval_def resetThrottle_def minResetInterval_def

text \<open>The state when the listener starts, at \<open>t0\<close>: the zero times are Go's.\<close>

definition start_recovery :: "time \<Rightarrow> recovery" where
  "start_recovery t0 = \<lparr>rc_pliCount = 0, rc_pliState = Normal, rc_lastDecoded = 0,
     rc_decodedAtStateChange = 0, rc_lastDecodedTime = t0, rc_lastPLITime = t0,
     rc_lastResetTime = 0, rc_lastFIR = 0\<rparr>"

definition UpdateFramesDecoded :: "u32 \<Rightarrow> time \<Rightarrow> recovery \<Rightarrow> recovery" where
  "UpdateFramesDecoded decoded now r =
     (if decoded > rc_lastDecoded r then r\<lparr>rc_lastDecoded := decoded, rc_lastDecodedTime := now\<rparr>
      else r)"

text \<open>The decision in state \<open>pliState\<close>, after the throttle and the self-healing.\<close>

definition pli_decide :: "time \<Rightarrow> recovery \<Rightarrow> recovery_action option \<times> recovery" where
  "pli_decide now r =
     (case rc_pliState r of
        Normal \<Rightarrow>
          (Some RequestKeyframe,
           r\<lparr>rc_pliCount := 1, rc_pliState := Request, rc_lastDecodedTime := now,
             rc_decodedAtStateChange := rc_lastDecoded r\<rparr>)
      | Request \<Rightarrow>
          if rc_pliCount r \<ge> 6 \<or> time_sub now (rc_lastDecodedTime r) > 3 * second then
            (if time_sub now (rc_lastResetTime r) < minResetInterval then (None, r)
             else (Some ResetVideo,
                   r\<lparr>rc_pliState := Reset, rc_pliCount := 0, rc_lastResetTime := now\<rparr>))
          else (Some RequestKeyframe, r)
      | Reset \<Rightarrow>
          if time_sub now (rc_lastResetTime r) > minResetInterval
          then (Some ResetVideo, r\<lparr>rc_lastResetTime := now\<rparr>)
          else (None, r))"

definition pli_heal :: "recovery \<Rightarrow> recovery" where
  "pli_heal r =
     (if rc_pliState r \<noteq> Normal \<and> rc_lastDecoded r > rc_decodedAtStateChange r
      then r\<lparr>rc_pliState := Normal, rc_pliCount := 0\<rparr> else r)"

definition pli_throttle :: "recovery \<Rightarrow> duration" where
  "pli_throttle r = (if rc_pliState r = Reset then resetThrottle else pliBaseInterval)"

definition on_PLI :: "time \<Rightarrow> recovery \<Rightarrow> recovery_action option \<times> recovery" where
  "on_PLI now r =
     (if time_sub now (rc_lastPLITime r) < pli_throttle r then (None, r)
      else pli_decide now (pli_heal (r\<lparr>rc_lastPLITime := now, rc_pliCount := rc_pliCount r + 1\<rparr>)))"

definition on_FIR :: "time \<Rightarrow> recovery \<Rightarrow> recovery_action option \<times> recovery" where
  "on_FIR now r =
     (if time_sub now (rc_lastFIR r) < minResetInterval then (None, r)
      else (Some ResetVideo,
            r\<lparr>rc_lastFIR := now, rc_pliState := Reset, rc_pliCount := 0, rc_lastResetTime := now\<rparr>))"

text \<open>The events of the listener and of the telemetry that feeds it.\<close>

datatype rtcp_event = PLI time | FIR time | Decoded u32 time

fun recovery_step :: "rtcp_event \<Rightarrow> recovery \<Rightarrow> recovery_action option \<times> recovery" where
  "recovery_step (PLI now) r = on_PLI now r"
| "recovery_step (FIR now) r = on_FIR now r"
| "recovery_step (Decoded d now) r = (None, UpdateFramesDecoded d now r)"

fun event_time :: "rtcp_event \<Rightarrow> time" where
  "event_time (PLI now) = now"
| "event_time (FIR now) = now"
| "event_time (Decoded d now) = now"

section \<open>Throttling\<close>

lemma heal_fields [simp]:
  "rc_lastPLITime (pli_heal r) = rc_lastPLITime r" "rc_lastResetTime (pli_heal r) = rc_lastResetTime r"
  "rc_lastFIR (pli_heal r) = rc_lastFIR r"
  by (simp_all add: pli_heal_def)

lemma decide_fields [simp]:
  "rc_lastPLITime (snd (pli_decide now r)) = rc_lastPLITime r" "rc_lastFIR (snd (pli_decide now r)) = rc_lastFIR r"
  by (auto simp: pli_decide_def split: pliState.splits)

text \<open>A PLI is handled at most once a second: \<open>rc_lastPLITime\<close> is the stamp of a throttle.\<close>

fun pli_handled :: "rtcp_event \<Rightarrow> recovery \<Rightarrow> bool" where
  "pli_handled (PLI now) r \<longleftrightarrow> \<not> time_sub now (rc_lastPLITime r) < pli_throttle r"
| "pli_handled _ r \<longleftrightarrow> False"

definition recovery_next :: "rtcp_event \<Rightarrow> recovery \<Rightarrow> recovery" where
  "recovery_next e r = snd (recovery_step e r)"

lemma recovery_next_simps [simp]:
  "recovery_next (PLI now) r = snd (on_PLI now r)"
  "recovery_next (FIR now) r = snd (on_FIR now r)"
  "recovery_next (Decoded d now) r = UpdateFramesDecoded d now r"
  by (simp_all add: recovery_next_def)

interpretation pli: throttle pli_handled recovery_next rc_lastPLITime event_time "1 * second"
proof
  fix e r
  show "1 * second \<le> event_time e - rc_lastPLITime r" if "pli_handled e r"
    using that by (cases e)
      (auto simp: pli_throttle_def intervals time_sub_less_iff split: if_splits)
  show "rc_lastPLITime (recovery_next e r) = event_time e" if "pli_handled e r"
    using that by (cases e) (auto simp: on_PLI_def)
  show "rc_lastPLITime (recovery_next e r) = rc_lastPLITime r" if "\<not> pli_handled e r"
    using that by (cases e) (auto simp: on_PLI_def on_FIR_def UpdateFramesDecoded_def)
qed

text \<open>FIR resets are 15 seconds apart.\<close>

fun fir_handled :: "rtcp_event \<Rightarrow> recovery \<Rightarrow> bool" where
  "fir_handled (FIR now) r \<longleftrightarrow> \<not> time_sub now (rc_lastFIR r) < minResetInterval"
| "fir_handled _ r \<longleftrightarrow> False"

interpretation fir: throttle fir_handled recovery_next rc_lastFIR event_time "15 * second"
proof
  fix e r
  show "15 * second \<le> event_time e - rc_lastFIR r" if "fir_handled e r"
    using that by (cases e) (auto simp: intervals time_sub_less_iff)
  show "rc_lastFIR (recovery_next e r) = event_time e" if "fir_handled e r"
    using that by (cases e) (auto simp: on_FIR_def)
  show "rc_lastFIR (recovery_next e r) = rc_lastFIR r" if "\<not> fir_handled e r"
    using that by (cases e) (auto simp: on_PLI_def on_FIR_def UpdateFramesDecoded_def)
qed

section \<open>The spacing of the actions\<close>

text \<open>The resets of a run, each with whether a FIR caused it.\<close>

definition is_FIR :: "rtcp_event \<Rightarrow> bool" where
  "is_FIR e = (case e of FIR _ \<Rightarrow> True | _ \<Rightarrow> False)"

fun resets :: "recovery \<Rightarrow> rtcp_event list \<Rightarrow> (bool \<times> time) list" where
  "resets r [] = []"
| "resets r (e # es) =
     (if fst (recovery_step e r) = Some ResetVideo then [(is_FIR e, event_time e)] else [])
     @ resets (recovery_next e r) es"

fun all_actions :: "recovery \<Rightarrow> rtcp_event list \<Rightarrow> (recovery_action \<times> time) list" where
  "all_actions r [] = []"
| "all_actions r (e # es) =
     (case fst (recovery_step e r) of None \<Rightarrow> [] | Some a \<Rightarrow> [(a, event_time e)])
     @ all_actions (recovery_next e r) es"

lemma reset_PLI:
  assumes "fst (on_PLI now r) = Some ResetVideo"
  shows "15 * second \<le> now - rc_lastResetTime r" "rc_lastResetTime (snd (on_PLI now r)) = now"
proof -
  have fire: "fst (pli_decide now q) = Some ResetVideo \<Longrightarrow>
      15 * second \<le> now - rc_lastResetTime q \<and> rc_lastResetTime (snd (pli_decide now q)) = now" for q
    by (auto simp: pli_decide_def intervals time_sub_less_iff time_sub_def split: pliState.splits if_splits)
  let ?q = "pli_heal (r\<lparr>rc_lastPLITime := now, rc_pliCount := rc_pliCount r + 1\<rparr>)"
  have "fst (pli_decide now ?q) = Some ResetVideo" "snd (on_PLI now r) = snd (pli_decide now ?q)"
    using assms by (auto simp: on_PLI_def split: if_splits)
  with fire [of ?q] show "15 * second \<le> now - rc_lastResetTime r"
    "rc_lastResetTime (snd (on_PLI now r)) = now" by simp_all
qed

lemma no_reset_keeps:
  "fst (on_PLI now r) \<noteq> Some ResetVideo \<Longrightarrow> rc_lastResetTime (snd (on_PLI now r)) = rc_lastResetTime r"
  by (auto simp: on_PLI_def pli_decide_def split: pliState.splits if_splits)


text \<open>The times of the keyframe requests of a run.\<close>

fun requests :: "recovery \<Rightarrow> rtcp_event list \<Rightarrow> time list" where
  "requests r [] = []"
| "requests r (e # es) =
     (if fst (recovery_step e r) = Some RequestKeyframe then [event_time e] else [])
     @ requests (recovery_next e r) es"

lemma request_handled: "fst (recovery_step e r) = Some RequestKeyframe \<Longrightarrow> pli_handled e r"
  by (cases e) (auto simp: on_PLI_def on_FIR_def split: if_splits)

lemma requests_spaced_from: "t0 \<le> rc_lastPLITime r \<Longrightarrow> spaced (1 * second) (t0 # requests r es)"
proof (induction es arbitrary: r t0)
  case (Cons e es)
  show ?case
  proof (cases "fst (recovery_step e r) = Some RequestKeyframe")
    case True
    then have h: "pli_handled e r" by (rule request_handled)
    have "1 * second \<le> event_time e - t0" using pli.fire_gap [OF h] Cons.prems by simp
    moreover have "spaced (1 * second) (event_time e # requests (recovery_next e r) es)"
      by (rule Cons.IH) (simp add: pli.fire_stamp [OF h])
    ultimately show ?thesis using True by simp
  next
    case False
    have "t0 \<le> rc_lastPLITime (recovery_next e r)"
    proof (cases "pli_handled e r")
      case True
      with pli.fire_gap [OF True] pli.fire_stamp [OF True] Cons.prems show ?thesis by simp
    next
      case not: False
      with pli.idle_stamp [OF not] Cons.prems show ?thesis by simp
    qed
    with False Cons.IH [of t0 "recovery_next e r"] show ?thesis by simp
  qed
qed simp

fun pli_resets_spaced :: "(bool \<times> time) list \<Rightarrow> bool" where
  "pli_resets_spaced ((k, t) # (k', t') # rs) =
     ((k' \<or> 15 * second \<le> t' - t) \<and> pli_resets_spaced ((k', t') # rs))"
| "pli_resets_spaced _ = True"

lemma resets_spaced_from:
  "pli_resets_spaced ((k, rc_lastResetTime r) # resets r es)"
proof (induction es arbitrary: r k)
  case (Cons e es)
  show ?case
  proof (cases "fst (recovery_step e r) = Some ResetVideo")
    case True
    then consider now where "e = PLI now" | now where "e = FIR now" by (cases e) auto
    then show ?thesis
    proof cases
      case (1 now)
      with True reset_PLI [of now r] Cons.IH [of False "snd (on_PLI now r)"] show ?thesis
        by (simp add: is_FIR_def)
    next
      case (2 now)
      with True have "rc_lastResetTime (snd (on_FIR now r)) = now"
        by (auto simp: on_FIR_def split: if_splits)
      with 2 True Cons.IH [of True "snd (on_FIR now r)"] show ?thesis
        by (simp add: is_FIR_def)
    qed
  next
    case False
    have "rc_lastResetTime (recovery_next e r) = rc_lastResetTime r"
      using False no_reset_keeps
      by (cases e) (auto simp: on_FIR_def UpdateFramesDecoded_def split: if_splits)
    with False Cons.IH [of k "recovery_next e r"] show ?thesis by simp
  qed
qed simp

lemma fir_resets: "map snd (filter fst (resets r es)) = firings fir_handled recovery_next event_time r es"
proof (induction es arbitrary: r)
  case (Cons e es)
  have "fst (recovery_step e r) = Some ResetVideo \<and> is_FIR e \<longleftrightarrow> fir_handled e r"
    by (cases e) (auto simp: is_FIR_def on_FIR_def split: if_splits)
  with Cons show ?case by auto
qed simp


text \<open>
  The recovery escalates exactly when the decoder is stuck.  After a first picture loss has
  been answered with a keyframe request at \<open>t1\<close>, a second one that passes the throttle more than
  three seconds later resets the encoder if the browser has decoded no further frame (and no reset
  happened within 15 seconds), and only asks for another keyframe if it has.
\<close>

theorem pli_escalation:
  assumes "rc_pliState r = Normal" "pliBaseInterval \<le> t1 - rc_lastPLITime r"
    and "3 * second < t2 - t1" "t2 - rc_lastResetTime r \<ge> minResetInterval"
    and "r1 = snd (on_PLI t1 r)"
  shows "fst (on_PLI t1 r) = Some RequestKeyframe \<and> fst (on_PLI t2 r1) = Some ResetVideo
    \<and> (d > rc_lastDecoded r1 \<longrightarrow>
         fst (on_PLI t2 (UpdateFramesDecoded d t r1)) = Some RequestKeyframe)"
proof (intro conjI impI)
  have th: "\<not> time_sub t1 (rc_lastPLITime r) < pli_throttle r"
    using assms(1,2) by (simp add: pli_throttle_def intervals time_sub_less_iff)
  then have eq: "on_PLI t1 r = (Some RequestKeyframe,
      r\<lparr>rc_lastPLITime := t1, rc_pliCount := 1, rc_pliState := Request, rc_lastDecodedTime := t1,
        rc_decodedAtStateChange := rc_lastDecoded r\<rparr>)"
    using assms(1) by (simp add: on_PLI_def pli_heal_def pli_decide_def)
  then show "fst (on_PLI t1 r) = Some RequestKeyframe" by simp
  have r1: "r1 = r\<lparr>rc_lastPLITime := t1, rc_pliCount := 1, rc_pliState := Request,
      rc_lastDecodedTime := t1, rc_decodedAtStateChange := rc_lastDecoded r\<rparr>"
    using assms(5) eq by simp
  have late: "\<not> time_sub t2 t1 < pliBaseInterval" "time_sub t2 t1 > 3 * second"
    using assms(3) by (simp_all add: time_sub_def intervals)
  have nr: "\<not> time_sub t2 (rc_lastResetTime r) < minResetInterval"
    using assms(4) by (simp add: time_sub_less_iff intervals)
  have thr: "pli_throttle r1 = pliBaseInterval" by (simp add: r1 pli_throttle_def)
  have heal: "pli_heal (r1\<lparr>rc_lastPLITime := t2, rc_pliCount := rc_pliCount r1 + 1\<rparr>)
      = r1\<lparr>rc_lastPLITime := t2, rc_pliCount := rc_pliCount r1 + 1\<rparr>"
    by (simp add: pli_heal_def r1)
  have last: "rc_lastPLITime r1 = t1" "rc_lastResetTime r1 = rc_lastResetTime r"
    "rc_lastDecodedTime r1 = t1" "rc_pliState r1 = Request"
    by (simp_all add: r1)
  show "fst (on_PLI t2 r1) = Some ResetVideo"
    unfolding on_PLI_def thr heal last using late nr by (simp add: pli_decide_def last)
  assume d: "d > rc_lastDecoded r1"
  let ?u = "UpdateFramesDecoded d t r1"
  have u: "?u = r1\<lparr>rc_lastDecoded := d, rc_lastDecodedTime := t\<rparr>"
    using d by (simp add: UpdateFramesDecoded_def)
  have "pli_throttle ?u = pliBaseInterval" "rc_lastPLITime ?u = t1"
    unfolding u by (simp_all add: r1 pli_throttle_def)
  moreover have "rc_pliState (pli_heal (?u\<lparr>rc_lastPLITime := t2, rc_pliCount := rc_pliCount ?u + 1\<rparr>)) = Normal"
    unfolding u using d by (simp add: r1 pli_heal_def)
  ultimately show "fst (on_PLI t2 ?u) = Some RequestKeyframe"
    using late(1) by (simp add: on_PLI_def pli_decide_def)
qed

text \<open>A listener started at second 100; losses at seconds 102 and 106.\<close>

lemma pli_escalation_witness:
  "fst (on_PLI (106 * second) (snd (on_PLI (102 * second) (start_recovery (100 * second)))))
     = Some ResetVideo"
proof -
  let ?r = "start_recovery (100 * second)"
  have "rc_pliState ?r = Normal" "pliBaseInterval \<le> 102 * second - rc_lastPLITime ?r"
    "3 * second < 106 * second - 102 * second"
    "106 * second - rc_lastResetTime ?r \<ge> minResetInterval"
    by (simp_all add: start_recovery_def intervals)
  from pli_escalation [OF this refl] show ?thesis by blast
qed

end
