(* ===== verification/Fec.thy ===== *)
theory Fec
  imports Red GoFloat
begin

text \<open>
  The quality telemetry and the automatic switch of RED redundancy in
  \<open>agent/internal/webrtc/peer.go\<close> (\<open>UpdateQoS\<close>, \<open>evaluateFEC\<close>).

  An \<open>atomic.Value\<close> that was never stored is \<open>None\<close>.  Loss and round-trip time are floating-point
  numbers: a comparison with a NaN is false.
\<close>

record qos =
  q_lossRate :: "f64 option"
  q_rttMs :: "f64 option"
  q_rtcpRTTMs :: "f64 option"
  q_fecAutoDisabled :: bool
  q_fecEnabledFlag :: bool
  q_lastFECToggle :: time
  q_currentBitrate :: int
  q_red :: red

definition start_qos :: qos where
  "start_qos = \<lparr>q_lossRate = None, q_rttMs = None, q_rtcpRTTMs = None, q_fecAutoDisabled = False,
     q_fecEnabledFlag = False, q_lastFECToggle = 0, q_currentBitrate = 0,
     q_red = newREDSenderInterceptor 102 116\<rparr>"

definition load_f64 :: "f64 option \<Rightarrow> f64" where
  "load_f64 v = (case v of Some x \<Rightarrow> x | None \<Rightarrow> Fin 0)"

definition GetLossRate :: "qos \<Rightarrow> f64" where
  "GetLossRate q = load_f64 (q_lossRate q)"

definition GetRTTMs :: "qos \<Rightarrow> f64" where
  "GetRTTMs q =
     (let browserRTT = load_f64 (q_rttMs q); rtcpRTT = load_f64 (q_rtcpRTTMs q)
      in if f64_less browserRTT rtcpRTT then rtcpRTT else browserRTT)"

definition SetCurrentBitrate :: "int \<Rightarrow> qos \<Rightarrow> qos" where
  "SetCurrentBitrate bps q = q\<lparr>q_currentBitrate := wrap32 bps\<rparr>"

definition SetFECAutoDisabled :: "bool \<Rightarrow> qos \<Rightarrow> qos" where
  "SetFECAutoDisabled v q = q\<lparr>q_fecAutoDisabled := v\<rparr>"

text \<open>
  The first reception block of a receiver report with a delay: 1/65536 seconds, in milliseconds.
  (The quotient and the product are exact in \<open>float64\<close>.)
\<close>

definition on_ReceiverReport :: "u32 list \<Rightarrow> qos \<Rightarrow> qos" where
  "on_ReceiverReport delays q =
     (case find (\<lambda>d. d > 0) delays of
        None \<Rightarrow> q
      | Some d \<Rightarrow> q\<lparr>q_rtcpRTTMs := Some (Fin (of_nat (unat d) / 65536 * 1000))\<rparr>)"

definition fecLossThreshold :: f64 where "fecLossThreshold = Fin 2"
definition fecRTTMax :: f64 where "fecRTTMax = Fin 200"
definition fecWeakUplinkLossMin :: f64 where "fecWeakUplinkLossMin = Fin 5"
definition fecHysteresisMin :: duration where "fecHysteresisMin = 10 * second"

definition setFECEnabled :: "bool \<Rightarrow> qos \<Rightarrow> qos" where
  "setFECEnabled v q = q\<lparr>q_red := SetEnabled v (q_red q), q_fecEnabledFlag := v\<rparr>"

definition toggle_at :: "time \<Rightarrow> bool \<Rightarrow> qos \<Rightarrow> qos" where
  "toggle_at now v q = setFECEnabled v (q\<lparr>q_lastFECToggle := now\<rparr>)"

definition evaluateFEC :: "time \<Rightarrow> qos \<Rightarrow> qos" where
  "evaluateFEC now q =
     (if q_fecAutoDisabled q then q
      else
        let lossRate = GetLossRate q; rttMs = GetRTTMs q
        in if time_sub now (q_lastFECToggle q) < fecHysteresisMin then q
           else
             let cur = q_fecEnabledFlag q
             in if f64_less fecWeakUplinkLossMin lossRate then
                  (if \<not> cur then toggle_at now True q else q)
                else if f64_less fecLossThreshold lossRate \<and> f64_less (Fin 0) rttMs
                          \<and> f64_less rttMs fecRTTMax then
                  (if \<not> cur then toggle_at now True q else q)
                else if f64_less fecLossThreshold lossRate \<and> f64_le fecRTTMax rttMs then
                  (if cur then toggle_at now False q else q)
                else if f64_less lossRate fecLossThreshold then
                  (if cur then toggle_at now False q else q)
                else q)"

definition UpdateQoS :: "f64 \<Rightarrow> f64 \<Rightarrow> time \<Rightarrow> qos \<Rightarrow> qos" where
  "UpdateQoS lossRatePct rttMsVal now q =
     evaluateFEC now (q\<lparr>q_lossRate := Some lossRatePct, q_rttMs := Some rttMsVal\<rparr>)"

section \<open>The switch\<close>

text \<open>What happens to the telemetry of a peer.\<close>

datatype qos_event =
    EvQoS f64 f64 time
  | EvReport "u32 list" time
  | EvAutoDisabled bool time
  | EvBitrate int time
  | EvTypes byte byte time
  | EvPacket rtp_header bytes time

fun qos_time :: "qos_event \<Rightarrow> time" where
  "qos_time (EvQoS l r now) = now"
| "qos_time (EvReport ds now) = now"
| "qos_time (EvAutoDisabled v now) = now"
| "qos_time (EvBitrate b now) = now"
| "qos_time (EvTypes p r now) = now"
| "qos_time (EvPacket h p now) = now"

fun qos_step :: "qos_event \<Rightarrow> qos \<Rightarrow> qos" where
  "qos_step (EvQoS l r now) q = UpdateQoS l r now q"
| "qos_step (EvReport ds now) q = on_ReceiverReport ds q"
| "qos_step (EvAutoDisabled v now) q = SetFECAutoDisabled v q"
| "qos_step (EvBitrate b now) q = SetCurrentBitrate b q"
| "qos_step (EvTypes p r now) q = q\<lparr>q_red := SetPayloadTypes p r (q_red q)\<rparr>"
| "qos_step (EvPacket h p now) q = q\<lparr>q_red := snd (red_write (h, p) (q_red q))\<rparr>"

definition fec_toggles :: "qos_event \<Rightarrow> qos \<Rightarrow> bool" where
  "fec_toggles e q \<longleftrightarrow> q_fecEnabledFlag (qos_step e q) \<noteq> q_fecEnabledFlag q"

lemma toggle_fields [simp]:
  "q_fecEnabledFlag (toggle_at now v q) = v" "q_lastFECToggle (toggle_at now v q) = now"
  "rd_enabled (q_red (toggle_at now v q)) = v"
  by (simp_all add: toggle_at_def setFECEnabled_def SetEnabled_def Let_def)

lemma evaluateFEC_cases:
  obtains (same) "evaluateFEC now q = q"
  | (toggle) "\<not> time_sub now (q_lastFECToggle q) < fecHysteresisMin"
      "evaluateFEC now q = toggle_at now (\<not> q_fecEnabledFlag q) q"
proof -
  have "evaluateFEC now q = q \<or> \<not> time_sub now (q_lastFECToggle q) < fecHysteresisMin
      \<and> evaluateFEC now q = toggle_at now (\<not> q_fecEnabledFlag q) q"
    by (cases "q_fecEnabledFlag q") (simp_all add: evaluateFEC_def Let_def)
  with that show ?thesis by blast
qed

lemma UpdateQoS_cases:
  obtains (keep) q' where "UpdateQoS l r now q = q'" "q_fecEnabledFlag q' = q_fecEnabledFlag q"
      "q_lastFECToggle q' = q_lastFECToggle q" "q_red q' = q_red q"
  | (flip) "10 * second \<le> now - q_lastFECToggle q"
      "q_fecEnabledFlag (UpdateQoS l r now q) = (\<not> q_fecEnabledFlag q)"
      "q_lastFECToggle (UpdateQoS l r now q) = now"
      "rd_enabled (q_red (UpdateQoS l r now q)) = (\<not> q_fecEnabledFlag q)"
proof (cases rule: evaluateFEC_cases [of now "q\<lparr>q_lossRate := Some l, q_rttMs := Some r\<rparr>"])
  case same
  with keep show ?thesis by (simp add: UpdateQoS_def)
next
  case toggle
  with flip show ?thesis
    by (simp add: UpdateQoS_def fecHysteresisMin_def time_sub_less_iff not_less)
qed

interpretation fec: throttle fec_toggles qos_step q_lastFECToggle qos_time "10 * second"
proof
  have other: "\<not> fec_toggles e q \<and> q_lastFECToggle (qos_step e q) = q_lastFECToggle q"
    if "\<forall>l r now. e \<noteq> EvQoS l r now" for e q
    using that by (cases e) (auto simp: fec_toggles_def on_ReceiverReport_def SetFECAutoDisabled_def
        SetCurrentBitrate_def split: option.splits)
  fix e q
  show "10 * second \<le> qos_time e - q_lastFECToggle q" if t: "fec_toggles e q"
  proof -
    obtain l r now where e: "e = EvQoS l r now" using t other by blast
    with t show ?thesis
      by (cases rule: UpdateQoS_cases [of l r now q]) (auto simp: fec_toggles_def)
  qed
  show "q_lastFECToggle (qos_step e q) = qos_time e" if t: "fec_toggles e q"
  proof -
    obtain l r now where e: "e = EvQoS l r now" using t other by blast
    with t show ?thesis
      by (cases rule: UpdateQoS_cases [of l r now q]) (auto simp: fec_toggles_def)
  qed
  show "q_lastFECToggle (qos_step e q) = q_lastFECToggle q" if t: "\<not> fec_toggles e q"
  proof (cases "\<forall>l r now. e \<noteq> EvQoS l r now")
    case False
    then obtain l r now where e: "e = EvQoS l r now" by blast
    with t show ?thesis
      by (cases rule: UpdateQoS_cases [of l r now q]) (auto simp: fec_toggles_def)
  qed (use other in blast)
qed

text \<open>The flag and the interceptor agree.\<close>

definition fec_inv :: "qos \<Rightarrow> bool" where
  "fec_inv q \<longleftrightarrow> rd_enabled (q_red q) = q_fecEnabledFlag q"

interpretation fec_sync: invariant_system "\<lambda>q. q = start_qos" qos_step fec_inv
proof
  show "fec_inv q" if "q = start_qos" for q
    using that by (simp add: fec_inv_def start_qos_def newREDSenderInterceptor_def)
  show "fec_inv (qos_step e q)" if "fec_inv q" for e q
  proof (cases e)
    case (EvQoS l r now)
    with that show ?thesis
      by (cases rule: UpdateQoS_cases [of l r now q]) (auto simp: fec_inv_def)
  qed (use that in \<open>auto simp: fec_inv_def on_ReceiverReport_def SetFECAutoDisabled_def
      SetCurrentBitrate_def SetPayloadTypes_def red_write_def Let_def split: option.splits\<close>)
qed

text \<open>
  Redundancy does not flap: in every run of a peer the switches of RED are at least ten seconds
  apart, and the flag always tells whether the interceptor wraps.
\<close>

theorem fec_hysteresis:
  "spaced (10 * second) (firings fec_toggles qos_step qos_time start_qos es)
   \<and> rd_enabled (q_red (fold qos_step es start_qos)) = q_fecEnabledFlag (fold qos_step es start_qos)"
  using fec.firings_spaced [of start_qos es] fec_sync.run_inv [of start_qos es]
  by (simp add: fec_inv_def)

text \<open>
  The decision: once ten seconds have passed since the last switch, and unless the automatic is
  off, the state after a report is on for a loss above 5 %, on for a loss above 2 % with a
  round-trip time between 0 and 200 ms, off for a loss above 2 % with a longer one, off for a loss
  below 2 %, and otherwise (a NaN, exactly 2 %, or no round-trip time) what it was.  The
  round-trip time is the larger of the browser's and the one of RTCP.
\<close>

theorem fec_decision:
  assumes "\<not> q_fecAutoDisabled q" "10 * second \<le> now - q_lastFECToggle q"
    and "rtt = GetRTTMs (q\<lparr>q_rttMs := Some rttMsVal\<rparr>)"
  shows "q_fecEnabledFlag (UpdateQoS loss rttMsVal now q) =
    (if f64_less (Fin 5) loss then True
     else if f64_less (Fin 2) loss \<and> f64_less (Fin 0) rtt \<and> f64_less rtt (Fin 200) then True
     else if f64_less (Fin 2) loss \<and> f64_le (Fin 200) rtt then False
     else if f64_less loss (Fin 2) then False
     else q_fecEnabledFlag q)"
proof -
  have h: "\<not> time_sub now (q_lastFECToggle q) < fecHysteresisMin"
    using assms(2) by (simp add: fecHysteresisMin_def time_sub_less_iff)
  have "GetLossRate (q\<lparr>q_lossRate := Some loss, q_rttMs := Some rttMsVal\<rparr>) = loss"
    "GetRTTMs (q\<lparr>q_lossRate := Some loss, q_rttMs := Some rttMsVal\<rparr>) = rtt"
    by (simp_all add: GetLossRate_def GetRTTMs_def load_f64_def assms(3))
  with h assms(1) show ?thesis
    by (simp add: UpdateQoS_def evaluateFEC_def Let_def fecLossThreshold_def fecRTTMax_def
        fecWeakUplinkLossMin_def)
qed

text \<open>A loss of 3 % at 40 ms, ten seconds after Go's zero time and later.\<close>

lemma fec_decision_witness:
  "q_fecEnabledFlag (UpdateQoS (Fin 3) (Fin 40) (20 * second) start_qos)"
proof -
  have "\<not> q_fecAutoDisabled start_qos" "10 * second \<le> 20 * second - q_lastFECToggle start_qos"
    by (simp_all add: start_qos_def)
  from fec_decision [OF this refl, of "Fin 3" "Fin 40"] show ?thesis
    by (simp add: GetRTTMs_def load_f64_def Let_def start_qos_def)
qed

end
