(* ===== verification/Spec2Isabelle.thy ===== *)
theory Spec2Isabelle
  imports Compose Pumps Agentd DeviceMsgs Recovery Fec
begin

text \<open>
  A verification development of scrcpy-webrtc-remote: the agent, which runs beside Android devices
  and streams their screens over WebRTC, and the signaling server, through which browsers find the
  agent.  The Go sources under \<open>src/\<close> are translated into HOL functions and step relations; paths
  below are relative to \<open>src/\<close>.

  \<^bold>\<open>The program.\<close>  \<open>cmd/agentd\<close> starts a \<open>host\<close> that a platform drives over gRPC: it is initialised
  with a configuration, started, told which devices to manage, and stopped.  The host's device
  manager keeps one controller for each device.  A controller holds a WebSocket to the signaling
  server; for every browser the server announces it runs a session context, which answers the
  browser's WebRTC offer with a peer, acquires a scrcpy session for the device from the session
  manager (a port of the pool, an adb forwarding, a server on the device, two or three sockets), and
  pumps the session's video, audio and messages into the peer, and the browser's controls into the
  device.

  \<^bold>\<open>Shared theories.\<close>
  \<^item> \<open>Prelude\<close>: names of the Go types, wrap-around and time arithmetic, collections of rules, and the
    contracts \<open>invariant_system\<close> (every step keeps an invariant, so every run does) and \<open>throttle\<close>
    (an action that happens at most once in an interval), interpreted by the components.
  \<^item> \<open>GoBytes\<close>, \<open>GoStrings\<close>, \<open>GoFloat\<close>, \<open>Utf8\<close>: what the sources use of Go's standard library:
    big-endian integers (contract \<open>byte_codec\<close>), string functions, \<open>float64\<close> with its roundings, and
    the validity of UTF-8.

  \<^bold>\<open>Devices and media (\<open>agent/internal\<close>).\<close>
  \<^item> \<open>PortPool\<close> (\<open>portpool/portpool.go\<close>): the pool refines a set of ports; contract \<open>resource_pool\<close>,
    through which \<open>Session\<close> shows that a failed start gives its port back.
  \<^item> \<open>Adb\<close> (\<open>adb/adb.go\<close>): the commands over an arbitrary adb executable.
  \<^item> \<open>Protocol\<close>, \<open>AnnexB\<close> (\<open>gateway/protocol.go\<close>): the framing of packets, start codes, the search
    for a parameter set; every packet written is read back, and the inputs on which the search loops.
  \<^item> \<open>Control\<close>, \<open>DeviceMsgs\<close> (\<open>gateway/control.go\<close>): the builders of control messages against a
    grammar of the stream, and the parser of device messages, whole and in chunks.
  \<^item> \<open>Forwarding\<close>, \<open>Session\<close> (\<open>gateway/session.go\<close>): the forwarders with their PTS normalizer and
    pause buffer; starting and releasing a session over an explicit world of ports and sockets.
  \<^item> \<open>Manager\<close> (\<open>gateway/manager.go\<close>): the sessions of a device with their warm timers; timers that
    fire and callbacks that run are separate events.
  \<^item> \<open>Sdp\<close>, \<open>Peer\<close>, \<open>Red\<close>, \<open>Recovery\<close>, \<open>Fec\<close>, \<open>Pumps\<close> (\<open>webrtc/peer.go\<close>): the readers and the
    rewriting of session descriptions; setting up a peer as the list of calls to the WebRTC library,
    the answer to an offer, callbacks and pumps; the RED sender; the reaction to picture loss; the
    automatic redundancy; and the pumps as goroutines that share a channel.

  \<^bold>\<open>Control plane.\<close>
  \<^item> \<open>Config\<close>, \<open>ConfigStore\<close> (\<open>pkg/config\<close>, \<open>agent/configstore.go\<close>): configurations, defaults,
    overrides, protobuf conversions, and the store (contract \<open>device_config\<close>).
  \<^item> \<open>Messages\<close>, \<open>Signaling\<close> (\<open>pkg/common\<close>, \<open>pkg/signaling\<close>, \<open>cmd/signaling/main.go\<close>): the
    envelope, the registry of agents, the hub's handlers as steps, and the request paths.
  \<^item> \<open>WsClient\<close> (\<open>agent/wsclient.go\<close>): connecting and registering.
  \<^item> \<open>Dispatch\<close>, \<open>Bitrate\<close>, \<open>SessionCtx\<close>, \<open>Controller\<close> (\<open>agent/controller.go\<close>): control messages,
    the bit rate ladder, the context of one browser and the controller of one device.  The last two
    are step relations (\<open>sx_step\<close>, \<open>ct_step\<close>): a step is what a goroutine does between two points
    where it blocks or takes a lock, so that the runs are the interleavings.
  \<^item> \<open>DeviceManager\<close>, \<open>EventHub\<close>, \<open>Host\<close>, \<open>Agentd\<close> (\<open>agent/devicemanager.go\<close>, \<open>agent/host\<close>,
    \<open>agent/hooks.go\<close>, \<open>cmd/agentd/main.go\<close>): the devices, the events for the platform (contract
    \<open>qos_throttle\<close>, an instance of \<open>throttle\<close>), the life cycle and every call, and the process.
  \<^item> \<open>Compose\<close>: properties that need several of these at once.

  \<^bold>\<open>What is shown.\<close>
  \<^item> Invariants and refinements: whatever calls arrive, the host answers each and its devices agree
    with its entries (\<open>Host\<close>, \<open>DeviceManager\<close>); a controller refines a slot that serves one browser
    at a time and forgets no context (\<open>Controller\<close>); a session that was acquired is handed back
    (\<open>SessionCtx\<close>, \<open>Manager\<close>); the life cycle refines its abstract automaton (\<open>Host\<close>).
  \<^item> End to end: an offer reaches the right device and its answer the right browser (\<open>Compose\<close>); the
    first offer plays in every order of its parts (\<open>SessionCtx\<close>); RED packets carry the payload types
    the rewritten answer names (\<open>Peer\<close>); the RTP clock and the pacing of audio are those of the
    captured stream, rounding included (\<open>Peer\<close>); one pump keeps the order (\<open>Pumps\<close>).
  \<^item> Round trips: packets, control and device messages, redundant payloads, extension ids.
  \<^item> Bounds: the ladder of bit rates, the distance of recovery actions, the paused buffer.
  \<^item> Behaviour that hurts: sessions lost between a timer and its callback, a release that never
    returns, a second offer that never plays, a device that crashes the agent when its audio is
    switched off, frames out of order after a reconnection, and others, each as a theorem about the
    code as it is.

  \<^bold>\<open>Conventions.\<close>  A Go panic and a loop that does not end are \<open>None\<close> of an option; an error is a value
  of a sum or an option.  Machine integers are words, or integers with \<open>wrap32\<close> and \<open>wrap64\<close> where
  Go's \<open>int\<close> can overflow.  Locks are modelled by the size of a step.  Go maps are partial functions,
  or lists in any order where they are ranged over.  Conversions of a float out of the range of the
  target type are left to the implementation in Go: they are the argument \<open>conv\<close>.

  \<^bold>\<open>Bounds and fuel.\<close>  There is no fuel for unbounded loops: those recurse on what they consume, or are
  partial functions with theorems for both outcomes (\<open>AnnexB.sps_loop\<close>).  The numerals that occur
  are limits of the code: 50 waits for the server's socket (one begins each 200 ms of its ten
  seconds), 40 attempts to connect the streams, 3 to remove a forwarding, 15 to see a stale server
  gone, and the capacities 32 of a context's queue, 64 of a subscriber's and 180 of the video
  channel.

  \<^bold>\<open>Arguments of the model.\<close>  The adb executable, dialling and the device (\<open>env\<close>), the answers of the
  WebRTC library (\<open>pion\<close>, \<open>offer_results\<close>, \<open>outcome\<close>), clocks, UUIDs, reading files and parsing YAML
  or JSON text.  Nothing is assumed of them beyond what a theorem states.

  \<^bold>\<open>Not modelled.\<close>  Generated protobuf code; logging and the optional debug hooks; WebSocket and gRPC
  transport, keep-alive pings and deadlines; ICE, DTLS and SRTP, and the two seconds a closing peer
  waits for them; flags, signals and the exit after a stop; the browser client, the test drivers and
  the scripts, which are other programs.
\<close>

end
